(* ===== verification/Prelude.thy ===== *)
theory Prelude
  imports Main "HOL-Library.Word" "HOL-Library.Signed_Division"
begin

text \<open>
  The vocabulary shared by every component: the ways in which the C++ code can fail
  (\<open>cpp_error\<close>), the result type of a fallible operation, sequencing of such operations
  (\<open>bindE\<close>), loops over them (\<open>foldE\<close>), checked machine arithmetic, checked vector
  accesses, and a small total-correctness calculus (\<open>okE\<close>) with a partial-correctness
  companion (\<open>safeE\<close>).  A program model returns \<open>Inr\<close> of its final state or \<open>Inl\<close> of the
  first failure; undefined behaviour of the source (out-of-range access, signed overflow,
  division by zero, reading an indeterminate value) is a failure like any other, so that
  a theorem about \<open>Inr\<close> results never speaks about an execution that has none.
\<close>

section \<open>Failures and results\<close>

datatype cpp_error =
    OutOfRange          \<comment> \<open>\<open>operator[]\<close> past the end of a vector\<close>
  | DivByZero           \<comment> \<open>integer division or remainder by zero\<close>
  | SignedOverflow      \<comment> \<open>signed arithmetic outside its type\<close>
  | Indeterminate       \<comment> \<open>a member or variable read before it is written\<close>
  | BadConversion       \<comment> \<open>a floating-point value outside the integer type it is converted to\<close>
  | StdException string \<comment> \<open>an exception of the standard library\<close>
  | NoReturn            \<comment> \<open>control flows off the end of a non-void function\<close>
  | JsonTypeError nat   \<comment> \<open>an exception \<open>json.exception.type_error.NNN\<close>\<close>
  | UseAfterFree        \<comment> \<open>a deleted object is dereferenced\<close>
  | NullDeref           \<comment> \<open>a null pointer is dereferenced\<close>
  | Diverges            \<comment> \<open>a loop that does not end\<close>
  | AssertFail string   \<comment> \<open>a failed \<open>assert\<close>\<close>
  | Panic string        \<comment> \<open>\<open>panic\<close>, \<open>panic_if\<close> or \<open>fatal\<close>\<close>

type_synonym 'a res = "cpp_error + 'a"

type_synonym u64 = "64 word"
type_synonym u32 = "32 word"

named_theorems ok_intros \<open>introduction rules of the total-correctness calculus\<close>

section \<open>Sequencing\<close>

fun bindE :: "'e + 'a \<Rightarrow> ('a \<Rightarrow> 'e + 'b) \<Rightarrow> 'e + 'b" where
  "bindE (Inl e) f = Inl e"
| "bindE (Inr x) f = f x"

fun mapE :: "('a \<Rightarrow> 'b) \<Rightarrow> 'e + 'a \<Rightarrow> 'e + 'b" where
  "mapE f (Inl e) = Inl e"
| "mapE f (Inr x) = Inr (f x)"

definition guardE :: "bool \<Rightarrow> 'e \<Rightarrow> 'e + unit" where
  "guardE b e = (if b then Inr () else Inl e)"

primrec foldE :: "('x \<Rightarrow> 's \<Rightarrow> 'e + 's) \<Rightarrow> 'x list \<Rightarrow> 's \<Rightarrow> 'e + 's" where
  "foldE f [] s = Inr s"
| "foldE f (x # xs) s = bindE (f x s) (foldE f xs)"

primrec mapM :: "('x \<Rightarrow> 'e + 'y) \<Rightarrow> 'x list \<Rightarrow> 'e + 'y list" where
  "mapM f [] = Inr []"
| "mapM f (x # xs) = bindE (f x) (\<lambda>y. mapE ((#) y) (mapM f xs))"

text \<open>The result of a loop, which is \<open>None\<close> if the loop does not end.\<close>

definition loopE :: "'a option \<Rightarrow> 'a res" where
  "loopE r = (case r of None \<Rightarrow> Inl Diverges | Some x \<Rightarrow> Inr x)"

lemma case_option_mono [partial_function_mono]:
  "mono_option h \<Longrightarrow> (\<And>y. mono_option (\<lambda>f. g f y)) \<Longrightarrow>
   mono_option (\<lambda>f. case x of None \<Rightarrow> h f | Some y \<Rightarrow> g f y)"
  by (cases x) auto

lemma case_sum_mono [partial_function_mono]:
  "(\<And>y. mono_option (\<lambda>f. h f y)) \<Longrightarrow> (\<And>y. mono_option (\<lambda>f. g f y)) \<Longrightarrow>
   mono_option (\<lambda>f. case x of Inl y \<Rightarrow> h f y | Inr y \<Rightarrow> g f y)"
  by (cases x) auto

lemma loopE_Some [simp]: "loopE (Some x) = Inr x"
  by (simp add: loopE_def)

lemma bindE_eq_Inr [simp]:
  "bindE m f = Inr y \<longleftrightarrow> (\<exists>x. m = Inr x \<and> f x = Inr y)"
  by (cases m) auto

lemma bindE_eq_Inl:
  "bindE m f = Inl e \<longleftrightarrow> m = Inl e \<or> (\<exists>x. m = Inr x \<and> f x = Inl e)"
  by (cases m) auto

lemma mapE_eq_Inr [simp]: "mapE f m = Inr y \<longleftrightarrow> (\<exists>x. m = Inr x \<and> y = f x)"
  by (cases m) auto

lemma guardE_eq_Inr [simp]: "guardE b e = Inr u \<longleftrightarrow> b"
  by (simp add: guardE_def)

lemma bindE_guardE [simp]: "bindE (guardE b e) f = (if b then f () else Inl e)"
  by (simp add: guardE_def)

lemma bindE_assoc: "bindE (bindE m f) g = bindE m (\<lambda>x. bindE (f x) g)"
  by (cases m) auto

lemma bindE_Inr_right [simp]: "bindE m Inr = m"
  by (cases m) auto

lemma foldE_append: "foldE f (xs @ ys) s = bindE (foldE f xs s) (foldE f ys)"
proof (induction xs arbitrary: s)
  case (Cons x xs)
  then have "foldE f (xs @ ys) = (\<lambda>u. bindE (foldE f xs u) (foldE f ys))" by auto
  then show ?case by (simp add: bindE_assoc)
qed simp

lemma foldE_cong [fundef_cong]:
  assumes "xs = ys" and "s = t" and "\<And>x u. x \<in> set ys \<Longrightarrow> f x u = g x u"
  shows "foldE f xs s = foldE g ys t"
proof -
  have "foldE f ys t = foldE g ys t"
    using assms(3)
  proof (induction ys arbitrary: t)
    case (Cons y ys)
    then show ?case by (cases "g y t") auto
  qed simp
  with assms(1,2) show ?thesis by simp
qed

lemma mapM_eq_Inr_length: "mapM f xs = Inr ys \<Longrightarrow> length ys = length xs"
  by (induction xs arbitrary: ys) auto

lemma mapM_total:
  "(\<And>x. x \<in> set xs \<Longrightarrow> f x = Inr (g x)) \<Longrightarrow> mapM f xs = Inr (map g xs)"
  by (induction xs) auto

section \<open>Total and partial correctness of results\<close>

text \<open>
  \<open>okE m Q\<close>: the computation returns, and its result satisfies \<open>Q\<close>.
  \<open>safeE m Q\<close>: if the computation returns, its result satisfies \<open>Q\<close>.
\<close>

definition okE :: "'e + 'a \<Rightarrow> ('a \<Rightarrow> bool) \<Rightarrow> bool" where
  "okE m Q = (case m of Inl _ \<Rightarrow> False | Inr x \<Rightarrow> Q x)"

definition safeE :: "'e + 'a \<Rightarrow> ('a \<Rightarrow> bool) \<Rightarrow> bool" where
  "safeE m Q = (case m of Inl _ \<Rightarrow> True | Inr x \<Rightarrow> Q x)"

lemma okE_Inr [simp]: "okE (Inr x) Q = Q x"
  by (simp add: okE_def)

lemma okE_Inl [simp]: "okE (Inl e) Q = False"
  by (simp add: okE_def)

lemma okE_bindE [simp]: "okE (bindE m f) Q = okE m (\<lambda>x. okE (f x) Q)"
  by (cases m) auto

lemma okE_mapE [simp]: "okE (mapE g m) Q = okE m (\<lambda>x. Q (g x))"
  by (cases m) auto

lemma okE_guardE [simp]: "okE (guardE b e) Q = (b \<and> Q ())"
  by (simp add: guardE_def)

lemma safeE_Inr [simp]: "safeE (Inr x) Q = Q x"
  by (simp add: safeE_def)

lemma safeE_Inl [simp]: "safeE (Inl e) Q = True"
  by (simp add: safeE_def)

lemma safeE_bindE [simp]: "safeE (bindE m f) Q = safeE m (\<lambda>x. safeE (f x) Q)"
  by (cases m) auto

lemma safeE_mapE [simp]: "safeE (mapE g m) Q = safeE m (\<lambda>x. Q (g x))"
  by (cases m) auto

lemma safeE_guardE [simp]: "safeE (guardE b e) Q = (b \<longrightarrow> Q ())"
  by (simp add: guardE_def)

lemma okE_if [simp]: "okE (if b then m else n) Q = (if b then okE m Q else okE n Q)"
  by simp

lemma safeE_if [simp]: "safeE (if b then m else n) Q = (if b then safeE m Q else safeE n Q)"
  by simp

text \<open>
  Weak congruences: the simplifier runs a straight-line program from its first statement
  on, and does not rewrite the statements behind a binder before their state is known.
\<close>

lemma okE_weak_cong: "m = m' \<Longrightarrow> okE m Q = okE m' Q"
  by simp

lemma safeE_weak_cong: "m = m' \<Longrightarrow> safeE m Q = safeE m' Q"
  by simp

lemma bindE_weak_cong: "m = m' \<Longrightarrow> bindE m f = bindE m' f"
  by simp

lemmas run_cong = okE_weak_cong safeE_weak_cong bindE_weak_cong

lemma okE_iff: "okE m Q \<longleftrightarrow> (\<exists>x. m = Inr x \<and> Q x)"
  by (cases m) auto

lemma safeE_iff: "safeE m Q \<longleftrightarrow> (\<forall>x. m = Inr x \<longrightarrow> Q x)"
  by (cases m) auto

lemma okE_mono: "okE m P \<Longrightarrow> (\<And>x. P x \<Longrightarrow> Q x) \<Longrightarrow> okE m Q"
  by (auto simp: okE_iff)

lemma safeE_mono: "safeE m P \<Longrightarrow> (\<And>x. P x \<Longrightarrow> Q x) \<Longrightarrow> safeE m Q"
  by (auto simp: safeE_iff)

lemma okE_safeE: "okE m Q \<Longrightarrow> safeE m Q"
  by (auto simp: okE_iff)

lemma okE_returns: "okE m Q \<Longrightarrow> \<exists>x. m = Inr x"
  by (auto simp: okE_iff)

lemma safeE_foldE:
  assumes "P s" and "\<And>x u. x \<in> set xs \<Longrightarrow> P u \<Longrightarrow> safeE (f x u) P"
  shows "safeE (foldE f xs s) P"
  using assms
proof (induction xs arbitrary: s)
  case (Cons x xs)
  have "safeE (f x s) P" using Cons.prems by simp
  then show ?case
    using Cons.IH Cons.prems(2) by (auto elim!: safeE_mono)
qed simp

text \<open>Loop rule: the invariant speaks about the iterations already done.\<close>

lemma okE_foldE_prefix:
  assumes "P [] s"
    and "\<And>ys x zs u. xs = ys @ x # zs \<Longrightarrow> P ys u \<Longrightarrow> okE (f x u) (P (ys @ [x]))"
  shows "okE (foldE f xs s) (P xs)"
proof -
  have "okE (foldE f zs u) (P xs)" if "xs = ys @ zs" and "P ys u" for ys zs u
    using that
  proof (induction zs arbitrary: ys u)
    case (Cons z zs)
    have "okE (f z u) (P (ys @ [z]))" using Cons.prems assms(2) by blast
    then show ?case
      using Cons.IH[of "ys @ [z]"] Cons.prems(1) by (auto elim!: okE_mono)
  qed simp
  from this[of "[]"] assms(1) show ?thesis by simp
qed

text \<open>The same for a counting loop \<open>for (i = a; i < b; i++)\<close>.\<close>

lemma okE_for_from:
  assumes "a \<le> b" and "P a s"
    and "\<And>i u. a \<le> i \<Longrightarrow> i < b \<Longrightarrow> P i u \<Longrightarrow> okE (f i u) (P (Suc i))"
  shows "okE (foldE f [a..<b] s) (P b)"
  using assms
proof (induction "b - a" arbitrary: a s)
  case (Suc k)
  then have "[a..<b] = a # [Suc a..<b]" and "okE (f a s) (P (Suc a))"
    by (auto simp: upt_conv_Cons)
  moreover have "okE (foldE f [Suc a..<b] u) (P b)" if "P (Suc a) u" for u
    using Suc.hyps(1) [of "Suc a" u] Suc.hyps(2) Suc.prems that by simp
  ultimately show ?case by (auto elim: okE_mono)
qed simp

lemma okE_for:
  assumes "P 0 s" and "\<And>i u. i < n \<Longrightarrow> P i u \<Longrightarrow> okE (f i u) (P (Suc i))"
  shows "okE (foldE f [0..<n] s) (P n)"
  by (rule okE_for_from) (use assms in auto)

lemma okE_foldE_inv:
  assumes "P s" and "\<And>x u. x \<in> set xs \<Longrightarrow> P u \<Longrightarrow> okE (f x u) P"
  shows "okE (foldE f xs s) P"
  by (rule okE_foldE_prefix [where P = "\<lambda>_. P"]) (use assms in auto)

section \<open>Machine integers\<close>

text \<open>
  \<open>int\<close> and \<open>long long\<close> are HOL integers whose operations check the range of the C++
  type: leaving it is undefined behaviour, so it is the failure \<open>SignedOverflow\<close>.
  Unsigned types are words, whose arithmetic wraps.
\<close>

definition i32 :: "int \<Rightarrow> int res" where
  "i32 x = (if - (2 ^ 31) \<le> x \<and> x < 2 ^ 31 then Inr x else Inl SignedOverflow)"

definition i64 :: "int \<Rightarrow> int res" where
  "i64 x = (if - (2 ^ 63) \<le> x \<and> x < 2 ^ 63 then Inr x else Inl SignedOverflow)"

definition cdiv :: "int \<Rightarrow> int \<Rightarrow> int res" where
  "cdiv a b = (if b = 0 then Inl DivByZero else i32 (a sdiv b))"

definition cmod :: "int \<Rightarrow> int \<Rightarrow> int res" where
  "cmod a b = (if b = 0 then Inl DivByZero else bindE (i32 (a sdiv b)) (\<lambda>_. Inr (a smod b)))"

definition in_i32 :: "int \<Rightarrow> bool" where
  "in_i32 x \<longleftrightarrow> - (2 ^ 31) \<le> x \<and> x < 2 ^ 31"

definition in_i64 :: "int \<Rightarrow> bool" where
  "in_i64 x \<longleftrightarrow> - (2 ^ 63) \<le> x \<and> x < 2 ^ 63"

text \<open>
  \<open>(int) std::ceil(double(a) / b)\<close>.  Both operands are 32-bit integers: they are exact in a
  double, and a quotient that is not an integer is at least \<open>2^-31\<close> away from one while the
  doubles around it are at most \<open>2^-21\<close> of that distance apart, so the rounding of the
  division never crosses an integer and the ceiling is the exact one.  With \<open>b = 0\<close> the
  quotient is infinite or NaN and its conversion to \<open>int\<close> is undefined.
\<close>

definition ceil_div :: "int \<Rightarrow> int \<Rightarrow> int res" where
  "ceil_div a b = (if b = 0 then Inl BadConversion else i32 (- ((- a) div b)))"

lemma i32_Inr [simp]: "i32 x = Inr y \<longleftrightarrow> in_i32 x \<and> y = x"
  by (auto simp: i32_def in_i32_def)

lemma i64_Inr [simp]: "i64 x = Inr y \<longleftrightarrow> in_i64 x \<and> y = x"
  by (auto simp: i64_def in_i64_def)

lemma okE_i32 [simp]: "okE (i32 x) Q \<longleftrightarrow> in_i32 x \<and> Q x"
  by (auto simp: okE_iff)

lemma okE_i64 [simp]: "okE (i64 x) Q \<longleftrightarrow> in_i64 x \<and> Q x"
  by (auto simp: okE_iff)

lemma sdiv_nonneg [simp]: "0 \<le> a \<Longrightarrow> 0 < b \<Longrightarrow> (a :: int) sdiv b = a div b"
  by (auto simp: signed_divide_int_def sgn_if)

lemma smod_nonneg [simp]: "0 \<le> a \<Longrightarrow> 0 < b \<Longrightarrow> (a :: int) smod b = a mod b"
  by (cases "a = 0") (auto simp: signed_modulo_int_def sgn_if)

lemma in_i32_div: "0 \<le> a \<Longrightarrow> 0 < b \<Longrightarrow> in_i32 a \<Longrightarrow> in_i32 (a div b)"
proof -
  assume a: "0 \<le> a" "0 < b" "in_i32 a"
  then have "a div b \<le> a" and "0 \<le> a div b"
    by (auto simp: pos_imp_zdiv_nonneg_iff intro: zdiv_mono2 [of a 1 b, simplified])
  with a(3) show ?thesis by (auto simp: in_i32_def)
qed

lemma cdiv_nonneg [simp]:
  "0 \<le> a \<Longrightarrow> 0 < b \<Longrightarrow> in_i32 a \<Longrightarrow> cdiv a b = Inr (a div b)"
  by (simp add: cdiv_def in_i32_div)

lemma cmod_nonneg [simp]:
  "0 \<le> a \<Longrightarrow> 0 < b \<Longrightarrow> in_i32 a \<Longrightarrow> cmod a b = Inr (a mod b)"
proof -
  assume a: "0 \<le> a" "0 < b" "in_i32 a"
  then have "i32 (a sdiv b) = Inr (a div b)" by (simp add: in_i32_div)
  with a show ?thesis by (simp add: cmod_def)
qed

lemma ceil_div_nonneg:
  assumes "0 \<le> a" and "0 < b" and "in_i32 a"
  shows "ceil_div a b = Inr (a div b + (if a mod b = 0 then 0 else 1))"
proof -
  have "- ((- a) div b) = a div b + (if a mod b = 0 then 0 else 1)"
    using zdiv_zminus1_eq_if [of b a] assms(2) by simp
  moreover have "in_i32 (a div b + (if a mod b = 0 then 0 else 1))"
  proof (cases "a mod b = 0")
    case True
    then show ?thesis using assms by (simp add: in_i32_div)
  next
    case False
    then have "b \<noteq> 1" by auto
    with assms(2) have "2 \<le> b" by linarith
    have "0 \<le> a div b" using assms(1,2) by (simp add: pos_imp_zdiv_nonneg_iff)
    moreover have "a div b \<le> a div 2"
      using assms(1) \<open>2 \<le> b\<close> by (intro zdiv_mono2) auto
    then have "a div b + 1 < 2 ^ 31" using assms(3) by (auto simp: in_i32_def)
    ultimately show ?thesis using False by (simp add: in_i32_def)
  qed
  ultimately show ?thesis using assms(2) by (simp add: ceil_div_def)
qed

section \<open>Vectors\<close>

definition vec_at :: "'a list \<Rightarrow> nat \<Rightarrow> 'a res" where
  "vec_at xs i = (if i < length xs then Inr (xs ! i) else Inl OutOfRange)"

definition vec_put :: "'a list \<Rightarrow> nat \<Rightarrow> 'a \<Rightarrow> 'a list res" where
  "vec_put xs i x = (if i < length xs then Inr (xs[i := x]) else Inl OutOfRange)"

lemma vec_at_Inr [simp]: "vec_at xs i = Inr x \<longleftrightarrow> i < length xs \<and> x = xs ! i"
  by (auto simp: vec_at_def)

lemma vec_put_Inr [simp]: "vec_put xs i x = Inr ys \<longleftrightarrow> i < length xs \<and> ys = xs[i := x]"
  by (auto simp: vec_put_def)

lemma okE_vec_at [simp]: "okE (vec_at xs i) Q \<longleftrightarrow> i < length xs \<and> Q (xs ! i)"
  by (auto simp: okE_iff)

lemma okE_vec_put [simp]: "okE (vec_put xs i x) Q \<longleftrightarrow> i < length xs \<and> Q (xs[i := x])"
  by (auto simp: okE_iff)

text \<open>A member that may be indeterminate is an option; reading it checks.\<close>

definition determinate :: "'a option \<Rightarrow> 'a res" where
  "determinate v = (case v of None \<Rightarrow> Inl Indeterminate | Some x \<Rightarrow> Inr x)"

lemma determinate_Inr [simp]: "determinate v = Inr x \<longleftrightarrow> v = Some x"
  by (auto simp: determinate_def split: option.splits)

lemma determinate_Some [simp]: "determinate (Some x) = Inr x"
  by (simp add: determinate_def)

lemma okE_determinate [simp]: "okE (determinate v) Q \<longleftrightarrow> (\<exists>x. v = Some x \<and> Q x)"
  by (auto simp: okE_iff)

end
