(* ===== verification/Graph.thy ===== *)
theory Graph
  imports Prelude
begin

text \<open>
  The data of the workload analysis (\<open>traffic_generator/workload_analysis\<close>): tensors,
  attributes, nodes and graphs of \<open>graph.hpp\<close>, the split strategy of \<open>strategy.hpp\<close>, the grid
  of processing elements of \<open>pe.hpp\<close> and \<open>get_num_subgraph\<close> of \<open>util.hpp\<close>.

  Nodes hold pointers to tensors and are copied member-wise, so that several nodes share
  their tensors; the code relies on that sharing.  Tensors therefore live in an explicit
  store: \<open>heap\<close> is the list of the tensors allocated so far and a \<open>Tensor *\<close> is an index.
  Members that the constructors leave indeterminate are options; members that are never read
  are left out.
\<close>

section \<open>Tensors, attributes, nodes\<close>

record tensor =
  t_name :: string
  t_shape :: "int list"
  t_data_type :: int             \<comment> \<open>the underlying value of the \<open>enum class DataType\<close>\<close>
  t_size :: "int option"
  t_address :: "u64 option"
  t_original_size :: "u64 option"

type_synonym tref = nat
type_synonym heap = "tensor list"

definition new_tensor :: "string \<Rightarrow> int list \<Rightarrow> int \<Rightarrow> tensor" where
  "new_tensor name shape datatype =
     \<lparr>t_name = name, t_shape = shape, t_data_type = datatype,
      t_size = None, t_address = None, t_original_size = None\<rparr>"

record node_attribute =
  a_name :: string
  a_data_type :: int
  a_data :: "int list"

datatype Operator =
  CONV | GEMM | RELU | MAXPOOL | BATCHNORMAL | SOFTMAX | RESHPAE | AVGPOOL

record node =
  n_id :: u32
  n_name :: string
  n_op :: Operator
  n_inputs :: "tref list"
  n_outputs :: "tref list"
  n_attributes :: "node_attribute list"
  n_origianl_input_size :: "int list"

definition new_node :: "u32 \<Rightarrow> string \<Rightarrow> Operator \<Rightarrow> node" where
  "new_node i name oper =
     \<lparr>n_id = i, n_name = name, n_op = oper, n_inputs = [], n_outputs = [],
      n_attributes = [], n_origianl_input_size = []\<rparr>"

record graph =
  g_nodes :: "node list"

record strategy =
  splitSize :: "int list list"
  mappingStrategy :: string

definition split_at :: "strategy \<Rightarrow> nat \<Rightarrow> nat \<Rightarrow> int res" where
  "split_at st i j = bindE (vec_at (splitSize st) i) (\<lambda>row. vec_at row j)"

section \<open>Access through pointers\<close>

definition input_at :: "node \<Rightarrow> nat \<Rightarrow> tref res" where
  "input_at n i = vec_at (n_inputs n) i"

definition output_at :: "node \<Rightarrow> nat \<Rightarrow> tref res" where
  "output_at n i = vec_at (n_outputs n) i"

definition shape_at :: "heap \<Rightarrow> tref \<Rightarrow> nat \<Rightarrow> int res" where
  "shape_at h p j = bindE (vec_at h p) (\<lambda>t. vec_at (t_shape t) j)"

definition set_shape :: "heap \<Rightarrow> tref \<Rightarrow> nat \<Rightarrow> int \<Rightarrow> heap res" where
  "set_shape h p j x =
     bindE (vec_at h p) (\<lambda>t.
     bindE (vec_put (t_shape t) j x) (\<lambda>sh.
     Inr (h[p := t\<lparr>t_shape := sh\<rparr>])))"

text \<open>\<open>p->shape[j] /= d\<close>\<close>

definition div_shape :: "heap \<Rightarrow> tref \<Rightarrow> nat \<Rightarrow> int \<Rightarrow> heap res" where
  "div_shape h p j d =
     bindE (shape_at h p j) (\<lambda>x.
     bindE (cdiv x d) (\<lambda>q.
     set_shape h p j q))"

section \<open>The grid of processing elements\<close>

record PEGrid =
  peNum :: int
  peMemory :: int
  peMemArr :: "int list"

definition new_PEGrid :: "int \<Rightarrow> int \<Rightarrow> PEGrid res" where
  "new_PEGrid num memory =
     bindE (guardE (0 \<le> num) (StdException ''vector::_M_default_append'')) (\<lambda>_.
     Inr \<lparr>peNum = num, peMemory = memory, peMemArr = replicate (nat num) memory\<rparr>)"

text \<open>The comparison with \<open>peMemory\<close> stands after an unconditional \<open>return true\<close>.\<close>

definition isRunnable :: "PEGrid \<Rightarrow> int \<Rightarrow> bool" where
  "isRunnable g subgraphMem = True"

definition numRound :: "PEGrid \<Rightarrow> int \<Rightarrow> (int \<times> int) res" where
  "numRound g numSubgraph =
     bindE (ceil_div numSubgraph (peNum g)) (\<lambda>r.
     bindE (cmod numSubgraph (peNum g)) (\<lambda>m.
     Inr (r, m)))"

section \<open>Number of subgraphs\<close>

definition mul_all :: "int \<Rightarrow> int list \<Rightarrow> int res" where
  "mul_all = (\<lambda>acc xs. foldE (\<lambda>i n. i32 (n * i)) xs acc)"

definition get_num_subgraph :: "strategy \<Rightarrow> int res" where
  "get_num_subgraph st =
     (if length (splitSize st) = 2 then
        bindE (split_at st 0 2) (\<lambda>h.
        bindE (i32 (1 * h)) (\<lambda>n.
        bindE (split_at st 0 3) (\<lambda>w.
        bindE (i32 (n * w)) (\<lambda>n.
        bindE (vec_at (splitSize st) 1) (\<lambda>row.
        mul_all n row)))))
      else
        bindE (vec_at (splitSize st) 0) (\<lambda>row. mul_all 1 row))"

section \<open>Facts about the store\<close>

lemma shape_at_Inr [simp]:
  "shape_at h p j = Inr x \<longleftrightarrow> p < length h \<and> j < length (t_shape (h ! p)) \<and> x = t_shape (h ! p) ! j"
  by (auto simp: shape_at_def)

lemma okE_shape_at [simp]:
  "okE (shape_at h p j) Q \<longleftrightarrow>
     p < length h \<and> j < length (t_shape (h ! p)) \<and> Q (t_shape (h ! p) ! j)"
  by (auto simp: shape_at_def)

definition put_shape :: "heap \<Rightarrow> tref \<Rightarrow> nat \<Rightarrow> int \<Rightarrow> heap" where
  "put_shape h p j x = h[p := (h ! p)\<lparr>t_shape := (t_shape (h ! p))[j := x]\<rparr>]"

lemma okE_set_shape [simp]:
  "okE (set_shape h p j x) Q \<longleftrightarrow>
     p < length h \<and> j < length (t_shape (h ! p)) \<and> Q (put_shape h p j x)"
  by (auto simp: set_shape_def put_shape_def)

lemma okE_div_shape [simp]:
  "okE (div_shape h p j d) Q \<longleftrightarrow>
     p < length h \<and> j < length (t_shape (h ! p)) \<and>
     okE (cdiv (t_shape (h ! p) ! j) d) (\<lambda>q. Q (put_shape h p j q))"
  by (auto simp: div_shape_def okE_iff [of "cdiv _ _"])

lemma length_put_shape [simp]: "length (put_shape h p j x) = length h"
  by (simp add: put_shape_def)

lemma put_shape_other [simp]: "q \<noteq> p \<Longrightarrow> put_shape h p j x ! q = h ! q"
  by (simp add: put_shape_def)

lemma put_shape_same [simp]:
  "p < length h \<Longrightarrow> t_shape (put_shape h p j x ! p) = (t_shape (h ! p))[j := x]"
  by (simp add: put_shape_def)

lemma put_shape_fields [simp]:
  "t_name (put_shape h p j x ! q) = t_name (h ! q)"
  "t_size (put_shape h p j x ! q) = t_size (h ! q)"
  "t_address (put_shape h p j x ! q) = t_address (h ! q)"
  "t_original_size (put_shape h p j x ! q) = t_original_size (h ! q)"
  by (cases "p < length h"; cases "q = p"; simp add: put_shape_def list_update_beyond)+

lemma split_at_Inr [simp]:
  "split_at st i j = Inr x \<longleftrightarrow>
     i < length (splitSize st) \<and> j < length (splitSize st ! i) \<and> x = splitSize st ! i ! j"
  by (auto simp: split_at_def)

lemma okE_split_at [simp]:
  "okE (split_at st i j) Q \<longleftrightarrow>
     i < length (splitSize st) \<and> j < length (splitSize st ! i) \<and> Q (splitSize st ! i ! j)"
  by (auto simp: split_at_def)

section \<open>Rounds and subgraphs\<close>

lemma numRound_spec:
  assumes "0 < peNum g" and "0 \<le> n" and "in_i32 n"
  shows "numRound g n = Inr (n div peNum g + (if n mod peNum g = 0 then 0 else 1), n mod peNum g)"
  using assms by (simp add: numRound_def ceil_div_nonneg)

text \<open>
  The product of a list of positive factors, computed with an overflow check at every
  step, is the mathematical product whenever that product fits.
\<close>

lemma mul_all_pos:
  assumes "0 < acc" and "\<forall>x \<in> set xs. 0 < x" and "in_i32 (acc * prod_list xs)"
  shows "mul_all acc xs = Inr (acc * prod_list xs)"
  using assms
proof (induction xs arbitrary: acc)
  case (Cons x xs)
  have "0 < prod_list xs" using Cons.prems(2) by (induction xs) auto
  then have "acc * x \<le> acc * x * prod_list xs"
    using Cons.prems(1,2) by simp
  moreover have "0 < acc * x" using Cons.prems(1,2) by simp
  ultimately have "in_i32 (acc * x)" using Cons.prems(3)
    by (auto simp: in_i32_def mult.assoc)
  moreover have "mul_all (acc * x) xs = Inr (acc * x * prod_list xs)"
    using Cons.IH [of "acc * x"] Cons.prems \<open>0 < acc * x\<close> by (simp add: mult.assoc)
  ultimately show ?case
    using i32_Inr [of "acc * x" "acc * x"] by (simp add: mul_all_def mult.assoc)
qed (simp add: mul_all_def)

end
