(* ===== verification/Workload.thy ===== *)
theory Workload
  imports Graph
begin

text \<open>
  The workload analysis (\<open>workload_analysis/operator\<close>): class \<open>Workload\<close> and its
  subclasses.  An operator node is shrunk to the node of one subgraph by dividing the
  shapes of its tensors by the split strategy (\<open>split\<close>), and the bytes the subgraph needs
  are computed and stored in the tensors (\<open>computeSize\<close>).  The members \<open>node\<close>, \<open>split_node\<close>
  and \<open>strategy\<close> of the class are the arguments of the model; \<open>split_node\<close> and the tensor
  store are returned updated.
\<close>

section \<open>Class Workload\<close>

text \<open>The state an operation works on: the tensor store and the node behind \<open>split_node\<close>.\<close>

type_synonym wstate = "heap \<times> node"

definition Workload_split :: "strategy \<Rightarrow> wstate \<Rightarrow> wstate res" where
  "Workload_split st = (\<lambda>(h, sn).
     bindE (foldE (\<lambda>i. foldE (\<lambda>j h.
              bindE (split_at st i j) (\<lambda>d.
              bindE (input_at sn i) (\<lambda>p.
              div_shape h p j d))) [0..<4]) [0..<length (splitSize st)] h) (\<lambda>h.
     bindE (foldE (\<lambda>i outs.
              bindE (input_at sn 0) (\<lambda>p. vec_put outs i p)) [0..<length (n_outputs sn)]
              (n_outputs sn)) (\<lambda>outs.
     Inr (h, sn\<lparr>n_outputs := outs\<rparr>))))"

text \<open>\<open>long long size = 1; for (auto &j : shape) size *= j;\<close>\<close>

definition shape_product :: "int list \<Rightarrow> int res" where
  "shape_product shape = foldE (\<lambda>j size. i64 (size * j)) shape 1"

definition size_tensor :: "tref \<Rightarrow> heap \<times> int \<Rightarrow> (heap \<times> int) res" where
  "size_tensor p = (\<lambda>(h, memory_usage).
     bindE (vec_at h p) (\<lambda>t.
     bindE (shape_product (t_shape t)) (\<lambda>size.
     bindE (i64 (size * 4)) (\<lambda>size.
     bindE (i64 (memory_usage + size)) (\<lambda>usage.
     Inr (h[p := t\<lparr>t_size := Some size\<rparr>], usage))))))"

definition computeSize :: "wstate \<Rightarrow> (heap \<times> int) res" where
  "computeSize = (\<lambda>(h, sn).
     bindE (foldE size_tensor (n_inputs sn) (h, 0)) (\<lambda>acc.
     foldE size_tensor (n_outputs sn) acc))"

definition compute_original_size :: "node \<Rightarrow> wstate \<Rightarrow> wstate res" where
  "compute_original_size nd = foldE (\<lambda>p (h, sn).
     bindE (vec_at h p) (\<lambda>t.
     bindE (shape_product (t_shape t)) (\<lambda>size.
     Inr (h[p := t\<lparr>t_size := Some size\<rparr>],
          sn\<lparr>n_origianl_input_size := n_origianl_input_size sn @ [size]\<rparr>)))) (n_inputs nd)"

section \<open>The split of every operator\<close>

definition attr_data :: "node \<Rightarrow> nat \<Rightarrow> nat \<Rightarrow> int res" where
  "attr_data sn i j = bindE (vec_at (n_attributes sn) i) (\<lambda>a. vec_at (a_data a) j)"

text \<open>\<open>(x - 1) * stride + k - pad\<close>, with every intermediate result an \<open>int\<close>.\<close>

definition halo :: "int \<Rightarrow> int \<Rightarrow> int \<Rightarrow> int \<Rightarrow> int res" where
  "halo x stride k pad =
     bindE (i32 (x - 1)) (\<lambda>a.
     bindE (i32 (a * stride)) (\<lambda>b.
     bindE (i32 (b + k)) (\<lambda>c.
     i32 (c - pad))))"

text \<open>\<open>split_node->inputs[i]->shape[j] /= strategy.splitSize[r][c]\<close> and its output twin.\<close>

definition div_input :: "strategy \<Rightarrow> node \<Rightarrow> nat \<Rightarrow> nat \<Rightarrow> nat \<Rightarrow> nat \<Rightarrow> heap \<Rightarrow> heap res" where
  "div_input st sn i j r c h =
     bindE (split_at st r c) (\<lambda>d. bindE (input_at sn i) (\<lambda>p. div_shape h p j d))"

definition div_output :: "strategy \<Rightarrow> node \<Rightarrow> nat \<Rightarrow> nat \<Rightarrow> nat \<Rightarrow> nat \<Rightarrow> heap \<Rightarrow> heap res" where
  "div_output st sn i j r c h =
     bindE (split_at st r c) (\<lambda>d. bindE (output_at sn i) (\<lambda>p. div_shape h p j d))"

text \<open>
  The part that \<open>Conv::split\<close> and \<open>ConvBatchnorm::split\<close> have in common, statement by
  statement: the output and input tiles, the halo of a split spatial dimension, the weights.
\<close>

definition halo_input ::
    "strategy \<Rightarrow> node \<Rightarrow> nat \<Rightarrow> int \<Rightarrow> int \<Rightarrow> int \<Rightarrow> heap \<Rightarrow> heap res" where
  "halo_input st sn j stride k pad h =
     bindE (split_at st 0 j) (\<lambda>d.
     if d > 1 then
       bindE (output_at sn 0) (\<lambda>out.
       bindE (shape_at h out j) (\<lambda>x.
       bindE (halo x stride k pad) (\<lambda>y.
       bindE (input_at sn 0) (\<lambda>inp.
       set_shape h inp j y))))
     else Inr h)"

definition conv_tiles :: "strategy \<Rightarrow> node \<Rightarrow> heap \<Rightarrow> heap res" where
  "conv_tiles st sn h =
     bindE (div_output st sn 0 1 1 0 h) (\<lambda>h.
     bindE (div_output st sn 0 2 0 2 h) (\<lambda>h.
     bindE (div_output st sn 0 3 0 3 h) (\<lambda>h.
     bindE (div_input st sn 0 1 0 1 h) (\<lambda>h.
     bindE (attr_data sn 3 0) (\<lambda>pad.
     bindE (attr_data sn 4 0) (\<lambda>stride.
     bindE (input_at sn 1) (\<lambda>weight.
     bindE (shape_at h weight 2) (\<lambda>r.
     bindE (shape_at h weight 3) (\<lambda>s.
     bindE (div_input st sn 0 2 0 2 h) (\<lambda>h.
     bindE (div_input st sn 0 3 0 3 h) (\<lambda>h.
     bindE (halo_input st sn 2 stride r pad h) (\<lambda>h.
     bindE (halo_input st sn 3 stride s pad h) (\<lambda>h.
     foldE (\<lambda>i. div_input st sn 1 i 1 i) [0..<4] h)))))))))))))"

definition Conv_split :: "strategy \<Rightarrow> wstate \<Rightarrow> wstate res" where
  "Conv_split st = (\<lambda>(h, sn).
     bindE (conv_tiles st sn h) (\<lambda>h.
     bindE (if length (n_inputs sn) > 2 then div_input st sn 2 0 1 0 h else Inr h) (\<lambda>h.
     Inr (h, sn))))"

definition ConvBatchnorm_split :: "strategy \<Rightarrow> wstate \<Rightarrow> wstate res" where
  "ConvBatchnorm_split st = (\<lambda>(h, sn).
     bindE (conv_tiles st sn h) (\<lambda>h.
     bindE (if length (n_inputs sn) = 7 then
              bindE (div_input st sn 2 0 1 0 h) (\<lambda>h.
              bindE (split_at st 1 0) (\<lambda>d.
              if d > 1 then foldE (\<lambda>i. div_input st sn i 0 1 0) [3..<length (n_inputs sn)] h
              else Inr h))
            else
              bindE (split_at st 1 0) (\<lambda>d.
              if d > 1 then foldE (\<lambda>i. div_input st sn i 0 1 0) [2..<length (n_inputs sn)] h
              else Inr h)) (\<lambda>h.
     Inr (h, sn))))"

definition Batchnorm_split :: "strategy \<Rightarrow> wstate \<Rightarrow> wstate res" where
  "Batchnorm_split st = (\<lambda>(h, sn).
     bindE (foldE (\<lambda>j h. bindE (div_input st sn 0 j 0 j h) (div_output st sn 0 j 0 j)) [0..<4] h) (\<lambda>h.
     bindE (foldE (\<lambda>i. div_input st sn i 0 0 0) [1..<5] h) (\<lambda>h.
     Inr (h, sn))))"

definition MaxPool_split :: "strategy \<Rightarrow> wstate \<Rightarrow> wstate res" where
  "MaxPool_split st = (\<lambda>(h, sn).
     bindE (div_input st sn 0 1 0 1 h) (\<lambda>h.
     bindE (div_output st sn 0 1 0 1 h) (\<lambda>h.
     bindE (div_output st sn 0 2 0 2 h) (\<lambda>h.
     bindE (div_output st sn 0 3 0 3 h) (\<lambda>h.
     bindE (attr_data sn 0 0) (\<lambda>krn.
     bindE (attr_data sn 1 0) (\<lambda>pad.
     bindE (attr_data sn 2 0) (\<lambda>stride.
     bindE (output_at sn 0) (\<lambda>out.
     bindE (shape_at h out 2) (\<lambda>output_h.
     bindE (halo output_h stride krn 0) (\<lambda>x.
     bindE (input_at sn 0) (\<lambda>inp.
     bindE (set_shape h inp 2 x) (\<lambda>h.
     bindE (halo output_h stride krn 0) (\<lambda>y.
     bindE (set_shape h inp 3 y) (\<lambda>h.
     Inr (h, sn))))))))))))))))"

definition AvgPool_split :: "strategy \<Rightarrow> wstate \<Rightarrow> wstate res" where
  "AvgPool_split st = (\<lambda>(h, sn).
     bindE (div_input st sn 0 1 0 1 h) (\<lambda>h.
     bindE (div_output st sn 0 1 0 1 h) (\<lambda>h.
     Inr (h, sn))))"

section \<open>Sizes\<close>

lemma prod_list_pos: "(\<forall>x \<in> set xs. 0 < x) \<Longrightarrow> 0 < prod_list (xs :: int list)"
  by (induction xs) auto

lemma foldE_product_pos:
  assumes "0 < acc" and "\<forall>x \<in> set xs. 0 < x" and "in_i64 (acc * prod_list xs)"
  shows "foldE (\<lambda>j size. i64 (size * j)) xs acc = Inr (acc * prod_list xs)"
  using assms
proof (induction xs arbitrary: acc)
  case (Cons x xs)
  have "0 < prod_list xs" using Cons.prems(2) by (simp add: prod_list_pos)
  then have "acc * x \<le> acc * x * prod_list xs"
    using Cons.prems(1,2) by simp
  moreover have pos: "0 < acc * x" using Cons.prems(1,2) by simp
  ultimately have "in_i64 (acc * x)" using Cons.prems(3)
    by (auto simp: in_i64_def mult.assoc)
  then have "i64 (acc * x) = Inr (acc * x)" by simp
  moreover have "foldE (\<lambda>j size. i64 (size * j)) xs (acc * x) = Inr (acc * x * prod_list xs)"
    using Cons.IH [of "acc * x"] Cons.prems pos by (simp add: mult.assoc)
  ultimately show ?case by (simp add: mult.assoc)
qed simp

lemma shape_product_pos:
  assumes "\<forall>x \<in> set sh. 0 < x" and "in_i64 (prod_list sh)"
  shows "shape_product sh = Inr (prod_list sh)"
  using foldE_product_pos [of 1 sh] assms by (simp add: shape_product_def)

definition tensor_bytes :: "heap \<Rightarrow> tref \<Rightarrow> int" where
  "tensor_bytes h p = 4 * prod_list (t_shape (h ! p))"

definition sizeable :: "heap \<Rightarrow> tref \<Rightarrow> bool" where
  "sizeable h p \<longleftrightarrow> p < length h \<and> (\<forall>x \<in> set (t_shape (h ! p)). 0 < x)"

lemma tensor_bytes_pos: "sizeable h p \<Longrightarrow> 0 < tensor_bytes h p"
  by (simp add: tensor_bytes_def sizeable_def prod_list_pos)

text \<open>Two stores that agree on everything but the sizes.\<close>

definition same_but_size :: "heap \<Rightarrow> heap \<Rightarrow> bool" where
  "same_but_size h h' \<longleftrightarrow> map (\<lambda>t. t\<lparr>t_size := None\<rparr>) h = map (\<lambda>t. t\<lparr>t_size := None\<rparr>) h'"

lemma same_but_size_length: "same_but_size h h' \<Longrightarrow> length h' = length h"
  by (auto simp: same_but_size_def dest: map_eq_imp_length_eq)

lemma same_but_size_nth:
  assumes "same_but_size h h'" and "p < length h"
  shows "(h' ! p)\<lparr>t_size := s\<rparr> = (h ! p)\<lparr>t_size := s\<rparr>"
proof -
  have "map (\<lambda>t. t\<lparr>t_size := None\<rparr>) h ! p = map (\<lambda>t. t\<lparr>t_size := None\<rparr>) h' ! p"
    using assms(1) by (simp add: same_but_size_def)
  then have "(h ! p)\<lparr>t_size := None\<rparr> = (h' ! p)\<lparr>t_size := None\<rparr>"
    using assms same_but_size_length by fastforce
  then have "(h ! p)\<lparr>t_size := None, t_size := s\<rparr> = (h' ! p)\<lparr>t_size := None, t_size := s\<rparr>"
    by (rule arg_cong)
  then show ?thesis by simp
qed

lemma same_but_size_fields:
  assumes "same_but_size h h'" and "p < length h"
  shows "t_shape (h' ! p) = t_shape (h ! p)" and "t_address (h' ! p) = t_address (h ! p)"
    and "t_name (h' ! p) = t_name (h ! p)"
  using same_but_size_nth [OF assms, of None]
  by (metis tensor.surjective tensor.update_convs(4) tensor.select_convs)+

lemma same_but_size_refl: "same_but_size h h"
  by (simp add: same_but_size_def)

lemma same_but_size_put:
  assumes "same_but_size h h'" and "p < length h"
  shows "same_but_size h (h'[p := (h' ! p)\<lparr>t_size := s\<rparr>])"
proof -
  have "p < length h'" using assms same_but_size_length by fastforce
  then have "(map (\<lambda>t. t\<lparr>t_size := None\<rparr>) h')[p := (h' ! p)\<lparr>t_size := None\<rparr>]
      = map (\<lambda>t. t\<lparr>t_size := None\<rparr>) h'"
    by (metis list_update_id nth_map)
  with assms(1) show ?thesis by (simp add: same_but_size_def map_update)
qed

lemma sum_list_pos_prefix:
  assumes "\<forall>p \<in> set (ys @ x # zs). 0 < f p"
  shows "(\<Sum>p\<leftarrow>ys @ [x]. f p) \<le> (\<Sum>p\<leftarrow>ys @ x # zs. (f p :: int))" "0 \<le> (\<Sum>p\<leftarrow>ys. f p)"
  using assms by (auto intro!: sum_list_nonneg simp: less_imp_le)

lemma size_tensors_ok:
  assumes "\<forall>p \<in> set ps. sizeable h p" and "0 \<le> m"
    and "same_but_size h h0"
    and "m + (\<Sum>p\<leftarrow>ps. tensor_bytes h p) < 2 ^ 63"
  shows "okE (foldE size_tensor ps (h0, m)) (\<lambda>(h', m').
     m' = m + (\<Sum>p\<leftarrow>ps. tensor_bytes h p) \<and> same_but_size h h' \<and>
     (\<forall>p \<in> set ps. t_size (h' ! p) = Some (tensor_bytes h p)) \<and>
     (\<forall>p. p \<notin> set ps \<longrightarrow> h' ! p = h0 ! p))"
proof -
  let ?P = "\<lambda>ys (h', m'). m' = m + (\<Sum>p\<leftarrow>ys. tensor_bytes h p) \<and> same_but_size h h' \<and>
     (\<forall>p \<in> set ys. t_size (h' ! p) = Some (tensor_bytes h p)) \<and>
     (\<forall>p. p \<notin> set ys \<longrightarrow> h' ! p = h0 ! p)"
  have "okE (foldE size_tensor ps (h0, m)) (?P ps)"
  proof (rule okE_foldE_prefix [where P = ?P])
    fix ys x zs u
    assume eq: "ps = ys @ x # zs" and Pu: "?P ys u"
    obtain h' m' where u: "u = (h', m')" by force
    have sx: "sizeable h x" using assms(1) eq by simp
    then have xl: "x < length h" by (simp add: sizeable_def)
    have sbs: "same_but_size h h'" using Pu u by simp
    have len: "length h' = length h" using sbs by (rule same_but_size_length)
    have sh: "t_shape (h' ! x) = t_shape (h ! x)" using sbs xl by (rule same_but_size_fields)
    have all: "\<forall>p \<in> set ps. 0 < tensor_bytes h p"
      using assms(1) tensor_bytes_pos by blast
    have le: "m' + tensor_bytes h x < 2 ^ 63" "0 \<le> m'"
      using sum_list_pos_prefix [of ys x zs "tensor_bytes h"] all eq assms(2,4) Pu u by auto
    have pos: "0 < tensor_bytes h x" using sx by (rule tensor_bytes_pos)
    have "shape_product (t_shape (h ! x)) = Inr (prod_list (t_shape (h ! x)))"
      using le pos sx by (intro shape_product_pos)
        (auto simp: tensor_bytes_def in_i64_def sizeable_def)
    then have "size_tensor x (h', m') =
        Inr (h'[x := (h' ! x)\<lparr>t_size := Some (tensor_bytes h x)\<rparr>], m' + tensor_bytes h x)"
      using xl len sh le pos
      by (simp add: size_tensor_def tensor_bytes_def in_i64_def mult.commute)
    then show "okE (size_tensor x u) (?P (ys @ [x]))"
      using Pu u xl len same_but_size_put [OF sbs xl]
      by (auto simp: nth_list_update)
  qed (use assms in \<open>simp add: same_but_size_refl\<close>)
  then show ?thesis .
qed

text \<open>
  C30 (subgraph size).  When all dimensions are positive and the total fits in a \<open>long long\<close>,
  \<open>computeSize\<close> returns four times the number of elements of all input and output tensors (tensors
  listed twice counted twice).  In each of these tensors it sets the size to four times its number of
  elements and nothing else, and no other tensor is touched.
\<close>

theorem computeSize_ok:
  assumes "\<forall>p \<in> set (n_inputs sn @ n_outputs sn). sizeable h p"
    and "(\<Sum>p\<leftarrow>n_inputs sn @ n_outputs sn. tensor_bytes h p) < 2 ^ 63"
  shows "okE (computeSize (h, sn)) (\<lambda>(h', m').
     m' = (\<Sum>p\<leftarrow>n_inputs sn @ n_outputs sn. tensor_bytes h p) \<and> length h' = length h \<and>
     (\<forall>p < length h. h' ! p =
        (if p \<in> set (n_inputs sn @ n_outputs sn) then (h ! p)\<lparr>t_size := Some (tensor_bytes h p)\<rparr> else h ! p)))"
proof -
  have eq: "computeSize (h, sn) = foldE size_tensor (n_inputs sn @ n_outputs sn) (h, 0)"
    by (simp add: computeSize_def foldE_append)
  have upd: "h' ! p = (h ! p)\<lparr>t_size := Some x\<rparr>" if "same_but_size h h'" "p < length h" "t_size (h' ! p) = Some x" for h' p x
  proof -
    have "(h' ! p)\<lparr>t_size := Some x\<rparr> = h' ! p" using that(3) by (cases "h' ! p") simp
    then show ?thesis using same_but_size_nth [OF that(1,2), of "Some x"] by simp
  qed
  show ?thesis
    unfolding eq
    by (rule okE_mono [OF size_tensors_ok [where h = h]])
      (use assms same_but_size_refl same_but_size_length in \<open>auto intro!: upd\<close>)
qed

text \<open>The dimensions of a convolution: input, output and weights.\<close>

record conv_dims =
  iN :: int  iC :: int  iH :: int  iW :: int
  oN :: int  oC :: int  oH :: int  oW :: int
  wK :: int  wC :: int  wR :: int  wS :: int

text \<open>A convolution with padding 1 on 8 by 8 planes, to evaluate the theorems on.\<close>

definition demo_conv_heap :: heap where
  "demo_conv_heap =
     [new_tensor ''x'' [1, 4, 8, 8] 1, new_tensor ''w'' [8, 4, 3, 3] 1, new_tensor ''b'' [8] 1,
      new_tensor ''y'' [1, 8, 8, 8] 1, new_tensor ''scale'' [8] 1, new_tensor ''B'' [8] 1,
      new_tensor ''mean'' [8] 1, new_tensor ''var'' [8] 1]"

definition demo_attr :: "int list \<Rightarrow> node_attribute" where
  "demo_attr xs = \<lparr>a_name = [], a_data_type = 7, a_data = xs\<rparr>"

definition demo_conv_node :: node where
  "demo_conv_node = (new_node 0 ''conv'' CONV)\<lparr>n_inputs := [0, 1, 2], n_outputs := [3],
     n_attributes := map demo_attr [[1, 1], [1], [3, 3], [1, 1, 1, 1], [1, 1]]\<rparr>"

definition demo_conv_strategy :: strategy where
  "demo_conv_strategy = \<lparr>splitSize = [[1, 2, 4, 1], [2, 2, 1, 1]], mappingStrategy = ''weight''\<rparr>"

definition demo_conv_dims :: conv_dims where
  "demo_conv_dims = \<lparr>iN = 1, iC = 4, iH = 8, iW = 8, oN = 1, oC = 8, oH = 8, oW = 8,
     wK = 8, wC = 4, wR = 3, wS = 3\<rparr>"

lemmas demo_conv_defs = demo_conv_heap_def demo_conv_node_def demo_conv_strategy_def
  new_tensor_def new_node_def demo_attr_def

lemma computeSize_ok_witness:
  "okE (computeSize (demo_conv_heap, demo_conv_node)) (\<lambda>(h', m').
     m' = 4256 \<and> h' ! 1 = (demo_conv_heap ! 1)\<lparr>t_size := Some 1152\<rparr> \<and> h' ! 4 = demo_conv_heap ! 4)"
  by (rule okE_mono [OF computeSize_ok]) (auto simp: demo_conv_defs sizeable_def tensor_bytes_def numeral_3_eq_3 numeral_2_eq_2)

section \<open>Tiles\<close>

lemma okE_halo [simp]:
  "okE (halo x stride k pad) Q \<longleftrightarrow>
     in_i32 (x - 1) \<and> in_i32 ((x - 1) * stride) \<and> in_i32 ((x - 1) * stride + k) \<and>
     in_i32 ((x - 1) * stride + k - pad) \<and> Q ((x - 1) * stride + k - pad)"
  by (simp add: halo_def)

definition halo_fits :: "int \<Rightarrow> int \<Rightarrow> int \<Rightarrow> int \<Rightarrow> bool" where
  "halo_fits x stride k pad \<longleftrightarrow>
     in_i32 (x - 1) \<and> in_i32 ((x - 1) * stride) \<and> in_i32 ((x - 1) * stride + k) \<and>
     in_i32 ((x - 1) * stride + k - pad)"

definition tile :: "int \<Rightarrow> int \<Rightarrow> int \<Rightarrow> int \<Rightarrow> int \<Rightarrow> int \<Rightarrow> int" where
  "tile parts out_dim in_dim stride k pad =
     (if parts > 1 then (out_dim div parts - 1) * stride + k - pad else in_dim div parts)"

lemma okE_cdiv_nonneg [simp]:
  "0 \<le> a \<Longrightarrow> 0 < b \<Longrightarrow> in_i32 a \<Longrightarrow> okE (cdiv a b) Q \<longleftrightarrow> Q (a div b)"
  by simp

lemma upt_0_4: "[0..<4] = [0, 1, 2, 3 :: nat]"
  by (simp add: upt_rec)

lemma put_shape_id: "put_shape h p j (t_shape (h ! p) ! j) = h"
  by (simp add: put_shape_def)

lemma okE_halo_input:
  assumes "n_inputs sn = i0 # is" "n_outputs sn = [out]"
    and "0 < length (splitSize st)" "j < length (splitSize st ! 0)"
    and "out < length h" "i0 < length h" "j < length (t_shape (h ! out))" "j < length (t_shape (h ! i0))"
    and "halo_fits (t_shape (h ! out) ! j) stride k pad"
  shows "okE (halo_input st sn j stride k pad h) Q \<longleftrightarrow>
     Q (put_shape h i0 j (if 1 < splitSize st ! 0 ! j
          then (t_shape (h ! out) ! j - 1) * stride + k - pad else t_shape (h ! i0) ! j))"
  using assms
  by (simp add: halo_input_def output_at_def input_at_def halo_fits_def put_shape_id)

text \<open>
  The situation in which the two convolution splits are called: a node with the input
  tile, the weights and the output in separate tensors, four-dimensional shapes, positive
  split factors, and attributes in the order the JSON files have them.
\<close>

definition conv_ready ::
    "strategy \<Rightarrow> heap \<Rightarrow> node \<Rightarrow> tref \<Rightarrow> tref \<Rightarrow> tref \<Rightarrow> conv_dims \<Rightarrow> int \<Rightarrow> int \<Rightarrow> bool" where
  "conv_ready st h sn i0 i1 out d pad stride \<longleftrightarrow>
     2 \<le> length (n_inputs sn) \<and> n_inputs sn ! 0 = i0 \<and> n_inputs sn ! 1 = i1 \<and> n_outputs sn = [out] \<and>
     distinct (out # n_inputs sn) \<and> (\<forall>p \<in> set (out # n_inputs sn). p < length h) \<and>
     length (splitSize st) = 2 \<and> (\<forall>row \<in> set (splitSize st). length row = 4 \<and> (\<forall>x \<in> set row. 0 < x)) \<and>
     t_shape (h ! out) = [oN d, oC d, oH d, oW d] \<and>
     t_shape (h ! i0) = [iN d, iC d, iH d, iW d] \<and>
     t_shape (h ! i1) = [wK d, wC d, wR d, wS d] \<and>
     (\<forall>x \<in> {oC d, oH d, oW d, iC d, iH d, iW d, wK d, wC d, wR d, wS d}. 0 \<le> x \<and> in_i32 x) \<and>
     4 < length (n_attributes sn) \<and>
     a_data (n_attributes sn ! 3) \<noteq> [] \<and> hd (a_data (n_attributes sn ! 3)) = pad \<and>
     a_data (n_attributes sn ! 4) \<noteq> [] \<and> hd (a_data (n_attributes sn ! 4)) = stride \<and>
     halo_fits (oH d div (splitSize st ! 0 ! 2)) stride (wR d) pad \<and>
     halo_fits (oW d div (splitSize st ! 0 ! 3)) stride (wS d) pad"

definition conv_tiled ::
    "strategy \<Rightarrow> heap \<Rightarrow> tref \<Rightarrow> tref \<Rightarrow> tref \<Rightarrow> conv_dims \<Rightarrow> int \<Rightarrow> int \<Rightarrow> tref set \<Rightarrow> heap \<Rightarrow> bool" where
  "conv_tiled st h i0 i1 out d pad stride X h' \<longleftrightarrow>
     length h' = length h \<and>
     t_shape (h' ! out) =
       [oN d, oC d div (splitSize st ! 1 ! 0), oH d div (splitSize st ! 0 ! 2), oW d div (splitSize st ! 0 ! 3)] \<and>
     t_shape (h' ! i0) =
       [iN d, iC d div (splitSize st ! 0 ! 1),
        tile (splitSize st ! 0 ! 2) (oH d) (iH d) stride (wR d) pad,
        tile (splitSize st ! 0 ! 3) (oW d) (iW d) stride (wS d) pad] \<and>
     t_shape (h' ! i1) =
       [wK d div (splitSize st ! 1 ! 0), wC d div (splitSize st ! 1 ! 1),
        wR d div (splitSize st ! 1 ! 2), wS d div (splitSize st ! 1 ! 3)] \<and>
     (\<forall>p. p \<notin> {out, i0, i1} \<union> X \<longrightarrow> h' ! p = h ! p)"

lemma conv_tiles_ok:
  assumes "conv_ready st h sn i0 i1 out d pad stride"
  shows "okE (conv_tiles st sn h) (conv_tiled st h i0 i1 out d pad stride {})"
proof -
  obtain rest where ins: "n_inputs sn = i0 # i1 # rest" and outs: "n_outputs sn = [out]"
    using assms by (auto simp: conv_ready_def numeral_2_eq_2 Suc_le_length_iff)
  obtain s0 s1 s2 s3 k0 k1 k2 k3 where st: "splitSize st = [[s0, s1, s2, s3], [k0, k1, k2, k3]]"
    using assms by (auto simp: conv_ready_def length_Suc_conv eval_nat_numeral)
  have pos: "0 < s1" "0 < s2" "0 < s3" "0 < k0" "0 < k1" "0 < k2" "0 < k3"
    using assms by (auto simp: conv_ready_def st)
  have sep: "out \<noteq> i0" "out \<noteq> i1" "i0 \<noteq> out" "i1 \<noteq> out" "i0 \<noteq> i1" "i1 \<noteq> i0"
      "out < length h" "i0 < length h" "i1 < length h"
    using assms by (auto simp: conv_ready_def ins)
  have shapes: "t_shape (h ! out) = [oN d, oC d, oH d, oW d]"
      "t_shape (h ! i0) = [iN d, iC d, iH d, iW d]" "t_shape (h ! i1) = [wK d, wC d, wR d, wS d]"
    using assms by (auto simp: conv_ready_def)
  have nonneg: "0 \<le> oC d" "0 \<le> oH d" "0 \<le> oW d" "0 \<le> iC d" "0 \<le> iH d" "0 \<le> iW d"
      "0 \<le> wK d" "0 \<le> wC d" "0 \<le> wR d" "0 \<le> wS d"
      "in_i32 (oC d)" "in_i32 (oH d)" "in_i32 (oW d)" "in_i32 (iC d)" "in_i32 (iH d)" "in_i32 (iW d)"
      "in_i32 (wK d)" "in_i32 (wC d)" "in_i32 (wR d)" "in_i32 (wS d)"
    using assms by (auto simp: conv_ready_def)
  have attrs: "okE (attr_data sn 3 0) Q \<longleftrightarrow> Q pad" "okE (attr_data sn 4 0) Q \<longleftrightarrow> Q stride" for Q
    using assms by (auto simp: conv_ready_def attr_data_def hd_conv_nth)
  have fits: "halo_fits (oH d div s2) stride (wR d) pad" "halo_fits (oW d div s3) stride (wS d) pad"
    using assms by (auto simp: conv_ready_def st)
  show ?thesis
    using sep pos
    by (simp add: conv_tiles_def conv_tiled_def div_output_def div_input_def input_at_def
        output_at_def ins outs st shapes nonneg attrs okE_halo_input [OF ins outs] fits upt_0_4 tile_def cong: run_cong)
qed

text \<open>Per-channel parameters: the first dimension of a tensor is divided.\<close>

definition div_channel :: "int \<Rightarrow> tensor \<Rightarrow> tensor" where
  "div_channel k t = t\<lparr>t_shape := (t_shape t)[0 := t_shape t ! 0 div k]\<rparr>"

definition per_channel :: "heap \<Rightarrow> tref \<Rightarrow> bool" where
  "per_channel h p \<longleftrightarrow> p < length h \<and> t_shape (h ! p) \<noteq> [] \<and>
     0 \<le> t_shape (h ! p) ! 0 \<and> in_i32 (t_shape (h ! p) ! 0)"

lemma okE_div_channel:
  assumes "per_channel h p" and "0 < k"
  shows "okE (div_shape h p 0 k) Q \<longleftrightarrow> Q (h[p := div_channel k (h ! p)])"
  using assms by (simp add: per_channel_def put_shape_def div_channel_def)

lemma div_channels_ok:
  assumes "a \<le> b" and "b \<le> length (n_inputs sn)" and "distinct (n_inputs sn)"
    and "\<forall>i. a \<le> i \<and> i < b \<longrightarrow> per_channel h (n_inputs sn ! i)"
    and k: "split_at st r c = Inr k" "0 < k"
  shows "okE (foldE (\<lambda>i. div_input st sn i 0 r c) [a..<b] h) (\<lambda>h'. length h' = length h \<and>
     (\<forall>i. a \<le> i \<and> i < b \<longrightarrow> h' ! (n_inputs sn ! i) = div_channel k (h ! (n_inputs sn ! i))) \<and>
     (\<forall>p. p \<notin> (!) (n_inputs sn) ` {a..<b} \<longrightarrow> h' ! p = h ! p))"
proof (rule okE_for_from [where P = "\<lambda>j h'. length h' = length h \<and>
     (\<forall>i. a \<le> i \<and> i < j \<longrightarrow> h' ! (n_inputs sn ! i) = div_channel k (h ! (n_inputs sn ! i))) \<and>
     (\<forall>p. p \<notin> (!) (n_inputs sn) ` {a..<j} \<longrightarrow> h' ! p = h ! p)"])
  fix j h'
  assume j: "a \<le> j" "j < b"
    and P: "length h' = length h \<and>
     (\<forall>i. a \<le> i \<and> i < j \<longrightarrow> h' ! (n_inputs sn ! i) = div_channel k (h ! (n_inputs sn ! i))) \<and>
     (\<forall>p. p \<notin> (!) (n_inputs sn) ` {a..<j} \<longrightarrow> h' ! p = h ! p)"
  have fresh: "n_inputs sn ! j \<notin> (!) (n_inputs sn) ` {a..<j}"
    using j assms(2,3) by (auto simp: nth_eq_iff_index_eq)
  then have same: "h' ! (n_inputs sn ! j) = h ! (n_inputs sn ! j)" using P by blast
  then have pc: "per_channel h' (n_inputs sn ! j)"
    using P j assms(4) by (auto simp: per_channel_def)
  have other: "n_inputs sn ! i \<noteq> n_inputs sn ! j" if "i < j" for i
    using that j assms(2,3) by (auto simp: nth_eq_iff_index_eq)
  have sp: "splitSize st ! r ! c = k" "r < length (splitSize st)" "c < length (splitSize st ! r)"
    using k by auto
  show "okE (div_input st sn j 0 r c h') (\<lambda>h'. length h' = length h \<and>
     (\<forall>i. a \<le> i \<and> i < Suc j \<longrightarrow> h' ! (n_inputs sn ! i) = div_channel k (h ! (n_inputs sn ! i))) \<and>
     (\<forall>p. p \<notin> (!) (n_inputs sn) ` {a..<Suc j} \<longrightarrow> h' ! p = h ! p))"
    using P j assms(2) pc other same
    by (auto simp: div_input_def input_at_def sp okE_div_channel [OF pc k(2)] per_channel_def
        less_Suc_eq nth_list_update atLeastLessThanSuc simp del: okE_div_shape cong: run_cong)
qed (use assms in auto)

lemma conv_ready_split:
  assumes "conv_ready st h sn i0 i1 out d pad stride"
  shows "split_at st 1 0 = Inr (splitSize st ! 1 ! 0)" and "0 < splitSize st ! 1 ! 0"
    and "1 < length (splitSize st)" and "splitSize st ! 1 \<noteq> []"
proof -
  have two: "length (splitSize st) = 2"
    and rows: "\<forall>row \<in> set (splitSize st). length row = 4 \<and> (\<forall>x \<in> set row. 0 < x)"
    using assms by (auto simp: conv_ready_def)
  then have row: "length (splitSize st ! 1) = 4 \<and> (\<forall>x \<in> set (splitSize st ! 1). 0 < x)"
    using nth_mem [of 1 "splitSize st"] by fastforce
  then show "0 < splitSize st ! 1 ! 0" using nth_mem [of 0 "splitSize st ! 1"] by fastforce
  show "split_at st 1 0 = Inr (splitSize st ! 1 ! 0)" "1 < length (splitSize st)" "splitSize st ! 1 \<noteq> []"
    using two row by auto
qed

lemma conv_ready_fresh:
  assumes "conv_ready st h sn i0 i1 out d pad stride" and "2 \<le> i" and "i < length (n_inputs sn)"
  shows "n_inputs sn ! i \<notin> {out, i0, i1}"
proof -
  have "distinct (n_inputs sn)" "out \<notin> set (n_inputs sn)"
    "n_inputs sn ! 0 = i0" "n_inputs sn ! 1 = i1"
    using assms(1) by (auto simp: conv_ready_def)
  moreover have "n_inputs sn ! i \<noteq> n_inputs sn ! 0" "n_inputs sn ! i \<noteq> n_inputs sn ! 1"
    using assms(2,3) \<open>distinct (n_inputs sn)\<close>
      nth_eq_iff_index_eq [of "n_inputs sn" i 0] nth_eq_iff_index_eq [of "n_inputs sn" i 1]
    by linarith+
  ultimately show ?thesis using assms(3) nth_mem by fastforce
qed

lemma conv_tiled_channels:
  assumes ready: "conv_ready st h sn i0 i1 out d pad stride"
    and tiled: "conv_tiled st h i0 i1 out d pad stride {} h1"
    and h': "length h' = length h1"
      "\<forall>i. a \<le> i \<and> i < b \<longrightarrow> h' ! (n_inputs sn ! i) = div_channel k (h1 ! (n_inputs sn ! i))"
      "\<forall>p. p \<notin> (!) (n_inputs sn) ` {a..<b} \<longrightarrow> h' ! p = h1 ! p"
    and ab: "2 \<le> a" "b \<le> length (n_inputs sn)"
  shows "conv_tiled st h i0 i1 out d pad stride ((!) (n_inputs sn) ` {a..<b}) h' \<and>
     (\<forall>i. a \<le> i \<and> i < b \<longrightarrow> h' ! (n_inputs sn ! i) = div_channel k (h ! (n_inputs sn ! i)))"
proof -
  have notin: "p \<notin> (!) (n_inputs sn) ` {a..<b}" if "p \<in> {out, i0, i1}" for p
  proof
    assume "p \<in> (!) (n_inputs sn) ` {a..<b}"
    then obtain i where "p = n_inputs sn ! i" "a \<le> i" "i < b" by auto
    with that conv_ready_fresh [OF ready, of i] ab show False by simp
  qed
  then have eqs: "h' ! out = h1 ! out" "h' ! i0 = h1 ! i0" "h' ! i1 = h1 ! i1"
    using h'(3) by blast+
  have fr: "h1 ! p = h ! p" if "p \<notin> {out, i0, i1}" for p
    using tiled that unfolding conv_tiled_def by blast
  have "\<forall>i. a \<le> i \<and> i < b \<longrightarrow> h' ! (n_inputs sn ! i) = div_channel k (h ! (n_inputs sn ! i))"
  proof (intro allI impI)
    fix i assume i: "a \<le> i \<and> i < b"
    then have "h1 ! (n_inputs sn ! i) = h ! (n_inputs sn ! i)"
      using ab by (intro fr conv_ready_fresh [OF ready]) auto
    moreover have "h' ! (n_inputs sn ! i) = div_channel k (h1 ! (n_inputs sn ! i))"
      using i h'(2) by blast
    ultimately show "h' ! (n_inputs sn ! i) = div_channel k (h ! (n_inputs sn ! i))" by simp
  qed
  moreover have "conv_tiled st h i0 i1 out d pad stride ((!) (n_inputs sn) ` {a..<b}) h'"
  proof -
    have frame: "\<forall>p. p \<notin> {out, i0, i1} \<union> (!) (n_inputs sn) ` {a..<b} \<longrightarrow> h' ! p = h ! p"
    proof (intro allI impI)
      fix p assume p: "p \<notin> {out, i0, i1} \<union> (!) (n_inputs sn) ` {a..<b}"
      then have "h' ! p = h1 ! p" using h'(3) by blast
      also have "\<dots> = h ! p" using p by (intro fr) blast
      finally show "h' ! p = h ! p" .
    qed
    from tiled h'(1) show ?thesis
      unfolding conv_tiled_def eqs by (elim conjE) (intro conjI frame; simp only:)
  qed
  ultimately show ?thesis by blast
qed

lemma per_channel_tiled:
  assumes ready: "conv_ready st h sn i0 i1 out d pad stride"
    and tiled: "conv_tiled st h i0 i1 out d pad stride {} h1"
    and "2 \<le> i" "i < length (n_inputs sn)" and "per_channel h (n_inputs sn ! i)"
  shows "per_channel h1 (n_inputs sn ! i)"
proof -
  have "n_inputs sn ! i \<notin> {out, i0, i1}"
    using conv_ready_fresh [OF ready assms(3,4)] .
  then show ?thesis using tiled assms(5) by (simp add: conv_tiled_def per_channel_def)
qed

lemma bindE_foldE_Nil: "bindE m (foldE f []) = m"
  by (cases m) auto

lemma conv_channels_step:
  assumes ready: "conv_ready st h sn i0 i1 out d pad stride"
    and tiled: "conv_tiled st h i0 i1 out d pad stride {} h1"
    and ab: "2 \<le> a" "a \<le> b" "b \<le> length (n_inputs sn)"
    and pc: "\<forall>i. a \<le> i \<and> i < b \<longrightarrow> per_channel h (n_inputs sn ! i)"
  shows "okE (foldE (\<lambda>i. div_input st sn i 0 1 0) [a..<b] h1) (\<lambda>h'.
      conv_tiled st h i0 i1 out d pad stride ((!) (n_inputs sn) ` {a..<b}) h' \<and>
      (\<forall>i. a \<le> i \<and> i < b \<longrightarrow>
        h' ! (n_inputs sn ! i) = div_channel (splitSize st ! 1 ! 0) (h ! (n_inputs sn ! i))))"
proof (rule okE_mono [OF div_channels_ok])
  show "distinct (n_inputs sn)" using ready by (simp add: conv_ready_def)
  show "\<forall>i. a \<le> i \<and> i < b \<longrightarrow> per_channel h1 (n_inputs sn ! i)"
    using pc ab per_channel_tiled [OF ready tiled] by auto
  show "split_at st 1 0 = Inr (splitSize st ! 1 ! 0)" "0 < splitSize st ! 1 ! 0"
    using conv_ready_split [OF ready] by auto
qed (use ab conv_tiled_channels [OF ready tiled, where a = a and b = b] in \<open>fast+\<close>)

lemma Conv_split_ok:
  assumes ready: "conv_ready st h sn i0 i1 out d pad stride"
    and bias: "\<forall>i. 2 \<le> i \<and> i < min 3 (length (n_inputs sn)) \<longrightarrow> per_channel h (n_inputs sn ! i)"
  shows "okE (Conv_split st (h, sn)) (\<lambda>(h', sn'). sn' = sn \<and>
     conv_tiled st h i0 i1 out d pad stride ((!) (n_inputs sn) ` {2..<min 3 (length (n_inputs sn))}) h' \<and>
     (\<forall>i. 2 \<le> i \<and> i < min 3 (length (n_inputs sn)) \<longrightarrow>
        h' ! (n_inputs sn ! i) = div_channel (splitSize st ! 1 ! 0) (h ! (n_inputs sn ! i))))"
proof -
  let ?n = "min 3 (length (n_inputs sn))"
  have len: "2 \<le> length (n_inputs sn)"
    using ready by (auto simp: conv_ready_def)
  then have n: "2 \<le> ?n" "?n \<le> length (n_inputs sn)" by auto
  have loop: "(if length (n_inputs sn) > 2 then div_input st sn 2 0 1 0 h1 else Inr h1)
      = foldE (\<lambda>i. div_input st sn i 0 1 0) [2..<?n] h1" for h1
  proof (cases "length (n_inputs sn) = 2")
    case False
    then have "[2..<?n] = [2]" using len by (simp add: min_def upt_rec)
    then show ?thesis using False len by (simp add: bindE_foldE_Nil)
  qed simp
  show ?thesis
    unfolding Conv_split_def prod.case okE_bindE okE_Inr loop
    by (rule okE_mono [OF conv_tiles_ok [OF ready]],
        rule okE_mono [OF conv_channels_step [OF ready _ order_refl n bias]]) blast+
qed

lemma div_channel_1 [simp]: "div_channel 1 t = t"
  by (simp add: div_channel_def)

lemma conv_tiled_mono:
  "conv_tiled st h i0 i1 out d pad stride X h' \<Longrightarrow> X \<subseteq> Y \<Longrightarrow>
   conv_tiled st h i0 i1 out d pad stride Y h'"
  unfolding conv_tiled_def by blast

lemma conv_tiled_frame:
  assumes "conv_ready st h sn i0 i1 out d pad stride"
    and "conv_tiled st h i0 i1 out d pad stride ((!) (n_inputs sn) ` {a..<b}) h'"
    and "a \<le> b" "b \<le> i" "2 \<le> i" "i < length (n_inputs sn)"
  shows "h' ! (n_inputs sn ! i) = h ! (n_inputs sn ! i)"
proof -
  have "distinct (n_inputs sn)" using assms(1) by (simp add: conv_ready_def)
  then have "n_inputs sn ! i \<notin> (!) (n_inputs sn) ` {a..<b}"
    using assms(4,6) by (auto simp: nth_eq_iff_index_eq)
  then have "n_inputs sn ! i \<notin> {out, i0, i1} \<union> (!) (n_inputs sn) ` {a..<b}"
    using conv_ready_fresh [OF assms(1,5,6)] by blast
  then show ?thesis using assms(2) unfolding conv_tiled_def by blast
qed

lemma ConvBatchnorm_channels:
  assumes ready: "conv_ready st h sn i0 i1 out d pad stride"
    and tiled: "conv_tiled st h i0 i1 out d pad stride {} h1"
    and pc: "\<forall>i. 2 \<le> i \<and> i < length (n_inputs sn) \<longrightarrow> per_channel h (n_inputs sn ! i)"
  shows "okE (if length (n_inputs sn) = 7 then
              bindE (div_input st sn 2 0 1 0 h1) (\<lambda>h.
              bindE (split_at st 1 0) (\<lambda>d.
              if d > 1 then foldE (\<lambda>i. div_input st sn i 0 1 0) [3..<length (n_inputs sn)] h
              else Inr h))
            else
              bindE (split_at st 1 0) (\<lambda>d.
              if d > 1 then foldE (\<lambda>i. div_input st sn i 0 1 0) [2..<length (n_inputs sn)] h1
              else Inr h1))
     (\<lambda>h'. conv_tiled st h i0 i1 out d pad stride ((!) (n_inputs sn) ` {2..<length (n_inputs sn)}) h' \<and>
       (\<forall>i. 2 \<le> i \<and> i < length (n_inputs sn) \<longrightarrow>
         h' ! (n_inputs sn ! i) = div_channel (splitSize st ! 1 ! 0) (h ! (n_inputs sn ! i))))"
  (is "okE ?m _")
proof -
  note k = conv_ready_split [OF ready]
  have len: "2 \<le> length (n_inputs sn)" using ready by (auto simp: conv_ready_def)
  show ?thesis
  proof (cases "splitSize st ! 1 ! 0 > 1")
    case True
    have "?m = foldE (\<lambda>i. div_input st sn i 0 1 0) [2..<length (n_inputs sn)] h1"
    proof (cases "length (n_inputs sn) = 7")
      case seven: True
      then have two: "[2..<length (n_inputs sn)] = 2 # [3..<length (n_inputs sn)]"
        by (simp add: upt_rec [of 2])
      show ?thesis
        unfolding two foldE.simps using seven by (simp only: k(1) bindE.simps True if_True if_cancel)
    next
      case False
      then show ?thesis by (simp only: k(1) bindE.simps True if_True if_False)
    qed
    then show ?thesis
      using conv_channels_step [OF ready tiled order_refl len order_refl pc] by (simp only:)
  next
    case False
    then have one: "splitSize st ! 1 ! 0 = 1" using k(2) by simp
    have small: "conv_tiled st h i0 i1 out d pad stride ((!) (n_inputs sn) ` {2..<length (n_inputs sn)}) h' \<and>
       (\<forall>i. 2 \<le> i \<and> i < length (n_inputs sn) \<longrightarrow> h' ! (n_inputs sn ! i) = h ! (n_inputs sn ! i))"
      if "b \<le> length (n_inputs sn)" "2 \<le> b"
        "conv_tiled st h i0 i1 out d pad stride ((!) (n_inputs sn) ` {2..<b}) h'"
        "\<forall>i. 2 \<le> i \<and> i < b \<longrightarrow> h' ! (n_inputs sn ! i) = h ! (n_inputs sn ! i)" for b h'
    proof (intro conjI allI impI)
      show "conv_tiled st h i0 i1 out d pad stride ((!) (n_inputs sn) ` {2..<length (n_inputs sn)}) h'"
        using that(3) by (rule conv_tiled_mono) (use that(1) in auto)
      fix i assume i: "2 \<le> i \<and> i < length (n_inputs sn)"
      show "h' ! (n_inputs sn ! i) = h ! (n_inputs sn ! i)"
        using that i conv_tiled_frame [OF ready that(3), of i] by (cases "i < b") auto
    qed
    show ?thesis
    proof (cases "length (n_inputs sn) = 7")
      case True
      have "okE (foldE (\<lambda>i. div_input st sn i 0 1 0) [2..<3] h1) (\<lambda>h'.
          conv_tiled st h i0 i1 out d pad stride ((!) (n_inputs sn) ` {2..<3}) h' \<and>
          (\<forall>i. 2 \<le> i \<and> i < 3 \<longrightarrow> h' ! (n_inputs sn ! i) = h ! (n_inputs sn ! i)))"
        using conv_channels_step [OF ready tiled, of 2 3] True pc
        unfolding one div_channel_1 by simp
      then have "okE (div_input st sn 2 0 1 0 h1) (\<lambda>h'.
          conv_tiled st h i0 i1 out d pad stride ((!) (n_inputs sn) ` {2..<3}) h' \<and>
          (\<forall>i. 2 \<le> i \<and> i < 3 \<longrightarrow> h' ! (n_inputs sn ! i) = h ! (n_inputs sn ! i)))"
        by (simp add: upt_rec [of 2] bindE_foldE_Nil)
      then have "okE (div_input st sn 2 0 1 0 h1) (\<lambda>h'.
          conv_tiled st h i0 i1 out d pad stride ((!) (n_inputs sn) ` {2..<length (n_inputs sn)}) h' \<and>
          (\<forall>i. 2 \<le> i \<and> i < length (n_inputs sn) \<longrightarrow> h' ! (n_inputs sn ! i) = h ! (n_inputs sn ! i)))"
        by (rule okE_mono) (elim conjE, rule small [of 3], use True in simp_all)
      moreover have "?m = div_input st sn 2 0 1 0 h1"
        using True by (simp add: k(1) [unfolded One_nat_def] one [unfolded One_nat_def])
      ultimately show ?thesis unfolding one div_channel_1 by (simp only:)
    next
      case False
      then have "?m = Inr h1" by (simp add: k(1) [unfolded One_nat_def] one [unfolded One_nat_def])
      moreover have "conv_tiled st h i0 i1 out d pad stride ((!) (n_inputs sn) ` {2..<length (n_inputs sn)}) h1 \<and>
         (\<forall>i. 2 \<le> i \<and> i < length (n_inputs sn) \<longrightarrow> h1 ! (n_inputs sn ! i) = h ! (n_inputs sn ! i))"
        by (rule small [OF len order_refl]) (use tiled in auto)
      ultimately show ?thesis unfolding one div_channel_1 by (simp only: okE_Inr) blast
    qed
  qed
qed

text \<open>
  The plane dimension of an input tile, as the head comment of the two splits computes it:
  \<open>x = (x' - 1) * stride + r - 2 * padding\<close>.  The code subtracts the padding once.
\<close>

definition documented_tile :: "int \<Rightarrow> int \<Rightarrow> int \<Rightarrow> int \<Rightarrow> int \<Rightarrow> int \<Rightarrow> int" where
  "documented_tile parts out_dim in_dim stride k pad =
     (if parts > 1 then (out_dim div parts - 1) * stride + k - 2 * pad else in_dim div parts)"

definition plane_ok :: "int \<Rightarrow> int \<Rightarrow> int \<Rightarrow> int \<Rightarrow> int \<Rightarrow> int \<Rightarrow> int \<Rightarrow> bool" where
  "plane_ok parts out_dim in_dim stride k pad x \<longleftrightarrow>
     documented_tile parts out_dim in_dim stride k pad \<le> x \<and>
     x \<le> documented_tile parts out_dim in_dim stride k pad + (if parts > 1 then pad else 0)"

lemma tile_plane: "0 \<le> pad \<Longrightarrow> plane_ok n out_dim in_dim stride k pad (tile n out_dim in_dim stride k pad)"
  by (simp add: plane_ok_def documented_tile_def tile_def)

lemma conv_tiled_documented:
  assumes t: "conv_tiled st h i0 i1 out d pad stride X h'" and pad: "0 \<le> pad" and X: "{out, i0, i1} \<union> X \<subseteq> insert out Y"
  shows "length h' = length h"
    "t_shape (h' ! out) =
       [oN d, oC d div (splitSize st ! 1 ! 0), oH d div (splitSize st ! 0 ! 2), oW d div (splitSize st ! 0 ! 3)]"
    "t_shape (h' ! i1) =
       [wK d div (splitSize st ! 1 ! 0), wC d div (splitSize st ! 1 ! 1),
        wR d div (splitSize st ! 1 ! 2), wS d div (splitSize st ! 1 ! 3)]"
    "\<exists>x y. t_shape (h' ! i0) = [iN d, iC d div (splitSize st ! 0 ! 1), x, y] \<and>
       plane_ok (splitSize st ! 0 ! 2) (oH d) (iH d) stride (wR d) pad x \<and>
       plane_ok (splitSize st ! 0 ! 3) (oW d) (iW d) stride (wS d) pad y"
    "\<forall>p. p \<notin> Y \<and> p \<noteq> out \<longrightarrow> h' ! p = h ! p"
proof -
  note c = t [unfolded conv_tiled_def]
  show "length h' = length h"
    "t_shape (h' ! out) =
       [oN d, oC d div (splitSize st ! 1 ! 0), oH d div (splitSize st ! 0 ! 2), oW d div (splitSize st ! 0 ! 3)]"
    "t_shape (h' ! i1) =
       [wK d div (splitSize st ! 1 ! 0), wC d div (splitSize st ! 1 ! 1),
        wR d div (splitSize st ! 1 ! 2), wS d div (splitSize st ! 1 ! 3)]"
    using c by - (elim conjE, assumption)+
  show "\<exists>x y. t_shape (h' ! i0) = [iN d, iC d div (splitSize st ! 0 ! 1), x, y] \<and>
       plane_ok (splitSize st ! 0 ! 2) (oH d) (iH d) stride (wR d) pad x \<and>
       plane_ok (splitSize st ! 0 ! 3) (oW d) (iW d) stride (wS d) pad y"
    using c by (elim conjE, intro exI conjI) (assumption, rule tile_plane [OF pad], rule tile_plane [OF pad])
  have "\<forall>p. p \<notin> {out, i0, i1} \<union> X \<longrightarrow> h' ! p = h ! p" using c by (elim conjE)
  then show "\<forall>p. p \<notin> Y \<and> p \<noteq> out \<longrightarrow> h' ! p = h ! p" using X by blast
qed

text \<open>
  C31 (split of a fused convolution).  On a node whose tensors are separate and whose sizes
  fit, \<open>ConvBatchnorm::split\<close> returns; the output and weight tensors and the channels of the
  input tensor get the sizes of one tile, the bias and the batch-normalisation parameters are
  divided by the number of kernel groups, and every other tensor is untouched.  The plane of the
  input tile is at least the documented one and at most the padding larger, so that without
  padding, and in a direction that is not split, it is exactly the documented one.
\<close>

theorem ConvBatchnorm_split_ok:
  assumes ready: "conv_ready st h sn i0 i1 out d pad stride" and pad: "0 \<le> pad"
    and pc: "\<forall>i. 2 \<le> i \<and> i < length (n_inputs sn) \<longrightarrow> per_channel h (n_inputs sn ! i)"
  shows "okE (ConvBatchnorm_split st (h, sn)) (\<lambda>(h', sn'). sn' = sn \<and> length h' = length h \<and>
     t_shape (h' ! out) =
       [oN d, oC d div (splitSize st ! 1 ! 0), oH d div (splitSize st ! 0 ! 2), oW d div (splitSize st ! 0 ! 3)] \<and>
     t_shape (h' ! i1) =
       [wK d div (splitSize st ! 1 ! 0), wC d div (splitSize st ! 1 ! 1),
        wR d div (splitSize st ! 1 ! 2), wS d div (splitSize st ! 1 ! 3)] \<and>
     (\<exists>x y. t_shape (h' ! i0) = [iN d, iC d div (splitSize st ! 0 ! 1), x, y] \<and>
        plane_ok (splitSize st ! 0 ! 2) (oH d) (iH d) stride (wR d) pad x \<and>
        plane_ok (splitSize st ! 0 ! 3) (oW d) (iW d) stride (wS d) pad y) \<and>
     (\<forall>i. 2 \<le> i \<and> i < length (n_inputs sn) \<longrightarrow>
        h' ! (n_inputs sn ! i) = div_channel (splitSize st ! 1 ! 0) (h ! (n_inputs sn ! i))) \<and>
     (\<forall>p. p \<notin> set (n_inputs sn) \<and> p \<noteq> out \<longrightarrow> h' ! p = h ! p))"
proof -
  have ins: "{out, i0, i1} \<union> (!) (n_inputs sn) ` {2..<length (n_inputs sn)} \<subseteq> insert out (set (n_inputs sn))"
    using ready by (auto simp: conv_ready_def intro!: nth_mem)
  have run: "okE (ConvBatchnorm_split st (h, sn)) (\<lambda>(h', sn'). sn' = sn \<and>
     conv_tiled st h i0 i1 out d pad stride ((!) (n_inputs sn) ` {2..<length (n_inputs sn)}) h' \<and>
     (\<forall>i. 2 \<le> i \<and> i < length (n_inputs sn) \<longrightarrow>
        h' ! (n_inputs sn ! i) = div_channel (splitSize st ! 1 ! 0) (h ! (n_inputs sn ! i))))"
    unfolding ConvBatchnorm_split_def prod.case okE_bindE okE_Inr
    by (rule okE_mono [OF conv_tiles_ok [OF ready]],
        rule okE_mono [OF ConvBatchnorm_channels [OF ready _ pc, unfolded okE_bindE okE_Inr]]) blast+
  show ?thesis
    by (rule okE_mono [OF run], clarify) (intro conjI conv_tiled_documented [OF _ pad ins] refl; assumption)
qed

definition demo_fused_node :: node where
  "demo_fused_node = demo_conv_node\<lparr>n_inputs := [0, 1, 2, 4, 5, 6, 7]\<rparr>"

lemma demo_conv_ready:
  "conv_ready demo_conv_strategy demo_conv_heap demo_conv_node 0 1 3 demo_conv_dims 1 1"
  "conv_ready demo_conv_strategy demo_conv_heap demo_fused_node 0 1 3 demo_conv_dims 1 1"
  by (simp_all add: conv_ready_def demo_conv_defs demo_fused_node_def demo_conv_dims_def in_i32_def halo_fits_def)

lemma ConvBatchnorm_split_ok_witness:
  "okE (ConvBatchnorm_split demo_conv_strategy (demo_conv_heap, demo_fused_node)) (\<lambda>(h', sn').
     t_shape (h' ! 1) = [4, 2, 3, 3] \<and> t_shape (h' ! 3) = [1, 4, 2, 8] \<and>
     (\<exists>x. t_shape (h' ! 0) = [1, 2, x, 8] \<and> 2 \<le> x \<and> x \<le> 3))"
proof -
  have pc: "\<forall>i. 2 \<le> i \<and> i < length (n_inputs demo_fused_node) \<longrightarrow> per_channel demo_conv_heap (n_inputs demo_fused_node ! i)"
    by (auto simp: demo_fused_node_def demo_conv_defs per_channel_def in_i32_def less_Suc_eq numeral_eq_Suc)
  show ?thesis
    by (rule okE_mono [OF ConvBatchnorm_split_ok [OF demo_conv_ready(2) _ pc]])
      (auto simp: demo_conv_strategy_def demo_conv_dims_def documented_tile_def plane_ok_def)
qed

lemma tile_cover:
  assumes "1 < n" and "n dvd out_dim" and "in_dim - k = (out_dim - 1) * stride"
  shows "n * tile n out_dim in_dim stride k 0 = in_dim + (n - 1) * (k - stride)"
proof -
  obtain m where m: "out_dim = n * m" using assms(2) by (elim dvdE)
  have tile: "n * tile n out_dim in_dim stride k 0 = (n * m - n) * stride + n * k"
    using assms(1) by (simp add: tile_def m algebra_simps)
  have "in_dim = (n * m - 1) * stride + k" using assms(3) by (simp add: m)
  then show ?thesis unfolding tile by (simp add: algebra_simps)
qed

lemma tile_rows:
  assumes "1 < n" and "0 \<le> stride" and "i * (out_dim div n) \<le> j" and "j < (i + 1) * (out_dim div n)"
  shows "{j * stride ..< j * stride + k} \<subseteq>
     {i * (out_dim div n) * stride ..< i * (out_dim div n) * stride + tile n out_dim in_dim stride k 0}"
proof -
  let ?m = "out_dim div n"
  have "i * ?m * stride \<le> j * stride" using assms(2,3) by (rule mult_right_mono [rotated])
  moreover have "j * stride \<le> (i * ?m + ?m - 1) * stride"
    by (rule mult_right_mono [OF _ assms(2)]) (use assms(4) in \<open>simp add: algebra_simps\<close>)
  then have "j * stride + k \<le> i * ?m * stride + tile n out_dim in_dim stride k 0"
    using assms(1) by (simp add: tile_def algebra_simps)
  ultimately show ?thesis by auto
qed


text \<open>A convolution without padding: 10 by 10 input planes, 3 by 3 kernels, 8 by 8 output planes.\<close>

definition flat_conv_heap :: heap where
  "flat_conv_heap = demo_conv_heap[0 := new_tensor ''x'' [1, 4, 10, 10] 1]"

definition flat_conv_node :: node where
  "flat_conv_node = demo_conv_node\<lparr>n_attributes := map demo_attr [[1, 1], [1], [3, 3], [0, 0, 0, 0], [1, 1]]\<rparr>"

definition flat_conv_dims :: conv_dims where
  "flat_conv_dims = demo_conv_dims\<lparr>iH := 10, iW := 10\<rparr>"


text \<open>
  C33 (split of a max pooling).  \<open>MaxPool::split\<close> returns; the output gets the shape of its
  tile, and both plane dimensions of the input tile are computed from the height of the
  output tile.
\<close>

theorem MaxPool_split_ok:
  assumes "n_inputs sn = [i0]" "n_outputs sn = [out]" "i0 \<noteq> out" "i0 < length h" "out < length h"
    and "splitSize st = [[s0, s1, s2, s3]]" "0 < s1" "0 < s2" "0 < s3"
    and "t_shape (h ! i0) = [xN, xC, xH, xW]" "t_shape (h ! out) = [yN, yC, yH, yW]"
    and "\<forall>x \<in> {xC, yC, yH, yW}. 0 \<le> x \<and> in_i32 x"
    and "map a_data (n_attributes sn) = [krn # ks, pad # ps, stride # ss]"
    and "halo_fits (yH div s2) stride krn 0"
  shows "okE (MaxPool_split st (h, sn)) (\<lambda>(h', sn'). sn' = sn \<and>
     t_shape (h' ! out) = [yN, yC div s1, yH div s2, yW div s3] \<and>
     t_shape (h' ! i0) = [xN, xC div s1, (yH div s2 - 1) * stride + krn, (yH div s2 - 1) * stride + krn] \<and>
     (\<forall>p. p \<notin> {i0, out} \<longrightarrow> h' ! p = h ! p))"
proof -
  have attrs: "okE (attr_data sn 0 0) Q \<longleftrightarrow> Q krn" "okE (attr_data sn (Suc 0) 0) Q \<longleftrightarrow> Q pad"
      "okE (attr_data sn 2 0) Q \<longleftrightarrow> Q stride" for Q
    using assms(13) by (auto simp: attr_data_def map_eq_Cons_conv)
  show ?thesis
    using assms(3-5,7-9,12,14)
    by (simp add: MaxPool_split_def div_output_def div_input_def input_at_def output_at_def
        assms(1,2,6,10,11) attrs halo_fits_def cong: run_cong)
qed

lemma MaxPool_split_ok_witness:
  "okE (MaxPool_split \<lparr>splitSize = [[1, 2, 2, 1]], mappingStrategy = []\<rparr>
      ([new_tensor ''x'' [1, 4, 8, 8] 1, new_tensor ''y'' [1, 4, 4, 4] 1],
       (new_node 0 ''pool'' MAXPOOL)\<lparr>n_inputs := [0], n_outputs := [1],
          n_attributes := map demo_attr [[2, 2], [0, 0, 0, 0], [2, 2]]\<rparr>))
     (\<lambda>(h', sn'). t_shape (h' ! 1) = [1, 2, 2, 4] \<and> t_shape (h' ! 0) = [1, 2, 4, 4])"
  by (rule okE_mono [OF MaxPool_split_ok [where ?i0.0 = 0 and out = 1]])
    (auto simp: new_tensor_def new_node_def demo_attr_def in_i32_def halo_fits_def)

text \<open>
  C34 (split of an element-wise operator).  \<open>Workload::split\<close>, which \<open>Relu\<close> inherits, returns;
  the input gets the shape of its tile and the output pointer is replaced by the input
  pointer, so that the output tensor keeps its full shape.
\<close>

theorem Workload_split_ok:
  assumes "n_inputs sn = [i0]" "n_outputs sn = [out]" "i0 < length h"
    and "splitSize st = [[s0, s1, s2, s3]]" "0 < s0" "0 < s1" "0 < s2" "0 < s3"
    and "t_shape (h ! i0) = [xN, xC, xH, xW]" "\<forall>x \<in> {xN, xC, xH, xW}. 0 \<le> x \<and> in_i32 x"
  shows "okE (Workload_split st (h, sn)) (\<lambda>(h', sn'). sn' = sn\<lparr>n_outputs := [i0]\<rparr> \<and>
     t_shape (h' ! i0) = [xN div s0, xC div s1, xH div s2, xW div s3] \<and>
     (\<forall>p. p \<noteq> i0 \<longrightarrow> h' ! p = h ! p))"
  using assms(3,5-8,10)
  by (simp add: Workload_split_def upt_0_4 input_at_def assms(1,2,4,9) cong: run_cong)

lemma Workload_split_ok_witness:
  "okE (Workload_split \<lparr>splitSize = [[1, 2, 2, 1]], mappingStrategy = []\<rparr>
      ([new_tensor ''x'' [1, 4, 8, 8] 1, new_tensor ''y'' [1, 4, 8, 8] 1],
       (new_node 0 ''relu'' RELU)\<lparr>n_inputs := [0], n_outputs := [1]\<rparr>))
     (\<lambda>(h', sn'). n_outputs sn' = [0] \<and> t_shape (h' ! 0) = [1, 2, 4, 8] \<and> t_shape (h' ! 1) = [1, 4, 8, 8])"
  by (rule okE_mono [OF Workload_split_ok [where ?i0.0 = 0 and out = 1]])
    (auto simp: new_tensor_def new_node_def in_i32_def)

lemma all_1_5: "(\<forall>i. 1 \<le> i \<and> i < 5 \<longrightarrow> P i) \<longleftrightarrow> P 1 \<and> P 2 \<and> P 3 \<and> P (4 :: nat)"
  by (auto simp: numeral_eq_Suc less_Suc_eq le_Suc_eq)

lemma upt_1_5: "{1..<5} = {1, 2, 3, 4 :: nat}"
  by auto

text \<open>
  C35 (split of a batch normalisation).  \<open>Batchnorm::split\<close> returns; input and output get the
  shapes of their tiles, and the four parameter tensors are divided by the split of the
  batch dimension (not of the channels they hold).
\<close>

theorem Batchnorm_split_ok:
  assumes "n_inputs sn = [i0, i1, i2, i3, i4]" "n_outputs sn = [out]"
    and "distinct [out, i0, i1, i2, i3, i4]" "\<forall>p \<in> {out, i0, i1, i2, i3, i4}. p < length h"
    and "splitSize st = [[s0, s1, s2, s3]]" "0 < s0" "0 < s1" "0 < s2" "0 < s3"
    and "t_shape (h ! i0) = [xN, xC, xH, xW]" "t_shape (h ! out) = [yN, yC, yH, yW]"
    and "\<forall>x \<in> {xN, xC, xH, xW, yN, yC, yH, yW}. 0 \<le> x \<and> in_i32 x"
    and pc: "\<forall>p \<in> {i1, i2, i3, i4}. per_channel h p"
  shows "okE (Batchnorm_split st (h, sn)) (\<lambda>(h', sn'). sn' = sn \<and>
     t_shape (h' ! i0) = [xN div s0, xC div s1, xH div s2, xW div s3] \<and>
     t_shape (h' ! out) = [yN div s0, yC div s1, yH div s2, yW div s3] \<and>
     (\<forall>p \<in> {i1, i2, i3, i4}. h' ! p = div_channel s0 (h ! p)))"
proof -
  have sep: "out \<noteq> i0" "i0 \<noteq> out" "i0 < length h" "out < length h" using assms(3,4) by auto
  have nonneg: "0 \<le> xN" "0 \<le> xC" "0 \<le> xH" "0 \<le> xW" "0 \<le> yN" "0 \<le> yC" "0 \<le> yH" "0 \<le> yW"
    "in_i32 xN" "in_i32 xC" "in_i32 xH" "in_i32 xW" "in_i32 yN" "in_i32 yC" "in_i32 yH" "in_i32 yW"
    using assms(12) by auto
  have tiles: "okE (foldE (\<lambda>j h. bindE (div_input st sn 0 j 0 j h) (div_output st sn 0 j 0 j)) [0..<4] h)
      (\<lambda>h1. length h1 = length h \<and>
        t_shape (h1 ! i0) = [xN div s0, xC div s1, xH div s2, xW div s3] \<and>
        t_shape (h1 ! out) = [yN div s0, yC div s1, yH div s2, yW div s3] \<and>
        (\<forall>p. p \<notin> {i0, out} \<longrightarrow> h1 ! p = h ! p))"
    using assms(6-9) sep
    by (simp add: upt_0_4 div_output_def div_input_def input_at_def output_at_def
        assms(1,2,5,10,11) nonneg cong: run_cong)
  have params: "okE (foldE (\<lambda>i. div_input st sn i 0 0 0) [1..<5] h1) (\<lambda>h'.
        t_shape (h' ! i0) = t_shape (h1 ! i0) \<and> t_shape (h' ! out) = t_shape (h1 ! out) \<and>
        (\<forall>p \<in> {i1, i2, i3, i4}. h' ! p = div_channel s0 (h ! p)))"
    if h1: "length h1 = length h" "\<forall>p. p \<notin> {i0, out} \<longrightarrow> h1 ! p = h ! p" for h1
  proof (rule okE_mono [OF div_channels_ok])
    have par: "h1 ! i1 = h ! i1" "h1 ! i2 = h ! i2" "h1 ! i3 = h ! i3" "h1 ! i4 = h ! i4"
      using h1(2) assms(3) by auto
    show "\<forall>i. 1 \<le> i \<and> i < 5 \<longrightarrow> per_channel h1 (n_inputs sn ! i)"
      unfolding all_1_5 using pc by (simp add: assms(1) per_channel_def h1(1) par)
    have "(!) (n_inputs sn) ` {1..<5} = {i1, i2, i3, i4}"
      unfolding upt_1_5 by (simp add: assms(1))
    moreover fix h' assume "length h' = length h1 \<and>
         (\<forall>i. 1 \<le> i \<and> i < 5 \<longrightarrow> h' ! (n_inputs sn ! i) = div_channel s0 (h1 ! (n_inputs sn ! i))) \<and>
         (\<forall>p. p \<notin> (!) (n_inputs sn) ` {1..<5} \<longrightarrow> h' ! p = h1 ! p)"
    ultimately show "t_shape (h' ! i0) = t_shape (h1 ! i0) \<and> t_shape (h' ! out) = t_shape (h1 ! out) \<and>
        (\<forall>p \<in> {i1, i2, i3, i4}. h' ! p = div_channel s0 (h ! p))"
      unfolding all_1_5 using assms(3) by (simp add: assms(1) par)
  qed (use assms(1,3,5,6) in auto)
  show ?thesis
    unfolding Batchnorm_split_def prod.case okE_bindE okE_Inr
    by (rule okE_mono [OF tiles], elim conjE, rule okE_mono [OF params]) auto
qed

lemma Batchnorm_split_ok_witness:
  "okE (Batchnorm_split \<lparr>splitSize = [[1, 2, 2, 1]], mappingStrategy = []\<rparr>
      (demo_conv_heap @ [new_tensor ''z'' [1, 8, 8, 8] 1],
       (new_node 0 ''bn'' BATCHNORMAL)\<lparr>n_inputs := [3, 4, 5, 6, 7], n_outputs := [8]\<rparr>))
     (\<lambda>(h', sn'). t_shape (h' ! 3) = [1, 4, 4, 8] \<and> t_shape (h' ! 4) = [8])"
  by (rule okE_mono [OF Batchnorm_split_ok [where ?i0.0 = 3 and ?i1.0 = 4 and ?i2.0 = 5 and ?i3.0 = 6 and ?i4.0 = 7 and out = 8]])
    (auto simp: demo_conv_heap_def new_tensor_def new_node_def in_i32_def per_channel_def div_channel_def)

end
