(* ===== verification/Traffic_Gen.thy ===== *)
theory Traffic_Gen
  imports Workload
begin

text \<open>
  The traffic generator (\<open>traffic_generator/traffic.hpp\<close> and \<open>traffic_generator.hpp\<close>): the
  traffic records, the class \<open>TrafficGenerator\<close> with its four general functions
  (\<open>unicast_read\<close>, \<open>unicast_write\<close>, \<open>compute\<close>, \<open>broadcast_read\<close>) and one function per
  operator and mapping strategy.  The general functions take the address they advance by
  reference; in the model that reference is the tensor whose member \<open>address\<close> it is.
\<close>

section \<open>Traffic records\<close>

datatype RequestType = READ | WRITE | COMPUTE | SYNC

datatype TrafficType = UNICAST | MULTICAST | BROADCAST

record traffic =
  tr_type :: RequestType
  tr_src :: "int \<times> int"
  tr_dest :: "int \<times> int"
  tr_addr :: u64
  tr_size :: u64
  tr_request :: TrafficType
  tr_response :: TrafficType

definition new_Traffic ::
    "RequestType \<Rightarrow> int \<times> int \<Rightarrow> int \<times> int \<Rightarrow> u64 \<Rightarrow> u64 \<Rightarrow> TrafficType \<Rightarrow> TrafficType \<Rightarrow> traffic" where
  "new_Traffic ty src dest a sz req resp =
     \<lparr>tr_type = ty, tr_src = src, tr_dest = dest, tr_addr = a, tr_size = sz,
      tr_request = req, tr_response = resp\<rparr>"

text \<open>The global \<open>uint64_t addr\<close> of \<open>traffic.hpp\<close>: zero-initialised, never assigned.\<close>

definition global_addr :: u64 where
  "global_addr = 0"

section \<open>The generator and its general functions\<close>

record tgen =
  tg_list :: "traffic list"
  tg_numSubgraph :: int
  tg_split_node :: node
  tg_base_node :: node
  tg_numPE :: int
  tg_round :: int
  tg_remainder :: int
  tg_strategy :: strategy
  tg_heap :: heap

definition new_TrafficGenerator :: "heap \<Rightarrow> int \<Rightarrow> int \<Rightarrow> node \<Rightarrow> node \<Rightarrow> tgen res" where
  "new_TrafficGenerator h numPE numSubgraph sn bn =
     bindE (ceil_div numSubgraph numPE) (\<lambda>r.
     bindE (cmod numSubgraph numPE) (\<lambda>m.
     Inr \<lparr>tg_list = [], tg_numSubgraph = numSubgraph, tg_split_node = sn, tg_base_node = bn,
          tg_numPE = numPE, tg_round = r, tg_remainder = m,
          tg_strategy = \<lparr>splitSize = [], mappingStrategy = []\<rparr>, tg_heap = h\<rparr>))"

definition init_strategy :: "strategy \<Rightarrow> tgen \<Rightarrow> tgen" where
  "init_strategy st g = g\<lparr>tg_strategy := st\<rparr>"

definition push_traffic :: "traffic \<Rightarrow> tgen \<Rightarrow> tgen" where
  "push_traffic t g = g\<lparr>tg_list := tg_list g @ [t]\<rparr>"

text \<open>\<open>addr += size\<close> on the address of tensor \<open>p\<close>, after pushing the traffic made from it.\<close>

definition push_advance :: "(u64 \<Rightarrow> traffic) \<Rightarrow> u64 \<Rightarrow> tref \<Rightarrow> tgen \<Rightarrow> tgen res" where
  "push_advance mk sz p g =
     bindE (vec_at (tg_heap g) p) (\<lambda>t.
     bindE (determinate (t_address t)) (\<lambda>a.
     Inr ((push_traffic (mk a) g)\<lparr>tg_heap := (tg_heap g)[p := t\<lparr>t_address := Some (a + sz)\<rparr>]\<rparr>)))"

definition unicast_read :: "int \<Rightarrow> u64 \<Rightarrow> tref \<Rightarrow> tgen \<Rightarrow> tgen res" where
  "unicast_read num_subgraph sz p =
     foldE (\<lambda>i. push_advance (\<lambda>a. new_Traffic READ (0, int i) (1, 0) a sz UNICAST UNICAST) sz p)
       [0..<nat num_subgraph]"

definition unicast_write :: "int \<Rightarrow> u64 \<Rightarrow> tref \<Rightarrow> tgen \<Rightarrow> tgen res" where
  "unicast_write num_subgraph sz p =
     foldE (\<lambda>i. push_advance (\<lambda>a. new_Traffic WRITE (0, int i) (1, 0) a sz UNICAST UNICAST) sz p)
       [0..<nat num_subgraph]"

definition compute :: "int \<Rightarrow> tgen \<Rightarrow> tgen res" where
  "compute num_subgraph =
     foldE (\<lambda>i g. Inr (push_traffic (new_Traffic COMPUTE (0, int i) (1, 0) global_addr 0 UNICAST UNICAST) g))
       [0..<nat num_subgraph]"

definition broadcast_read :: "u64 \<Rightarrow> tref \<Rightarrow> tgen \<Rightarrow> tgen res" where
  "broadcast_read sz p g =
     bindE (push_advance (\<lambda>a. new_Traffic READ (0, 0) (1, 0) a sz UNICAST BROADCAST) sz p g) (\<lambda>g.
     foldE (\<lambda>i g. Inr (push_traffic (new_Traffic SYNC (0, int i) (1, 0) 0 0 UNICAST UNICAST) g))
       [1..<nat (tg_numPE g)] g)"

text \<open>
  The calls the operator functions make: \<open>f(n, node.inputs[i]->size, node.inputs[i]->address)\<close>.
  A \<open>long long\<close> size becomes a \<open>uint64_t\<close> argument.
\<close>

definition size_of :: "tref \<Rightarrow> tgen \<Rightarrow> int res" where
  "size_of p g = bindE (vec_at (tg_heap g) p) (\<lambda>t. determinate (t_size t))"

definition read_input :: "int \<Rightarrow> nat \<Rightarrow> tgen \<Rightarrow> tgen res" where
  "read_input n i g =
     bindE (input_at (tg_split_node g) i) (\<lambda>p.
     bindE (size_of p g) (\<lambda>sz.
     unicast_read n (of_int sz) p g))"

definition broadcast_input :: "nat \<Rightarrow> tgen \<Rightarrow> tgen res" where
  "broadcast_input i g =
     bindE (input_at (tg_split_node g) i) (\<lambda>p.
     bindE (size_of p g) (\<lambda>sz.
     broadcast_read (of_int sz) p g))"

definition write_output :: "int \<Rightarrow> tgen \<Rightarrow> tgen res" where
  "write_output n g =
     bindE (output_at (tg_split_node g) 0) (\<lambda>p.
     bindE (size_of p g) (\<lambda>sz.
     unicast_write n (of_int sz) p g))"

definition write_output_sized :: "int \<Rightarrow> int \<Rightarrow> tgen \<Rightarrow> tgen res" where
  "write_output_sized n sz g =
     bindE (output_at (tg_split_node g) 0) (\<lambda>p.
     unicast_write n (of_int sz) p g)"

definition output_size :: "tgen \<Rightarrow> int res" where
  "output_size g = bindE (output_at (tg_split_node g) 0) (\<lambda>p. size_of p g)"

definition input_size :: "nat \<Rightarrow> tgen \<Rightarrow> int res" where
  "input_size i g = bindE (input_at (tg_split_node g) i) (\<lambda>p. size_of p g)"

definition num_inputs :: "tgen \<Rightarrow> nat" where
  "num_inputs g = length (n_inputs (tg_split_node g))"

definition split_dim :: "tgen \<Rightarrow> nat \<Rightarrow> nat \<Rightarrow> int res" where
  "split_dim g i j = split_at (tg_strategy g) i j"

definition split_hw :: "tgen \<Rightarrow> int res" where
  "split_hw g =
     bindE (split_dim g 0 2) (\<lambda>h. bindE (split_dim g 0 3) (\<lambda>w. i32 (h * w)))"

text \<open>A loop \<open>for (int i = 0; i < n; i++)\<close> whose body does not use its counter.\<close>

definition repeatE :: "int \<Rightarrow> ('s \<Rightarrow> 'e + 's) \<Rightarrow> 's \<Rightarrow> 'e + 's" where
  "repeatE n body = foldE (\<lambda>_. body) [0..<nat n]"

section \<open>Operator functions\<close>

definition generate_traffic_element_wise :: "tgen \<Rightarrow> tgen res" where
  "generate_traffic_element_wise g =
     bindE (output_size g) (\<lambda>output_subgraph_size.
     bindE (repeatE (tg_round g) (\<lambda>g.
        bindE (foldE (read_input (tg_numPE g)) [0..<num_inputs g] g) (\<lambda>g.
        bindE (compute (tg_numPE g) g) (\<lambda>g.
        write_output_sized (tg_numPE g) output_subgraph_size g))) g) (\<lambda>g.
     if tg_remainder g \<noteq> 0 then
        bindE (foldE (read_input (tg_numPE g)) [0..<num_inputs g] g) (\<lambda>g.
        bindE (compute (tg_remainder g) g) (\<lambda>g.
        write_output_sized (tg_remainder g) output_subgraph_size g))
     else Inr g))"

definition generate_traffic_conv_weight_stationary :: "tgen \<Rightarrow> tgen res" where
  "generate_traffic_conv_weight_stationary g =
     bindE (split_dim g 1 0) (\<lambda>k.
     bindE (cdiv k (tg_numPE g)) (\<lambda>weight_round.
     bindE (split_dim g 0 1) (\<lambda>c.
     bindE (split_hw g) (\<lambda>hw.
     repeatE weight_round (\<lambda>g.
        bindE (if num_inputs g > 2 then read_input (tg_numPE g) 2 g else Inr g) (\<lambda>g.
        repeatE c (\<lambda>g.
           bindE (read_input (tg_numPE g) 1 g) (\<lambda>g.
           repeatE hw (\<lambda>g.
              bindE (broadcast_input 0 g) (\<lambda>g.
              bindE (compute (tg_numPE g) g) (\<lambda>g.
              write_output (tg_numPE g) g))) g)) g)) g))))"

definition generate_traffic_conv_output_stationary :: "tgen \<Rightarrow> tgen res" where
  "generate_traffic_conv_output_stationary g =
     bindE (split_dim g 0 1) (\<lambda>c.
     bindE (split_dim g 1 0) (\<lambda>knum.
     bindE (split_hw g) (\<lambda>hw_mult.
     bindE (cdiv hw_mult (tg_numPE g)) (\<lambda>input_round.
     bindE (cmod hw_mult (tg_numPE g)) (\<lambda>input_remainder.
     bindE (repeatE c (\<lambda>g.
        bindE (repeatE input_round (\<lambda>g.
           bindE (read_input (tg_numPE g) 0 g) (\<lambda>g.
           repeatE knum (\<lambda>g.
              bindE (broadcast_input 1 g) (\<lambda>g.
              bindE (if num_inputs g > 2 then read_input (tg_numPE g) 2 g else Inr g) (\<lambda>g.
              compute (tg_numPE g) g))) g)) g) (\<lambda>g.
        if input_remainder \<noteq> 0 then
           bindE (read_input input_remainder 0 g) (\<lambda>g.
           bindE (if num_inputs g > 2 then read_input input_remainder 2 g else Inr g) (\<lambda>g.
           repeatE knum (\<lambda>g.
              bindE (broadcast_input 1 g) (\<lambda>g.
              bindE (if num_inputs g > 2 then read_input (tg_numPE g) 2 g else Inr g) (\<lambda>g.
              compute input_remainder g))) g))
        else Inr g)) g) (\<lambda>g.
     write_output (tg_numPE g) g))))))"

text \<open>The three ways \<open>generate_traffic_batchnorm\<close> splits the work.\<close>

definition batchnorm_split_c :: "int \<Rightarrow> tgen \<Rightarrow> tgen res" where
  "batchnorm_split_c c g =
     bindE (cdiv c (tg_numPE g)) (\<lambda>c_round.
     bindE (cmod c (tg_numPE g)) (\<lambda>c_remainder.
     bindE (repeatE c_round (\<lambda>g.
        bindE (read_input (tg_numPE g) 0 g) (\<lambda>g.
        bindE (foldE (read_input (tg_numPE g)) [1..<num_inputs g] g) (\<lambda>g.
        bindE (compute (tg_numPE g) g) (\<lambda>g.
        write_output (tg_numPE g) g)))) g) (\<lambda>g.
     if c_remainder \<noteq> 0 then
        bindE (read_input c_remainder 0 g) (\<lambda>g.
        bindE (foldE broadcast_input [1..<num_inputs g] g) (\<lambda>g.
        bindE (compute c_remainder g) (\<lambda>g.
        write_output c_remainder g)))
     else Inr g)))"

definition batchnorm_split_chw :: "int \<Rightarrow> int \<Rightarrow> int \<Rightarrow> tgen \<Rightarrow> tgen res" where
  "batchnorm_split_chw c input_round input_remainder =
     repeatE c (\<lambda>g.
        bindE (foldE broadcast_input [1..<num_inputs g] g) (\<lambda>g.
        bindE (repeatE input_round (\<lambda>g.
           bindE (read_input (tg_numPE g) 0 g) (\<lambda>g.
           bindE (compute (tg_numPE g) g) (\<lambda>g.
           write_output (tg_numPE g) g))) g) (\<lambda>g.
        if input_remainder \<noteq> 0 then
           bindE (read_input input_remainder 0 g) (\<lambda>g.
           bindE (compute input_remainder g) (\<lambda>g.
           write_output input_remainder g))
        else Inr g)))"

text \<open>
  In the last round \<open>input_subgraph_size\<close> is the value left by the loop, and indeterminate
  when the loop body never ran.
\<close>

definition batchnorm_split_hw :: "int \<Rightarrow> tgen \<Rightarrow> tgen res" where
  "batchnorm_split_hw output_subgraph_size g =
     bindE (foldE broadcast_input [1..<num_inputs g] g) (\<lambda>g.
     bindE (repeatE (tg_round g) (\<lambda>g.
        bindE (read_input (tg_numPE g) 0 g) (\<lambda>g.
        bindE (compute (tg_numPE g) g) (\<lambda>g.
        write_output_sized (tg_numPE g) output_subgraph_size g))) g) (\<lambda>g.
     if tg_remainder g \<noteq> 0 then
        bindE (guardE (0 < tg_round g) Indeterminate) (\<lambda>_.
        bindE (read_input (tg_numPE g) 0 g) (\<lambda>g.
        bindE (compute (tg_remainder g) g) (\<lambda>g.
        write_output_sized (tg_remainder g) output_subgraph_size g)))
     else Inr g))"

definition generate_traffic_batchnorm :: "tgen \<Rightarrow> tgen res" where
  "generate_traffic_batchnorm g =
     bindE (output_size g) (\<lambda>output_subgraph_size.
     bindE (split_dim g 0 1) (\<lambda>c.
     bindE (split_hw g) (\<lambda>hw.
     bindE (cdiv hw (tg_numPE g)) (\<lambda>input_round.
     bindE (cmod hw (tg_numPE g)) (\<lambda>input_remainder.
     bindE (split_dim g 0 2) (\<lambda>s2.
     bindE (split_dim g 0 3) (\<lambda>s3.
     if c > 1 \<and> s2 = 1 \<and> s3 = 1 then batchnorm_split_c c g
     else if c > 1 \<and> s2 \<noteq> 1 \<and> s3 \<noteq> 1 then batchnorm_split_chw c input_round input_remainder g
     else if c = 1 then batchnorm_split_hw output_subgraph_size g
     else Inr g)))))))"

definition read_conv_sizes :: "tgen \<Rightarrow> unit res" where
  "read_conv_sizes g =
     bindE (input_size 0 g) (\<lambda>_.
     bindE (input_size 1 g) (\<lambda>_.
     bindE (output_size g) (\<lambda>_.
     if num_inputs g > 2 then bindE (input_size 2 g) (\<lambda>_. Inr ()) else Inr ())))"

definition generate_traffic_conv_weight_reduction :: "tgen \<Rightarrow> tgen res" where
  "generate_traffic_conv_weight_reduction g =
     bindE (read_conv_sizes g) (\<lambda>_.
     bindE (split_dim g 1 0) (\<lambda>k.
     bindE (cdiv k (tg_numPE g)) (\<lambda>weight_round.
     bindE (split_dim g 0 1) (\<lambda>c.
     bindE (split_hw g) (\<lambda>hw.
     bindE (if num_inputs g > 2 then broadcast_input 2 g else Inr g) (\<lambda>g.
     repeatE weight_round (repeatE c (\<lambda>g.
        bindE (read_input (tg_numPE g) 1 g) (\<lambda>g.
        repeatE hw (\<lambda>g.
           bindE (broadcast_input 0 g) (\<lambda>g.
           bindE (compute (tg_numPE g) g) (\<lambda>g.
           write_output (tg_numPE g) g))) g))) g))))))"

definition original_size :: "tgen \<Rightarrow> nat \<Rightarrow> int res" where
  "original_size g i = vec_at (n_origianl_input_size (tg_split_node g)) i"

definition broadcast_original :: "nat \<Rightarrow> tgen \<Rightarrow> tgen res" where
  "broadcast_original i g =
     bindE (original_size g i) (\<lambda>sz.
     bindE (input_at (tg_split_node g) i) (\<lambda>p.
     broadcast_read (of_int sz) p g))"

definition generate_traffic_conv_output_reduction :: "tgen \<Rightarrow> tgen res" where
  "generate_traffic_conv_output_reduction g =
     bindE (read_conv_sizes g) (\<lambda>_.
     bindE (split_dim g 0 1) (\<lambda>c.
     bindE (split_dim g 1 0) (\<lambda>knum.
     bindE (split_hw g) (\<lambda>hw_mult.
     bindE (cdiv hw_mult (tg_numPE g)) (\<lambda>input_round.
     bindE (cmod hw_mult (tg_numPE g)) (\<lambda>input_remainder.
     bindE (if num_inputs g > 2 then broadcast_original 2 g else Inr g) (\<lambda>g.
     bindE (repeatE c (\<lambda>g.
        bindE (repeatE input_round (\<lambda>g.
           bindE (read_input (tg_numPE g) 0 g) (\<lambda>g.
           repeatE knum (\<lambda>g.
              bindE (broadcast_input 1 g) (\<lambda>g.
              compute (tg_numPE g) g)) g)) g) (\<lambda>g.
        if input_remainder \<noteq> 0 then
           bindE (read_input input_remainder 0 g) (\<lambda>g.
           bindE (if num_inputs g > 2 then read_input input_remainder 2 g else Inr g) (\<lambda>g.
           repeatE knum (\<lambda>g.
              bindE (broadcast_input 1 g) (\<lambda>g.
              compute input_remainder g)) g))
        else Inr g)) g) (\<lambda>g.
     write_output (tg_numPE g) g))))))))"

definition generate_traffic_batchnorm_reduction :: "tgen \<Rightarrow> tgen res" where
  "generate_traffic_batchnorm_reduction g =
     bindE (output_size g) (\<lambda>_.
     bindE (split_dim g 0 1) (\<lambda>c.
     bindE (split_hw g) (\<lambda>hw.
     bindE (cdiv hw (tg_numPE g)) (\<lambda>_.
     bindE (cmod hw (tg_numPE g)) (\<lambda>_.
     bindE (split_dim g 0 2) (\<lambda>s2.
     bindE (i32 (c * s2)) (\<lambda>cs.
     bindE (split_dim g 0 3) (\<lambda>s3.
     bindE (i32 (cs * s3)) (\<lambda>num_subgraph.
     bindE (cdiv num_subgraph (tg_numPE g)) (\<lambda>rnd.
     bindE (cmod num_subgraph (tg_numPE g)) (\<lambda>remainder.
     bindE (foldE broadcast_original [1..<length (n_origianl_input_size (tg_split_node g))] g) (\<lambda>g.
     bindE (repeatE rnd (\<lambda>g.
        bindE (read_input (tg_numPE g) 0 g) (\<lambda>g.
        bindE (compute (tg_numPE g) g) (\<lambda>g.
        write_output (tg_numPE g) g))) g) (\<lambda>g.
     if remainder \<noteq> 0 then
        bindE (read_input remainder 0 g) (\<lambda>g.
        bindE (compute remainder g) (\<lambda>g.
        write_output remainder g))
     else Inr g)))))))))))))"

text \<open>\<open>inputs[n - 1 - j]\<close> for \<open>j = 0..3\<close>: \<open>n\<close> is an \<open>int\<close>, a negative index is out of range.\<close>

definition batchnorm_weight :: "tgen \<Rightarrow> tgen res" where
  "batchnorm_weight g =
     foldE (\<lambda>j g.
        bindE (guardE (j < num_inputs g) OutOfRange) (\<lambda>_.
        read_input (tg_numPE g) (num_inputs g - 1 - j) g)) [0..<4] g"

definition generate_traffic_conv_batchnorm_weight :: "tgen \<Rightarrow> tgen res" where
  "generate_traffic_conv_batchnorm_weight g =
     bindE (split_dim g 1 0) (\<lambda>k.
     bindE (cdiv k (tg_numPE g)) (\<lambda>weight_round.
     bindE (split_dim g 0 1) (\<lambda>c.
     bindE (split_hw g) (\<lambda>hw.
     repeatE weight_round (\<lambda>g.
        bindE (if num_inputs g = 7 then read_input (tg_numPE g) 2 g else Inr g) (\<lambda>g.
        bindE (batchnorm_weight g) (\<lambda>g.
        repeatE c (\<lambda>g.
           bindE (read_input (tg_numPE g) 1 g) (\<lambda>g.
           repeatE hw (\<lambda>g.
              bindE (broadcast_input 0 g) (\<lambda>g.
              bindE (compute (tg_numPE g) g) (\<lambda>g.
              write_output (tg_numPE g) g))) g)) g))) g))))"

definition generate_traffic_conv_batchnorm_output :: "tgen \<Rightarrow> tgen res" where
  "generate_traffic_conv_batchnorm_output g =
     bindE (split_dim g 0 1) (\<lambda>c.
     bindE (split_dim g 1 0) (\<lambda>knum.
     bindE (split_hw g) (\<lambda>hw_mult.
     bindE (cdiv hw_mult (tg_numPE g)) (\<lambda>input_round.
     bindE (cmod hw_mult (tg_numPE g)) (\<lambda>input_remainder.
     bindE (repeatE c (\<lambda>g.
        bindE (repeatE input_round (\<lambda>g.
           bindE (read_input (tg_numPE g) 0 g) (\<lambda>g.
           repeatE knum (\<lambda>g.
              bindE (broadcast_input 1 g) (\<lambda>g.
              bindE (if num_inputs g = 7 then read_input (tg_numPE g) 2 g else Inr g) (\<lambda>g.
              bindE (batchnorm_weight g) (\<lambda>g.
              compute (tg_numPE g) g)))) g)) g) (\<lambda>g.
        if input_remainder \<noteq> 0 then
           bindE (read_input input_remainder 0 g) (\<lambda>g.
           bindE (if num_inputs g = 7 then read_input (tg_numPE g) 2 g else Inr g) (\<lambda>g.
           repeatE knum (\<lambda>g.
              bindE (broadcast_input 1 g) (\<lambda>g.
              bindE (if num_inputs g > 2 then read_input (tg_numPE g) 2 g else Inr g) (\<lambda>g.
              bindE (batchnorm_weight g) (\<lambda>g.
              compute input_remainder g)))) g))
        else Inr g)) g) (\<lambda>g.
     write_output (tg_numPE g) g))))))"

end
