(* ===== verification/Traffic_Inv.thy ===== *)
theory Traffic_Inv
  imports Traffic_Gen
begin

text \<open>
  Safety of the traffic that the operator functions emit.  The interface between the general
  functions and the operator functions is a locale: an invariant of the generator that the
  four general functions keep is kept by all nine operator functions.  It is interpreted on
  the invariant that every record is well formed and that all processing elements meet the
  same number of barriers.
\<close>

section \<open>The interface between the general functions and the operator functions\<close>

lemma safeE_repeat: "P s \<Longrightarrow> (\<And>u. P u \<Longrightarrow> safeE (body u) P) \<Longrightarrow> safeE (repeatE n body s) P"
  unfolding repeatE_def by (rule safeE_foldE)

lemma safeE_bind: "safeE m P \<Longrightarrow> (\<And>x. P x \<Longrightarrow> safeE (f x) Q) \<Longrightarrow> safeE (bindE m f) Q"
  by (auto elim: safeE_mono)

lemma safeE_bind_any: "(\<And>x. m = Inr x \<Longrightarrow> safeE (f x) Q) \<Longrightarrow> safeE (bindE m f) Q"
  by (cases m) auto

lemma cmod_le: "cmod a b = Inr m \<Longrightarrow> 0 < b \<Longrightarrow> m \<le> b"
proof -
  assume "cmod a b = Inr m" and b: "0 < b"
  then have m: "m = a smod b" by (auto simp: cmod_def split: if_splits)
  have "\<bar>a smod b\<bar> < \<bar>b\<bar>"
    using b by (simp add: signed_modulo_int_def abs_mult sgn_if split: if_splits)
  then show ?thesis using m b by simp
qed

lemma safeE_if_intro:
  "(b \<Longrightarrow> safeE m Q) \<Longrightarrow> (\<not> b \<Longrightarrow> safeE n Q) \<Longrightarrow> safeE (if b then m else n) Q"
  by simp

lemma safeE_Inr_intro: "Q x \<Longrightarrow> safeE (Inr x) Q"
  by simp

text \<open>
  What an operator function needs of the general functions to keep a property \<open>I\<close> of the
  generator: each of the four keeps it, when called for at most as many elements as there
  are processing elements.  Every operator function then keeps it.
\<close>

locale traffic_invariant =
  fixes I :: "tgen \<Rightarrow> bool" and N :: int
  assumes pos: "I g \<Longrightarrow> 0 < N"
    and numPE: "I g \<Longrightarrow> tg_numPE g = N"
    and remainder: "I g \<Longrightarrow> tg_remainder g \<le> N"
    and unicast_read_inv: "I g \<Longrightarrow> n \<le> N \<Longrightarrow> safeE (unicast_read n sz p g) I"
    and unicast_write_inv: "I g \<Longrightarrow> n \<le> N \<Longrightarrow> safeE (unicast_write n sz p g) I"
    and compute_inv: "I g \<Longrightarrow> n \<le> N \<Longrightarrow> safeE (compute n g) I"
    and broadcast_read_inv: "I g \<Longrightarrow> safeE (broadcast_read sz p g) I"
begin

lemma read_input_inv: "I g \<Longrightarrow> n \<le> N \<Longrightarrow> safeE (read_input n i g) I"
  unfolding read_input_def by (intro safeE_bind_any unicast_read_inv)

lemma broadcast_input_inv: "I g \<Longrightarrow> safeE (broadcast_input i g) I"
  unfolding broadcast_input_def by (intro safeE_bind_any broadcast_read_inv)

lemma broadcast_original_inv: "I g \<Longrightarrow> safeE (broadcast_original i g) I"
  unfolding broadcast_original_def by (intro safeE_bind_any broadcast_read_inv)

lemma write_output_inv: "I g \<Longrightarrow> n \<le> N \<Longrightarrow> safeE (write_output n g) I"
  unfolding write_output_def by (intro safeE_bind_any unicast_write_inv)

lemma write_output_sized_inv: "I g \<Longrightarrow> n \<le> N \<Longrightarrow> safeE (write_output_sized n sz g) I"
  unfolding write_output_sized_def by (intro safeE_bind_any unicast_write_inv)

lemma bind_state: "safeE m I \<Longrightarrow> (\<And>g. I g \<Longrightarrow> safeE (f g) I) \<Longrightarrow> safeE (bindE m f) I"
  by (rule safeE_bind)

lemma numPE_le: "I g \<Longrightarrow> tg_numPE g \<le> N"
  using numPE by simp

lemma cmod_numPE_le: "I g \<Longrightarrow> cmod a (tg_numPE g) = Inr m \<Longrightarrow> m \<le> N"
  using cmod_le [of a N m] numPE [of g] pos [of g] by simp

lemma batchnorm_weight_inv: "I g \<Longrightarrow> safeE (batchnorm_weight g) I"
  unfolding batchnorm_weight_def
  by (intro safeE_foldE safeE_bind_any read_input_inv numPE_le)

text \<open>
  The rules that take an operator function apart: values are bound without condition, the
  generator is bound with the invariant, loops keep the invariant.
\<close>

lemmas steps =
  safeE_bind_any [where ?'a = int] safeE_bind_any [where ?'a = unit] bind_state
  safeE_repeat safeE_foldE safeE_if_intro safeE_Inr_intro
  read_input_inv broadcast_input_inv broadcast_original_inv write_output_inv
  write_output_sized_inv compute_inv batchnorm_weight_inv numPE_le remainder

lemma element_wise: "I g \<Longrightarrow> safeE (generate_traffic_element_wise g) I"
  unfolding generate_traffic_element_wise_def by (intro steps)

lemma conv_weight_stationary: "I g \<Longrightarrow> safeE (generate_traffic_conv_weight_stationary g) I"
  unfolding generate_traffic_conv_weight_stationary_def by (intro steps)

lemma conv_output_stationary: "I g \<Longrightarrow> safeE (generate_traffic_conv_output_stationary g) I"
  unfolding generate_traffic_conv_output_stationary_def
  by (intro steps) (assumption | erule (1) cmod_numPE_le)+

lemma batchnorm: "I g \<Longrightarrow> safeE (generate_traffic_batchnorm g) I"
  unfolding generate_traffic_batchnorm_def batchnorm_split_c_def batchnorm_split_chw_def
    batchnorm_split_hw_def
  by (intro steps) (assumption | erule (1) cmod_numPE_le)+

lemma conv_weight_reduction: "I g \<Longrightarrow> safeE (generate_traffic_conv_weight_reduction g) I"
  unfolding generate_traffic_conv_weight_reduction_def by (intro steps)

lemma conv_output_reduction: "I g \<Longrightarrow> safeE (generate_traffic_conv_output_reduction g) I"
  unfolding generate_traffic_conv_output_reduction_def
  by (intro steps) (assumption | erule (1) cmod_numPE_le)+

lemma batchnorm_reduction: "I g \<Longrightarrow> safeE (generate_traffic_batchnorm_reduction g) I"
  unfolding generate_traffic_batchnorm_reduction_def
  by (intro steps) (assumption | erule (1) cmod_numPE_le)+

lemma conv_batchnorm_weight: "I g \<Longrightarrow> safeE (generate_traffic_conv_batchnorm_weight g) I"
  unfolding generate_traffic_conv_batchnorm_weight_def by (intro steps)

lemma conv_batchnorm_output: "I g \<Longrightarrow> safeE (generate_traffic_conv_batchnorm_output g) I"
  unfolding generate_traffic_conv_batchnorm_output_def
  by (intro steps) (assumption | erule (1) cmod_numPE_le)+

lemmas operator_functions =
  element_wise conv_weight_stationary conv_output_stationary batchnorm conv_weight_reduction
  conv_output_reduction batchnorm_reduction conv_batchnorm_weight conv_batchnorm_output

end

definition generators :: "(tgen \<Rightarrow> tgen res) list" where
  "generators =
     [generate_traffic_element_wise, generate_traffic_conv_weight_stationary,
      generate_traffic_conv_output_stationary, generate_traffic_batchnorm,
      generate_traffic_conv_weight_reduction, generate_traffic_conv_output_reduction,
      generate_traffic_batchnorm_reduction, generate_traffic_conv_batchnorm_weight,
      generate_traffic_conv_batchnorm_output]"

context traffic_invariant
begin

lemma generators_inv: "f \<in> set generators \<Longrightarrow> I g \<Longrightarrow> safeE (f g) I"
  using operator_functions [of g] by (auto simp: generators_def)

end

section \<open>Exact effect of the general functions\<close>

lemma push_traffic_simps [simp]:
  "tg_list (push_traffic t g) = tg_list g @ [t]"
  "tg_numSubgraph (push_traffic t g) = tg_numSubgraph g"
  "tg_split_node (push_traffic t g) = tg_split_node g"
  "tg_base_node (push_traffic t g) = tg_base_node g"
  "tg_numPE (push_traffic t g) = tg_numPE g"
  "tg_round (push_traffic t g) = tg_round g"
  "tg_remainder (push_traffic t g) = tg_remainder g"
  "tg_strategy (push_traffic t g) = tg_strategy g"
  "tg_heap (push_traffic t g) = tg_heap g"
  by (simp_all add: push_traffic_def)

lemma foldE_push:
  "foldE (\<lambda>i g. Inr (push_traffic (f i) g)) xs g = Inr (g\<lparr>tg_list := tg_list g @ map f xs\<rparr>)"
  by (induction xs arbitrary: g) (auto simp: push_traffic_def)

definition advance :: "tref \<Rightarrow> u64 \<Rightarrow> heap \<Rightarrow> heap" where
  "advance p a h = h[p := (h ! p)\<lparr>t_address := Some a\<rparr>]"

lemma push_advance_exact:
  assumes "p < length (tg_heap g)" and "t_address (tg_heap g ! p) = Some a"
  shows "push_advance mk sz p g =
     Inr (g\<lparr>tg_list := tg_list g @ [mk a], tg_heap := advance p (a + sz) (tg_heap g)\<rparr>)"
  using assms by (simp add: push_advance_def push_traffic_def advance_def)

lemma foldE_push_advance:
  assumes "p < length (tg_heap g)" and "t_address (tg_heap g ! p) = Some a"
  shows "foldE (\<lambda>i. push_advance (mk i) sz p) [0..<n] g =
     Inr (g\<lparr>tg_list := tg_list g @ map (\<lambda>i. mk i (a + of_nat i * sz)) [0..<n],
           tg_heap := advance p (a + of_nat n * sz) (tg_heap g)\<rparr>)"
proof (induction n)
  case 0
  have "(tg_heap g ! p)\<lparr>t_address := Some a\<rparr> = tg_heap g ! p" using assms(2) by simp
  then have "advance p a (tg_heap g) = tg_heap g" by (simp add: advance_def)
  then show ?case by simp
next
  case (Suc n)
  then show ?case
    using assms by (simp add: foldE_append push_advance_def advance_def push_traffic_def algebra_simps)
qed

lemma unicast_read_exact:
  assumes "p < length (tg_heap g)" and "t_address (tg_heap g ! p) = Some a"
  shows "unicast_read n sz p g =
     Inr (g\<lparr>tg_list := tg_list g @
             map (\<lambda>i. new_Traffic READ (0, int i) (1, 0) (a + of_nat i * sz) sz UNICAST UNICAST) [0..<nat n],
           tg_heap := advance p (a + of_nat (nat n) * sz) (tg_heap g)\<rparr>)"
  unfolding unicast_read_def by (rule foldE_push_advance [OF assms])

lemma unicast_write_exact:
  assumes "p < length (tg_heap g)" and "t_address (tg_heap g ! p) = Some a"
  shows "unicast_write n sz p g =
     Inr (g\<lparr>tg_list := tg_list g @
             map (\<lambda>i. new_Traffic WRITE (0, int i) (1, 0) (a + of_nat i * sz) sz UNICAST UNICAST) [0..<nat n],
           tg_heap := advance p (a + of_nat (nat n) * sz) (tg_heap g)\<rparr>)"
  unfolding unicast_write_def by (rule foldE_push_advance [OF assms])

lemma compute_exact:
  "compute n g = Inr (g\<lparr>tg_list := tg_list g @
     map (\<lambda>i. new_Traffic COMPUTE (0, int i) (1, 0) 0 0 UNICAST UNICAST) [0..<nat n]\<rparr>)"
  unfolding compute_def global_addr_def by (rule foldE_push)

lemma broadcast_read_exact:
  assumes "p < length (tg_heap g)" and "t_address (tg_heap g ! p) = Some a"
  shows "broadcast_read sz p g =
     Inr (g\<lparr>tg_list := tg_list g @ new_Traffic READ (0, 0) (1, 0) a sz UNICAST BROADCAST #
             map (\<lambda>i. new_Traffic SYNC (0, int i) (1, 0) 0 0 UNICAST UNICAST) [1..<nat (tg_numPE g)],
           tg_heap := advance p (a + sz) (tg_heap g)\<rparr>)"
  by (simp add: broadcast_read_def push_advance_exact [OF assms] foldE_push)

text \<open>When the address is not there to read, nothing is returned.\<close>

lemma push_advance_cases:
  "push_advance mk sz p g = Inr g' \<Longrightarrow>
     \<exists>a. p < length (tg_heap g) \<and> t_address (tg_heap g ! p) = Some a \<and>
       g' = g\<lparr>tg_list := tg_list g @ [mk a], tg_heap := advance p (a + sz) (tg_heap g)\<rparr>"
  by (auto simp: push_advance_def push_traffic_def advance_def)

lemma broadcast_read_cases:
  assumes "broadcast_read sz p g = Inr g'"
  obtains a where "p < length (tg_heap g)" "t_address (tg_heap g ! p) = Some a"
    "g' = g\<lparr>tg_list := tg_list g @ new_Traffic READ (0, 0) (1, 0) a sz UNICAST BROADCAST #
             map (\<lambda>i. new_Traffic SYNC (0, int i) (1, 0) 0 0 UNICAST UNICAST) [1..<nat (tg_numPE g)],
           tg_heap := advance p (a + sz) (tg_heap g)\<rparr>"
proof -
  from assms obtain g1 where "push_advance (\<lambda>a. new_Traffic READ (0, 0) (1, 0) a sz UNICAST BROADCAST) sz p g = Inr g1"
    by (auto simp: broadcast_read_def)
  then obtain a where a: "p < length (tg_heap g)" "t_address (tg_heap g ! p) = Some a"
    using push_advance_cases by blast
  then show ?thesis using that assms broadcast_read_exact [OF a] by simp
qed

section \<open>Traffic of one processing element, and barriers\<close>

text \<open>
  A broadcast is a rendezvous of all processing elements: element 0 issues a \<open>READ\<close> whose
  response is a broadcast, every other element has a \<open>SYNC\<close>.  Both are barriers.
\<close>

definition is_barrier :: "traffic \<Rightarrow> bool" where
  "is_barrier t \<longleftrightarrow> tr_type t = SYNC \<or> tr_response t = BROADCAST"

definition barriers :: "int \<Rightarrow> traffic list \<Rightarrow> nat" where
  "barriers i l = length (filter (\<lambda>t. tr_src t = (0, i) \<and> is_barrier t) l)"

definition well_formed_traffic :: "int \<Rightarrow> traffic \<Rightarrow> bool" where
  "well_formed_traffic N t \<longleftrightarrow>
     fst (tr_src t) = 0 \<and> 0 \<le> snd (tr_src t) \<and> snd (tr_src t) < N \<and> tr_dest t = (1, 0) \<and>
     tr_request t = UNICAST \<and>
     (is_barrier t \<longrightarrow> (if snd (tr_src t) = 0 then tr_type t = READ \<and> tr_response t = BROADCAST
                        else tr_type t = SYNC \<and> tr_response t = UNICAST))"

definition balanced :: "int \<Rightarrow> traffic list \<Rightarrow> bool" where
  "balanced N l \<longleftrightarrow>
     list_all (well_formed_traffic N) l \<and> (\<forall>i. 0 \<le> i \<and> i < N \<longrightarrow> barriers i l = barriers 0 l)"

definition bal_inv :: "int \<Rightarrow> tgen \<Rightarrow> bool" where
  "bal_inv N g \<longleftrightarrow> 0 < N \<and> tg_numPE g = N \<and> tg_remainder g \<le> N \<and> balanced N (tg_list g)"

lemma barriers_append [simp]: "barriers i (xs @ ys) = barriers i xs + barriers i ys"
  by (simp add: barriers_def)

lemma length_filter_upt: "length (filter (\<lambda>j. int j = i) [a..<n]) = (if int a \<le> i \<and> i < int n then 1 else 0)"
  by (induction n) auto

lemma barriers_sync:
  "barriers i (map (\<lambda>j. new_Traffic SYNC (0, int j) d 0 0 UNICAST UNICAST) [a..<n]) =
     (if int a \<le> i \<and> i < int n then 1 else 0)"
  unfolding barriers_def
  by (simp add: filter_map comp_def new_Traffic_def is_barrier_def length_filter_upt)

lemma balanced_snoc_plain:
  assumes "balanced N l" and "well_formed_traffic N t" and "\<not> is_barrier t"
  shows "balanced N (l @ [t])"
proof -
  have "barriers i [t] = 0" for i using assms(3) by (simp add: barriers_def)
  then have "barriers i (l @ [t]) = barriers i l" for i by simp
  moreover have "list_all (well_formed_traffic N) (l @ [t])"
    using assms(1,2) by (simp add: balanced_def)
  ultimately show ?thesis using assms(1) unfolding balanced_def by presburger
qed

lemma balanced_broadcast:
  assumes "balanced N l" and "0 < N"
  shows "balanced N (l @ new_Traffic READ (0, 0) (1, 0) a sz UNICAST BROADCAST #
     map (\<lambda>j. new_Traffic SYNC (0, int j) (1, 0) 0 0 UNICAST UNICAST) [1..<nat N])"
proof -
  let ?b = "new_Traffic READ (0, 0) (1, 0) a sz UNICAST BROADCAST"
  let ?s = "map (\<lambda>j. new_Traffic SYNC (0, int j) (1, 0) 0 0 UNICAST UNICAST) [1..<nat N]"
  have wf: "list_all (well_formed_traffic N) (?b # ?s)"
    using assms(2) by (auto simp: list_all_iff well_formed_traffic_def new_Traffic_def is_barrier_def)
  have one: "barriers i (?b # ?s) = 1" if "0 \<le> i" "i < N" for i
  proof -
    have "barriers i (?b # ?s) = barriers i [?b] + barriers i ?s"
      by (simp add: barriers_def)
    moreover have "barriers i [?b] = (if i = 0 then 1 else 0)"
      by (auto simp: barriers_def new_Traffic_def is_barrier_def)
    ultimately show ?thesis using that by (auto simp: barriers_sync)
  qed
  have "barriers i (l @ ?b # ?s) = barriers 0 (l @ ?b # ?s)" if "0 \<le> i" "i < N" for i
  proof -
    have "barriers i l = barriers 0 l" using assms(1) that unfolding balanced_def by blast
    then show ?thesis unfolding barriers_append using one that assms(2) by (simp only: order_refl)
  qed
  moreover have "list_all (well_formed_traffic N) (l @ ?b # ?s)"
    using wf assms(1) unfolding balanced_def list_all_append by blast
  ultimately show ?thesis unfolding balanced_def by blast
qed

lemma bal_inv_push:
  assumes "bal_inv N g" and "well_formed_traffic N t" and "\<not> is_barrier t"
  shows "bal_inv N (push_traffic t g)"
  using assms by (auto simp: bal_inv_def intro: balanced_snoc_plain)

lemma bal_inv_push_advance:
  assumes "bal_inv N g" and "\<And>a. well_formed_traffic N (mk a) \<and> \<not> is_barrier (mk a)"
  shows "safeE (push_advance mk sz p g) (bal_inv N)"
  unfolding safeE_iff
  using assms by (auto dest!: push_advance_cases simp: bal_inv_def intro!: balanced_snoc_plain)

interpretation bal: traffic_invariant "bal_inv N" N for N
proof
  fix g n sz p
  assume inv: "bal_inv N g"
  then show "0 < N" and "tg_numPE g = N" and "tg_remainder g \<le> N" by (auto simp: bal_inv_def)
  have range: "0 \<le> int i \<and> int i < N" if "i \<in> set [0..<nat n]" "n \<le> N" for i :: nat
    using that by auto
  show "safeE (unicast_read n sz p g) (bal_inv N)" if "n \<le> N"
    unfolding unicast_read_def
    by (rule safeE_foldE, rule inv, rule bal_inv_push_advance, assumption)
      (use that range in \<open>auto simp: well_formed_traffic_def new_Traffic_def is_barrier_def\<close>)
  show "safeE (unicast_write n sz p g) (bal_inv N)" if "n \<le> N"
    unfolding unicast_write_def
    by (rule safeE_foldE, rule inv, rule bal_inv_push_advance, assumption)
      (use that range in \<open>auto simp: well_formed_traffic_def new_Traffic_def is_barrier_def\<close>)
  show "safeE (compute n g) (bal_inv N)" if "n \<le> N"
    unfolding compute_def
    by (rule safeE_foldE, rule inv, rule safeE_Inr_intro, rule bal_inv_push, assumption)
      (use that range in \<open>auto simp: well_formed_traffic_def new_Traffic_def is_barrier_def\<close>)
  show "safeE (broadcast_read sz p g) (bal_inv N)"
    unfolding safeE_iff
  proof (intro allI impI)
    fix g' assume "broadcast_read sz p g = Inr g'"
    then show "bal_inv N g'"
      by (rule broadcast_read_cases) (use inv balanced_broadcast in \<open>simp add: bal_inv_def\<close>)
  qed
qed

end
