(* ===== verification/Traffic_Cost.thy ===== *)
theory Traffic_Cost
  imports Traffic_Inv
begin

text \<open>
  How much traffic the operator functions emit.  A cost calculus (\<open>progress\<close>, \<open>adds\<close>) follows
  the general functions exactly: which tensor address moved how often, and how many records
  of each request type were pushed.  Its rules mirror sequencing, loops and branches, so the
  totals of an operator function are read off its text.
\<close>

section \<open>What no generator changes\<close>

definition strip :: "heap \<Rightarrow> heap" where
  "strip h = map (\<lambda>t. t\<lparr>t_address := None\<rparr>) h"

definition static :: "tgen \<Rightarrow> tgen" where
  "static g = g\<lparr>tg_list := [], tg_heap := strip (tg_heap g)\<rparr>"

lemma strip_advance [simp]: "strip (advance p a h) = strip h"
proof (cases "p < length h")
  case True
  then have "(map (\<lambda>t. t\<lparr>t_address := None\<rparr>) h)[p := (h ! p)\<lparr>t_address := None\<rparr>] = map (\<lambda>t. t\<lparr>t_address := None\<rparr>) h"
    by (metis list_update_id nth_map)
  then show ?thesis by (simp add: strip_def advance_def map_update)
qed (simp add: advance_def list_update_beyond)

lemma static_list [simp]: "static (g\<lparr>tg_list := l\<rparr>) = static g"
  by (simp add: static_def)

lemma static_heap: "strip h = strip (tg_heap g) \<Longrightarrow> static (g\<lparr>tg_heap := h\<rparr>) = static g"
  by (simp add: static_def)

lemma static_list_heap [simp]:
  "strip h = strip (tg_heap g) \<Longrightarrow> static (g\<lparr>tg_list := l, tg_heap := h\<rparr>) = static g"
  by (simp add: static_def)

lemma staticD:
  assumes "static g = static g0"
  shows "tg_numPE g = tg_numPE g0" "tg_round g = tg_round g0" "tg_remainder g = tg_remainder g0"
    "tg_split_node g = tg_split_node g0" "tg_strategy g = tg_strategy g0"
    "length (tg_heap g) = length (tg_heap g0)" "num_inputs g = num_inputs g0"
    "strip (tg_heap g) = strip (tg_heap g0)"
proof -
  show "tg_numPE g = tg_numPE g0" using arg_cong [OF assms, of tg_numPE] by (simp add: static_def)
  show "tg_round g = tg_round g0" using arg_cong [OF assms, of tg_round] by (simp add: static_def)
  show "tg_remainder g = tg_remainder g0" using arg_cong [OF assms, of tg_remainder] by (simp add: static_def)
  show sn: "tg_split_node g = tg_split_node g0" using arg_cong [OF assms, of tg_split_node] by (simp add: static_def)
  show "tg_strategy g = tg_strategy g0" using arg_cong [OF assms, of tg_strategy] by (simp add: static_def)
  show st: "strip (tg_heap g) = strip (tg_heap g0)" using arg_cong [OF assms, of tg_heap] by (simp add: static_def)
  show "length (tg_heap g) = length (tg_heap g0)" using arg_cong [OF st, of length] by (simp add: strip_def)
  show "num_inputs g = num_inputs g0" using sn by (simp add: num_inputs_def)
qed

lemma strip_size:
  assumes "strip h = strip h0" and "p < length h0"
  shows "t_size (h ! p) = t_size (h0 ! p)"
proof -
  have len: "length h = length h0" using arg_cong [OF assms(1), of length] by (simp add: strip_def)
  have "t_size (strip h ! p) = t_size (strip h0 ! p)" using assms(1) by simp
  then show ?thesis using assms(2) len by (simp add: strip_def)
qed

definition frame_inv :: "tgen \<Rightarrow> int \<Rightarrow> tgen \<Rightarrow> bool" where
  "frame_inv s N g \<longleftrightarrow> 0 < N \<and> tg_numPE g = N \<and> tg_remainder g \<le> N \<and> static g = s"

lemma frame_inv_push_advance: "frame_inv s N g \<Longrightarrow> safeE (push_advance mk sz p g) (frame_inv s N)"
  by (auto simp: safeE_iff frame_inv_def dest!: push_advance_cases)

interpretation frm: traffic_invariant "frame_inv s N" N for s N
proof
  fix g n sz p
  assume inv: "frame_inv s N g"
  then show "0 < N" and "tg_numPE g = N" and "tg_remainder g \<le> N" by (auto simp: frame_inv_def)
  show "safeE (unicast_read n sz p g) (frame_inv s N)"
    unfolding unicast_read_def
    by (rule safeE_foldE, rule inv, rule frame_inv_push_advance)
  show "safeE (unicast_write n sz p g) (frame_inv s N)"
    unfolding unicast_write_def
    by (rule safeE_foldE, rule inv, rule frame_inv_push_advance)
  show "safeE (compute n g) (frame_inv s N)"
    using inv by (simp add: compute_exact frame_inv_def)
  show "safeE (broadcast_read sz p g) (frame_inv s N)"
    unfolding safeE_iff
  proof (intro allI impI)
    fix g' assume "broadcast_read sz p g = Inr g'"
    then show "frame_inv s N g'"
      by (rule broadcast_read_cases) (use inv in \<open>simp add: frame_inv_def\<close>)
  qed
qed

section \<open>Counting accesses\<close>

text \<open>
  A generator is \<open>ready\<close> when the tensors of its node are allocated, sized and placed.
  \<open>progress g0 acc num g\<close>: starting from \<open>g0\<close>, tensor \<open>p\<close> was accessed \<open>acc p\<close> times (its
  address moved by that many of its sizes) and \<open>num ty\<close> records of type \<open>ty\<close> were emitted.
\<close>

definition ready :: "tgen \<Rightarrow> bool" where
  "ready g \<longleftrightarrow> (\<forall>p \<in> set (n_inputs (tg_split_node g) @ n_outputs (tg_split_node g)).
     p < length (tg_heap g) \<and> t_size (tg_heap g ! p) \<noteq> None \<and> t_address (tg_heap g ! p) \<noteq> None) \<and>
     n_outputs (tg_split_node g) \<noteq> []"

definition num_type :: "RequestType \<Rightarrow> traffic list \<Rightarrow> nat" where
  "num_type ty l = length (filter (\<lambda>t. tr_type t = ty) l)"

definition step_size :: "tgen \<Rightarrow> tref \<Rightarrow> u64" where
  "step_size g p = of_int (the (t_size (tg_heap g ! p)))"

definition progress :: "tgen \<Rightarrow> (tref \<Rightarrow> nat) \<Rightarrow> (RequestType \<Rightarrow> nat) \<Rightarrow> tgen \<Rightarrow> bool" where
  "progress g0 acc num g \<longleftrightarrow> static g = static g0 \<and>
     (\<forall>p < length (tg_heap g0). t_address (tg_heap g ! p) =
        map_option (\<lambda>a. a + of_nat (acc p) * step_size g0 p) (t_address (tg_heap g0 ! p))) \<and>
     (\<forall>ty. num_type ty (tg_list g) = num_type ty (tg_list g0) + num ty)"

lemma progress_refl: "progress g (\<lambda>_. 0) (\<lambda>_. 0) g"
  by (simp add: progress_def option.map_ident)

lemma num_type_append [simp]: "num_type ty (xs @ ys) = num_type ty xs + num_type ty ys"
  by (simp add: num_type_def)

lemma num_type_Cons [simp]: "num_type ty (x # xs) = (if tr_type x = ty then 1 else 0) + num_type ty xs"
  by (simp add: num_type_def)

lemma num_type_map:
  "(\<And>i. i \<in> set is \<Longrightarrow> tr_type (f i) = ty') \<Longrightarrow> num_type ty (map f is) = (if ty = ty' then length is else 0)"
  by (induction "is") (auto simp: num_type_def)

lemma tr_type_new [simp]: "tr_type (new_Traffic ty s d a z q r) = ty"
  by (simp add: new_Traffic_def)

text \<open>\<open>adds g0 body acc num\<close>: from any state of progress, \<open>body\<close> returns and adds exactly that.\<close>

definition adds :: "tgen \<Rightarrow> (tgen \<Rightarrow> tgen res) \<Rightarrow> (tref \<Rightarrow> nat) \<Rightarrow> (RequestType \<Rightarrow> nat) \<Rightarrow> bool" where
  "adds g0 body acc num \<longleftrightarrow> (\<forall>g a n. progress g0 a n g \<longrightarrow>
     okE (body g) (progress g0 (\<lambda>p. a p + acc p) (\<lambda>ty. n ty + num ty)))"

lemma adds_bind:
  assumes "adds g0 m a1 n1" and "adds g0 f a2 n2"
  shows "adds g0 (\<lambda>g. bindE (m g) f) (\<lambda>p. a1 p + a2 p) (\<lambda>ty. n1 ty + n2 ty)"
  unfolding adds_def okE_bindE
proof (intro allI impI)
  fix g a n assume "progress g0 a n g"
  then have "okE (m g) (progress g0 (\<lambda>p. a p + a1 p) (\<lambda>ty. n ty + n1 ty))"
    using assms(1) by (simp add: adds_def)
  then show "okE (m g) (\<lambda>x. okE (f x) (progress g0 (\<lambda>p. a p + (a1 p + a2 p)) (\<lambda>ty. n ty + (n1 ty + n2 ty))))"
    by (rule okE_mono) (use assms(2) in \<open>fastforce simp: adds_def add.assoc\<close>)
qed

lemma adds_repeat:
  assumes "adds g0 body acc num"
  shows "adds g0 (repeatE k body) (\<lambda>p. nat k * acc p) (\<lambda>ty. nat k * num ty)"
  unfolding adds_def repeatE_def
proof (intro allI impI)
  fix g a n assume *: "progress g0 a n g"
  show "okE (foldE (\<lambda>_. body) [0..<nat k] g)
      (progress g0 (\<lambda>p. a p + nat k * acc p) (\<lambda>ty. n ty + nat k * num ty))"
  proof (rule okE_for [where P = "\<lambda>i. progress g0 (\<lambda>p. a p + i * acc p) (\<lambda>ty. n ty + i * num ty)"])
    fix i u assume "progress g0 (\<lambda>p. a p + i * acc p) (\<lambda>ty. n ty + i * num ty) u"
    then have "okE (body u) (progress g0 (\<lambda>p. (a p + i * acc p) + acc p) (\<lambda>ty. (n ty + i * num ty) + num ty))"
      using assms by (simp add: adds_def)
    then show "okE (body u) (progress g0 (\<lambda>p. a p + Suc i * acc p) (\<lambda>ty. n ty + Suc i * num ty))"
      by (simp add: algebra_simps)
  qed (use * in simp)
qed

lemma adds_skip: "adds g0 Inr (\<lambda>_. 0) (\<lambda>_. 0)"
  by (simp add: adds_def)

lemma adds_if:
  assumes "c \<Longrightarrow> adds g0 m a1 n1" and "\<And>g. static g = static g0 \<Longrightarrow> b g = c"
  shows "adds g0 (\<lambda>g. if b g then m g else Inr g) (\<lambda>p. if c then a1 p else 0) (\<lambda>ty. if c then n1 ty else 0)"
  using assms by (cases c) (auto simp: adds_def progress_def)

lemma adds_okE: "adds g body acc num \<Longrightarrow> okE (body g) (progress g acc num)"
  using progress_refl [of g] by (fastforce simp: adds_def)

lemma adds_static:
  assumes "adds g0 body acc num" and "\<And>g. static g = static g0 \<Longrightarrow> body' g = body g"
  shows "adds g0 body' acc num"
  using assms by (simp add: adds_def progress_def)

definition avail :: "tgen \<Rightarrow> tref \<Rightarrow> bool" where
  "avail g p \<longleftrightarrow> p < length (tg_heap g) \<and> t_size (tg_heap g ! p) \<noteq> None \<and> t_address (tg_heap g ! p) \<noteq> None"

lemma progress_avail:
  assumes "progress g0 a n g" and "avail g0 p"
  obtains ad where "p < length (tg_heap g)" "t_address (tg_heap g ! p) = Some ad"
    "t_size (tg_heap g ! p) = Some (the (t_size (tg_heap g0 ! p)))"
    "tg_split_node g = tg_split_node g0" "tg_numPE g = tg_numPE g0"
proof -
  have st: "static g = static g0" using assms(1) by (simp add: progress_def)
  have p: "p < length (tg_heap g0)" using assms(2) by (simp add: avail_def)
  have "t_size (tg_heap g ! p) = t_size (tg_heap g0 ! p)"
    by (rule strip_size [OF staticD(8) [OF st] p])
  moreover have "\<exists>ad. t_address (tg_heap g ! p) = Some ad"
    using assms p by (auto simp: progress_def avail_def)
  ultimately show ?thesis using that staticD [OF st] p assms(2) by (auto simp: avail_def)
qed

text \<open>A burst of \<open>k\<close> accesses to tensor \<open>p\<close>, emitting the records \<open>l\<close>.\<close>

lemma progress_burst:
  assumes "progress g0 a n g" and "avail g0 p" and "t_address (tg_heap g ! p) = Some ad"
    and "num' = (\<lambda>ty. num_type ty l)" and "acc' = (\<lambda>q. if q = p then k else 0)"
  shows "progress g0 (\<lambda>q. a q + acc' q) (\<lambda>ty. n ty + num' ty)
     (g\<lparr>tg_list := tg_list g @ l,
        tg_heap := advance p (ad + of_nat k * of_int (the (t_size (tg_heap g0 ! p)))) (tg_heap g)\<rparr>)"
proof -
  have st: "static g = static g0" using assms(1) by (simp add: progress_def)
  have len: "length (tg_heap g) = length (tg_heap g0)" by (rule staticD(6) [OF st])
  have addr: "t_address (tg_heap g ! q) =
      map_option (\<lambda>x. x + of_nat (a q) * step_size g0 q) (t_address (tg_heap g0 ! q))"
    if "q < length (tg_heap g0)" for q
    using assms(1) that by (simp add: progress_def)
  have "t_address (advance p (ad + of_nat k * step_size g0 p) (tg_heap g) ! q) =
      map_option (\<lambda>x. x + of_nat (a q + acc' q) * step_size g0 q) (t_address (tg_heap g0 ! q))"
    if q: "q < length (tg_heap g0)" for q
  proof (cases "q = p")
    case True
    then show ?thesis
      using addr [OF q] assms(3,5) q len
      by (cases "t_address (tg_heap g0 ! q)") (auto simp: advance_def algebra_simps)
  qed (use addr [OF q] assms(5) in \<open>simp add: advance_def\<close>)
  moreover have "\<forall>ty. num_type ty (tg_list g @ l) = num_type ty (tg_list g0) + (n ty + num' ty)"
    using assms(1,4) by (simp add: progress_def)
  ultimately show ?thesis using st by (simp add: progress_def step_size_def)
qed

abbreviation only :: "'a \<Rightarrow> nat \<Rightarrow> 'a \<Rightarrow> nat" where
  "only x k \<equiv> (\<lambda>y. if y = x then k else 0)"

lemma num_type_burst:
  "num_type ty (map (\<lambda>i. new_Traffic ty' (f i) (d i) (ad i) z q r) xs) = only ty' (length xs) ty"
  by (subst num_type_map [where ty' = ty']) auto

lemma adds_unicast_read:
  assumes "avail g0 p" and "sz = of_int (the (t_size (tg_heap g0 ! p)))"
  shows "adds g0 (unicast_read k sz p) (only p (nat k)) (only READ (nat k))"
  unfolding adds_def
proof (intro allI impI)
  fix g a n assume pr: "progress g0 a n g"
  from pr assms(1) obtain ad where ad: "p < length (tg_heap g)" "t_address (tg_heap g ! p) = Some ad"
    by (rule progress_avail)
  show "okE (unicast_read k sz p g) (progress g0 (\<lambda>q. a q + only p (nat k) q) (\<lambda>ty. n ty + only READ (nat k) ty))"
    unfolding unicast_read_exact [OF ad] okE_Inr assms(2)
    by (rule progress_burst [OF pr assms(1) ad(2) _ refl]) (simp add: num_type_burst fun_eq_iff)
qed

lemma adds_unicast_write:
  assumes "avail g0 p" and "sz = of_int (the (t_size (tg_heap g0 ! p)))"
  shows "adds g0 (unicast_write k sz p) (only p (nat k)) (only WRITE (nat k))"
  unfolding adds_def
proof (intro allI impI)
  fix g a n assume pr: "progress g0 a n g"
  from pr assms(1) obtain ad where ad: "p < length (tg_heap g)" "t_address (tg_heap g ! p) = Some ad"
    by (rule progress_avail)
  show "okE (unicast_write k sz p g) (progress g0 (\<lambda>q. a q + only p (nat k) q) (\<lambda>ty. n ty + only WRITE (nat k) ty))"
    unfolding unicast_write_exact [OF ad] okE_Inr assms(2)
    by (rule progress_burst [OF pr assms(1) ad(2) _ refl]) (simp add: num_type_burst fun_eq_iff)
qed

lemma adds_broadcast_read:
  assumes "avail g0 p" and "sz = of_int (the (t_size (tg_heap g0 ! p)))"
  shows "adds g0 (broadcast_read sz p) (only p 1)
     (\<lambda>ty. only READ 1 ty + only SYNC (nat (tg_numPE g0) - 1) ty)"
  unfolding adds_def
proof (intro allI impI)
  fix g a n assume pr: "progress g0 a n g"
  from pr assms(1) obtain ad where ad: "p < length (tg_heap g)" "t_address (tg_heap g ! p) = Some ad"
    and N: "tg_numPE g = tg_numPE g0"
    by (rule progress_avail)
  have "progress g0 (\<lambda>q. a q + only p 1 q) (\<lambda>ty. n ty + (only READ 1 ty + only SYNC (nat (tg_numPE g0) - 1) ty))
     (g\<lparr>tg_list := tg_list g @ new_Traffic READ (0, 0) (1, 0) ad sz UNICAST BROADCAST #
          map (\<lambda>i. new_Traffic SYNC (0, int i) (1, 0) 0 0 UNICAST UNICAST) [1..<nat (tg_numPE g)],
        tg_heap := advance p (ad + of_nat 1 * of_int (the (t_size (tg_heap g0 ! p)))) (tg_heap g)\<rparr>)"
    by (rule progress_burst [OF pr assms(1) ad(2) _ refl]) (auto simp: num_type_burst N fun_eq_iff)
  then show "okE (broadcast_read sz p g) (progress g0 (\<lambda>q. a q + only p 1 q)
      (\<lambda>ty. n ty + (only READ 1 ty + only SYNC (nat (tg_numPE g0) - 1) ty)))"
    unfolding broadcast_read_exact [OF ad] okE_Inr assms(2) by simp
qed

lemma adds_compute: "adds g0 (compute k) (\<lambda>_. 0) (only COMPUTE (nat k))"
  unfolding adds_def compute_exact by (simp add: progress_def num_type_burst)

section \<open>The calls of the operator functions\<close>

lemma size_of_static:
  assumes "avail g0 p" and "static g = static g0"
  shows "size_of p g = Inr (the (t_size (tg_heap g0 ! p)))"
  using assms(1) strip_size [OF staticD(8) [OF assms(2)], of p] staticD(6) [OF assms(2)]
  by (auto simp: avail_def size_of_def)

lemma ready_input: "ready g \<Longrightarrow> i < num_inputs g \<Longrightarrow> avail g (n_inputs (tg_split_node g) ! i)"
  by (simp add: ready_def avail_def num_inputs_def)

lemma ready_output: "ready g \<Longrightarrow> avail g (n_outputs (tg_split_node g) ! 0)"
  by (simp add: ready_def avail_def)

abbreviation inp :: "tgen \<Rightarrow> nat \<Rightarrow> tref" where
  "inp g i \<equiv> n_inputs (tg_split_node g) ! i"

abbreviation outp :: "tgen \<Rightarrow> tref" where
  "outp g \<equiv> n_outputs (tg_split_node g) ! 0"

lemma adds_read_input:
  assumes "ready g0" and "i < num_inputs g0"
  shows "adds g0 (read_input k i) (only (inp g0 i) (nat k)) (only READ (nat k))"
proof (rule adds_static [OF adds_unicast_read [OF ready_input [OF assms] refl]])
  fix g assume st: "static g = static g0"
  show "read_input k i g = unicast_read k (of_int (the (t_size (tg_heap g0 ! inp g0 i)))) (inp g0 i) g"
    using assms(2) unfolding read_input_def input_at_def num_inputs_def staticD(4) [OF st]
    by (simp add: vec_at_def size_of_static [OF ready_input [OF assms] st])
qed

lemma adds_broadcast_input:
  assumes "ready g0" and "i < num_inputs g0"
  shows "adds g0 (broadcast_input i) (only (inp g0 i) 1)
     (\<lambda>ty. only READ 1 ty + only SYNC (nat (tg_numPE g0) - 1) ty)"
proof (rule adds_static [OF adds_broadcast_read [OF ready_input [OF assms] refl]])
  fix g assume st: "static g = static g0"
  show "broadcast_input i g = broadcast_read (of_int (the (t_size (tg_heap g0 ! inp g0 i)))) (inp g0 i) g"
    using assms(2) unfolding broadcast_input_def input_at_def num_inputs_def staticD(4) [OF st]
    by (simp add: vec_at_def size_of_static [OF ready_input [OF assms] st])
qed

lemma output_at_static:
  assumes "ready g0" and "static g = static g0"
  shows "output_at (tg_split_node g) 0 = Inr (outp g0)"
  using assms(1) unfolding output_at_def staticD(4) [OF assms(2)] by (simp add: ready_def vec_at_def)

lemma adds_write_output_sized:
  assumes "ready g0" and "sz = the (t_size (tg_heap g0 ! outp g0))"
  shows "adds g0 (write_output_sized k sz) (only (outp g0) (nat k)) (only WRITE (nat k))"
proof (rule adds_static [OF adds_unicast_write [OF ready_output [OF assms(1)] refl]])
  fix g assume st: "static g = static g0"
  show "write_output_sized k sz g = unicast_write k (of_int (the (t_size (tg_heap g0 ! outp g0)))) (outp g0) g"
    unfolding write_output_sized_def by (simp add: output_at_static [OF assms(1) st] assms(2))
qed

lemma adds_write_output:
  assumes "ready g0"
  shows "adds g0 (write_output k) (only (outp g0) (nat k)) (only WRITE (nat k))"
proof (rule adds_static [OF adds_unicast_write [OF ready_output [OF assms] refl]])
  fix g assume st: "static g = static g0"
  show "write_output k g = unicast_write k (of_int (the (t_size (tg_heap g0 ! outp g0)))) (outp g0) g"
    unfolding write_output_def
    by (simp add: output_at_static [OF assms st] size_of_static [OF ready_output [OF assms] st])
qed

text \<open>The same calls for as many elements as there are processing elements.\<close>

lemma adds_numPE:
  assumes "adds g0 (f (tg_numPE g0)) acc num"
  shows "adds g0 (\<lambda>g. f (tg_numPE g) g) acc num"
  by (rule adds_static [OF assms]) (drule staticD(1), simp)

lemma adds_remainder:
  assumes "adds g0 (f (tg_remainder g0)) acc num"
  shows "adds g0 (\<lambda>g. f (tg_remainder g) g) acc num"
  by (rule adds_static [OF assms]) (drule staticD(3), simp)

lemma adds_cond:
  assumes "c \<Longrightarrow> adds g0 m a1 n1"
  shows "adds g0 (\<lambda>g. if c then m g else Inr g) (\<lambda>p. if c then a1 p else 0) (\<lambda>ty. if c then n1 ty else 0)"
  by (rule adds_if [OF assms]) auto

lemma adds_if_more_inputs:
  assumes "num_inputs g0 > j \<Longrightarrow> adds g0 m a1 n1"
  shows "adds g0 (\<lambda>g. if num_inputs g > j then m g else Inr g)
     (\<lambda>p. if num_inputs g0 > j then a1 p else 0) (\<lambda>ty. if num_inputs g0 > j then n1 ty else 0)"
  by (rule adds_if [OF assms]) (auto dest: staticD(7))

lemma adds_if_inputs:
  assumes "num_inputs g0 = j \<Longrightarrow> adds g0 m a1 n1"
  shows "adds g0 (\<lambda>g. if num_inputs g = j then m g else Inr g)
     (\<lambda>p. if num_inputs g0 = j then a1 p else 0) (\<lambda>ty. if num_inputs g0 = j then n1 ty else 0)"
  by (rule adds_if [OF assms]) (auto dest: staticD(7))

lemma adds_if_remainder:
  assumes "tg_remainder g0 \<noteq> 0 \<Longrightarrow> adds g0 m a1 n1"
  shows "adds g0 (\<lambda>g. if tg_remainder g \<noteq> 0 then m g else Inr g)
     (\<lambda>p. if tg_remainder g0 \<noteq> 0 then a1 p else 0) (\<lambda>ty. if tg_remainder g0 \<noteq> 0 then n1 ty else 0)"
  by (rule adds_if [OF assms]) (auto dest: staticD(3))

lemma adds_fold:
  assumes "\<And>i. i \<in> set xs \<Longrightarrow> adds g0 (f i) (acc i) (num i)"
  shows "adds g0 (foldE f xs) (\<lambda>p. \<Sum>i\<leftarrow>xs. acc i p) (\<lambda>ty. \<Sum>i\<leftarrow>xs. num i ty)"
  using assms
proof (induction xs)
  case Nil
  then show ?case using adds_skip [of g0] by simp
next
  case (Cons x xs)
  then show ?case using adds_bind [of g0 "f x" _ _ "foldE f xs"] by simp
qed

lemma adds_eq: "adds g0 f a n \<Longrightarrow> a = a' \<Longrightarrow> n = n' \<Longrightarrow> adds g0 f a' n'"
  by simp

text \<open>Reading, or broadcasting, inputs \<open>j\<close> onwards.\<close>

definition each_input :: "tgen \<Rightarrow> nat \<Rightarrow> nat \<Rightarrow> tref \<Rightarrow> nat" where
  "each_input g j k p = k * length (filter (\<lambda>i. inp g i = p) [j..<num_inputs g])"

lemma each_input_sum: "(\<Sum>i\<leftarrow>xs. if p = inp g i then k else 0) = k * length (filter (\<lambda>i. inp g i = p) xs)"
  by (induction xs) auto

lemma adds_read_inputs:
  assumes "ready g0"
  shows "adds g0 (\<lambda>g. foldE (read_input (tg_numPE g)) [j..<num_inputs g] g)
     (each_input g0 j (nat (tg_numPE g0))) (only READ (nat (tg_numPE g0) * (num_inputs g0 - j)))"
proof -
  have "adds g0 (foldE (read_input (tg_numPE g0)) [j..<num_inputs g0])
     (\<lambda>p. \<Sum>i\<leftarrow>[j..<num_inputs g0]. only (inp g0 i) (nat (tg_numPE g0)) p)
     (\<lambda>ty. \<Sum>i\<leftarrow>[j..<num_inputs g0]. only READ (nat (tg_numPE g0)) ty)"
    by (rule adds_fold, rule adds_read_input [OF assms]) simp
  then have "adds g0 (foldE (read_input (tg_numPE g0)) [j..<num_inputs g0])
     (each_input g0 j (nat (tg_numPE g0))) (only READ (nat (tg_numPE g0) * (num_inputs g0 - j)))"
    by (rule adds_eq) (auto simp: fun_eq_iff each_input_def each_input_sum sum_list_triv mult.commute)
  then show ?thesis
    by (rule adds_static) (metis staticD(1,7))
qed

lemma adds_broadcast_inputs:
  assumes "ready g0"
  shows "adds g0 (\<lambda>g. foldE broadcast_input [j..<num_inputs g] g) (each_input g0 j 1)
     (\<lambda>ty. (num_inputs g0 - j) * (only READ 1 ty + only SYNC (nat (tg_numPE g0) - 1) ty))"
proof -
  have "adds g0 (foldE broadcast_input [j..<num_inputs g0])
     (\<lambda>p. \<Sum>i\<leftarrow>[j..<num_inputs g0]. only (inp g0 i) 1 p)
     (\<lambda>ty. \<Sum>i\<leftarrow>[j..<num_inputs g0]. only READ 1 ty + only SYNC (nat (tg_numPE g0) - 1) ty)"
    by (rule adds_fold, rule adds_broadcast_input [OF assms]) simp
  then have "adds g0 (foldE broadcast_input [j..<num_inputs g0]) (each_input g0 j 1)
     (\<lambda>ty. (num_inputs g0 - j) * (only READ 1 ty + only SYNC (nat (tg_numPE g0) - 1) ty))"
    by (rule adds_eq) (auto simp: fun_eq_iff each_input_def each_input_sum sum_list_triv)
  then show ?thesis
    by (rule adds_static) (metis staticD(7))
qed

lemmas cost_steps =
  adds_bind adds_repeat adds_cond adds_if_more_inputs adds_if_inputs adds_if_remainder
  adds_numPE [of _ "\<lambda>n. read_input n _"] adds_remainder [of _ "\<lambda>n. read_input n _"]
  adds_numPE [of _ "\<lambda>n. write_output n"] adds_remainder [of _ "\<lambda>n. write_output_sized n _"]
  adds_numPE [of _ "\<lambda>n. write_output_sized n _"]
  adds_numPE [of _ compute] adds_remainder [of _ compute]
  adds_read_input adds_broadcast_input adds_write_output adds_write_output_sized adds_compute
  adds_read_inputs adds_broadcast_inputs

lemma okE_progress: "adds g f a n \<Longrightarrow> a = a' \<Longrightarrow> n = n' \<Longrightarrow> okE (f g) (progress g a' n')"
  using adds_okE by blast

section \<open>Totals\<close>

text \<open>
  A small generator to evaluate the totals on: \<open>ni\<close> inputs and one output of 64 bytes each,
  \<open>N\<close> processing elements and \<open>S\<close> subgraphs.
\<close>

definition demo_tensor :: "nat \<Rightarrow> tensor" where
  "demo_tensor i =
     \<lparr>t_name = [], t_shape = [1, 1, 1, 1], t_data_type = 1, t_size = Some 64,
      t_address = Some (of_nat (4096 * i)), t_original_size = None\<rparr>"

definition demo_node :: "nat \<Rightarrow> node" where
  "demo_node ni = (new_node 0 [] CONV)\<lparr>n_inputs := [0..<ni], n_outputs := [ni]\<rparr>"

definition demo_gen :: "nat \<Rightarrow> int \<Rightarrow> int \<Rightarrow> int list list \<Rightarrow> tgen" where
  "demo_gen ni N S split =
     \<lparr>tg_list = [], tg_numSubgraph = S, tg_split_node = demo_node ni, tg_base_node = demo_node ni,
      tg_numPE = N, tg_round = S div N + (if S mod N = 0 then 0 else 1), tg_remainder = S mod N,
      tg_strategy = \<lparr>splitSize = split, mappingStrategy = []\<rparr>, tg_heap = map demo_tensor [0..<Suc ni]\<rparr>"

lemma ready_demo [simp]: "ready (demo_gen ni N S split)"
  by (auto simp: ready_def demo_gen_def demo_node_def demo_tensor_def new_node_def nth_append simp del: upt_Suc)

lemma demo_simps [simp]:
  "tg_numPE (demo_gen ni N S split) = N"
  "num_inputs (demo_gen ni N S split) = ni"
  "split_dim (demo_gen ni N S split) i j = bindE (vec_at split i) (\<lambda>row. vec_at row j)"
  "tg_round (demo_gen ni N S split) = S div N + (if S mod N = 0 then 0 else 1)"
  "tg_remainder (demo_gen ni N S split) = S mod N"
  by (simp_all add: demo_gen_def num_inputs_def demo_node_def new_node_def split_dim_def split_at_def)

definition conv_split :: "tgen \<Rightarrow> int \<Rightarrow> int \<Rightarrow> int \<Rightarrow> int \<Rightarrow> bool" where
  "conv_split g k c h w \<longleftrightarrow>
     split_dim g 1 0 = Inr k \<and> split_dim g 0 1 = Inr c \<and> split_dim g 0 2 = Inr h \<and> split_dim g 0 3 = Inr w \<and>
     0 \<le> k \<and> 0 \<le> c \<and> 0 \<le> h \<and> 0 \<le> w \<and> in_i32 k \<and> in_i32 c \<and> in_i32 (h * w)"

lemma conv_split_pos:
  assumes "conv_split g k c h w"
  shows "0 \<le> k" and "0 \<le> h * w"
  using assms by (simp_all add: conv_split_def)

lemma conv_split_hw: "conv_split g k c h w \<Longrightarrow> split_hw g = Inr (h * w)"
  by (simp add: conv_split_def split_hw_def)

definition weight_accesses :: "tgen \<Rightarrow> nat \<Rightarrow> nat \<Rightarrow> nat \<Rightarrow> tref \<Rightarrow> nat" where
  "weight_accesses g wr c hw p =
     wr * ((if 2 < num_inputs g then only (inp g 2) (nat (tg_numPE g)) p else 0) +
           c * (only (inp g 1) (nat (tg_numPE g)) p +
                hw * (only (inp g 0) 1 p + only (outp g) (nat (tg_numPE g)) p)))"

fun weight_records :: "tgen \<Rightarrow> nat \<Rightarrow> nat \<Rightarrow> nat \<Rightarrow> RequestType \<Rightarrow> nat" where
  "weight_records g wr c hw READ =
     wr * ((if 2 < num_inputs g then nat (tg_numPE g) else 0) + c * (nat (tg_numPE g) + hw))"
| "weight_records g wr c hw SYNC = wr * c * hw * (nat (tg_numPE g) - 1)"
| "weight_records g wr c hw _ = wr * c * hw * nat (tg_numPE g)"

lemma whole_rounds: "0 < N \<Longrightarrow> 0 \<le> k \<Longrightarrow> nat (k div N) * nat N = nat (k - k mod N)"
  by (simp flip: nat_mult_distrib add: pos_imp_zdiv_nonneg_iff minus_mod_eq_div_mult)

lemma weight_stationary_cost:
  assumes "ready g" and "0 < tg_numPE g" and "2 \<le> num_inputs g" and "conv_split g k c h w"
  shows "okE (generate_traffic_conv_weight_stationary g)
     (progress g (weight_accesses g (nat (k div tg_numPE g)) (nat c) (nat (h * w)))
        (weight_records g (nat (k div tg_numPE g)) (nat c) (nat (h * w))))"
proof -
  define wr where "wr = k div tg_numPE g"
  have vals: "split_dim g 1 0 = Inr k" "split_dim g 0 1 = Inr c" "split_hw g = Inr (h * w)"
    "cdiv k (tg_numPE g) = Inr wr"
    using assms conv_split_hw [OF assms(4)] by (auto simp: conv_split_def wr_def)
  have i: "0 < num_inputs g" "1 < num_inputs g" using assms(3) by auto
  show ?thesis
    unfolding generate_traffic_conv_weight_stationary_def vals bindE.simps wr_def [symmetric]
    apply (rule okE_progress)
      apply (rule cost_steps assms(1) i | assumption)+
     apply (simp add: weight_accesses_def fun_eq_iff)
    apply (rule ext, rename_tac ty, case_tac ty; simp)
    done
qed

text \<open>
  C24 (weight-stationary convolution).  For a node whose tensors are sized and placed, and a
  split into \<open>k\<close> kernel groups, \<open>c\<close> channel groups and \<open>h \<times> w\<close> tiles,
  \<open>generate_traffic_conv_weight_stationary\<close> returns; it emits exactly the tabulated number of
  records of each type and advances the address of every tensor by exactly the tabulated
  number of its sizes.  Only whole rounds of kernel groups are computed: the
  \<open>k mod numPE\<close> left over get no \<open>COMPUTE\<close> record.
\<close>

theorem weight_stationary_totals:
  assumes "ready g" and "0 < tg_numPE g" and "2 \<le> num_inputs g" and "conv_split g k c h w"
  shows "okE (generate_traffic_conv_weight_stationary g)
     (progress g (weight_accesses g (nat (k div tg_numPE g)) (nat c) (nat (h * w)))
        (weight_records g (nat (k div tg_numPE g)) (nat c) (nat (h * w)))) \<and>
     weight_records g (nat (k div tg_numPE g)) (nat c) (nat (h * w)) COMPUTE =
       nat c * nat (h * w) * nat (k - k mod tg_numPE g)"
  using weight_stationary_cost [OF assms] whole_rounds [OF assms(2) conv_split_pos(1) [OF assms(4)]] by simp

lemma weight_stationary_totals_witness:
  "okE (generate_traffic_conv_weight_stationary (demo_gen 3 2 6 [[1, 2, 3, 1], [5]]))
     (progress (demo_gen 3 2 6 [[1, 2, 3, 1], [5]])
        (weight_accesses (demo_gen 3 2 6 [[1, 2, 3, 1], [5]]) 2 2 3)
        (weight_records (demo_gen 3 2 6 [[1, 2, 3, 1], [5]]) 2 2 3)) \<and>
   weight_records (demo_gen 3 2 6 [[1, 2, 3, 1], [5]]) 2 2 3 COMPUTE = 24"
  using weight_stationary_totals [of "demo_gen 3 2 6 [[1, 2, 3, 1], [5]]" 5 2 3 1]
  by (simp add: conv_split_def in_i32_def)

definition output_accesses :: "tgen \<Rightarrow> nat \<Rightarrow> nat \<Rightarrow> nat \<Rightarrow> nat \<Rightarrow> tref \<Rightarrow> nat" where
  "output_accesses g k c ir rm p =
     c * (ir * (only (inp g 0) (nat (tg_numPE g)) p +
                k * (only (inp g 1) 1 p + (if 2 < num_inputs g then only (inp g 2) (nat (tg_numPE g)) p else 0))) +
          (if rm = 0 then 0 else
             only (inp g 0) rm p + (if 2 < num_inputs g then only (inp g 2) rm p else 0) +
             k * (only (inp g 1) 1 p + (if 2 < num_inputs g then only (inp g 2) (nat (tg_numPE g)) p else 0)))) +
     only (outp g) (nat (tg_numPE g)) p"

fun output_records :: "tgen \<Rightarrow> nat \<Rightarrow> nat \<Rightarrow> nat \<Rightarrow> nat \<Rightarrow> RequestType \<Rightarrow> nat" where
  "output_records g k c ir rm READ =
     c * (ir * (nat (tg_numPE g) + k * (1 + (if 2 < num_inputs g then nat (tg_numPE g) else 0))) +
          (if rm = 0 then 0 else
             rm + (if 2 < num_inputs g then rm else 0) +
             k * (1 + (if 2 < num_inputs g then nat (tg_numPE g) else 0))))"
| "output_records g k c ir rm SYNC =
     c * k * (ir + (if rm = 0 then 0 else 1)) * (nat (tg_numPE g) - 1)"
| "output_records g k c ir rm COMPUTE = c * k * (ir * nat (tg_numPE g) + rm)"
| "output_records g k c ir rm WRITE = nat (tg_numPE g)"

lemma all_tiles:
  "0 < N \<Longrightarrow> 0 \<le> hw \<Longrightarrow> nat (hw div N) * nat N + nat (hw mod N) = nat hw"
  by (simp flip: nat_mult_distrib nat_add_distrib add: pos_imp_zdiv_nonneg_iff)

lemma output_stationary_cost:
  assumes "ready g" and "0 < tg_numPE g" and "2 \<le> num_inputs g" and "conv_split g k c h w"
  shows "okE (generate_traffic_conv_output_stationary g)
     (progress g (output_accesses g (nat k) (nat c) (nat (h * w div tg_numPE g)) (nat (h * w mod tg_numPE g)))
        (output_records g (nat k) (nat c) (nat (h * w div tg_numPE g)) (nat (h * w mod tg_numPE g))))"
proof -
  define ir rm where "ir = h * w div tg_numPE g" and "rm = h * w mod tg_numPE g"
  have vals: "split_dim g 1 0 = Inr k" "split_dim g 0 1 = Inr c" "split_hw g = Inr (h * w)"
    "cdiv (h * w) (tg_numPE g) = Inr ir" "cmod (h * w) (tg_numPE g) = Inr rm"
    using assms conv_split_hw [OF assms(4)] by (auto simp: conv_split_def ir_def rm_def)
  have i: "0 < num_inputs g" "1 < num_inputs g" using assms(3) by auto
  have rm: "rm \<le> 0 \<longleftrightarrow> rm = 0" using pos_mod_sign [OF assms(2), of "h * w"] unfolding rm_def by arith
  show ?thesis
    unfolding generate_traffic_conv_output_stationary_def vals bindE.simps
      ir_def [symmetric] rm_def [symmetric]
    apply (rule okE_progress)
      apply (rule cost_steps assms(1) i | assumption)+
     apply (simp add: output_accesses_def fun_eq_iff rm)
    apply (rule ext, rename_tac ty, case_tac ty; simp add: rm algebra_simps)
    done
qed

text \<open>
  C25 (output-stationary convolution).  \<open>generate_traffic_conv_output_stationary\<close> returns and
  emits exactly the tabulated accesses and records; in particular every combination of
  channel group, kernel group and tile is computed once: \<open>c * k * h * w\<close> \<open>COMPUTE\<close> records.
\<close>

theorem output_stationary_totals:
  assumes "ready g" and "0 < tg_numPE g" and "2 \<le> num_inputs g" and "conv_split g k c h w"
  shows "okE (generate_traffic_conv_output_stationary g)
     (progress g (output_accesses g (nat k) (nat c) (nat (h * w div tg_numPE g)) (nat (h * w mod tg_numPE g)))
        (output_records g (nat k) (nat c) (nat (h * w div tg_numPE g)) (nat (h * w mod tg_numPE g)))) \<and>
     output_records g (nat k) (nat c) (nat (h * w div tg_numPE g)) (nat (h * w mod tg_numPE g)) COMPUTE =
       nat c * nat k * nat (h * w)"
  using output_stationary_cost [OF assms] all_tiles [OF assms(2) conv_split_pos(2) [OF assms(4)]] by simp

lemma output_stationary_totals_witness:
  "okE (generate_traffic_conv_output_stationary (demo_gen 3 2 6 [[1, 2, 3, 1], [5]]))
     (progress (demo_gen 3 2 6 [[1, 2, 3, 1], [5]])
        (output_accesses (demo_gen 3 2 6 [[1, 2, 3, 1], [5]]) 5 2 1 1)
        (output_records (demo_gen 3 2 6 [[1, 2, 3, 1], [5]]) 5 2 1 1)) \<and>
   output_records (demo_gen 3 2 6 [[1, 2, 3, 1], [5]]) 5 2 1 1 COMPUTE = 30"
  using output_stationary_totals [of "demo_gen 3 2 6 [[1, 2, 3, 1], [5]]" 5 2 3 1]
  by (simp add: conv_split_def in_i32_def)

definition element_accesses :: "tgen \<Rightarrow> tref \<Rightarrow> nat" where
  "element_accesses g p =
     nat (tg_round g) * (each_input g 0 (nat (tg_numPE g)) p + only (outp g) (nat (tg_numPE g)) p) +
     (if tg_remainder g = 0 then 0
      else each_input g 0 (nat (tg_numPE g)) p + only (outp g) (nat (tg_remainder g)) p)"

fun element_records :: "tgen \<Rightarrow> RequestType \<Rightarrow> nat" where
  "element_records g READ =
     (nat (tg_round g) + (if tg_remainder g = 0 then 0 else 1)) * (nat (tg_numPE g) * num_inputs g)"
| "element_records g SYNC = 0"
| "element_records g _ = nat (tg_round g) * nat (tg_numPE g) + nat (tg_remainder g)"

lemma output_size_ready: "ready g \<Longrightarrow> output_size g = Inr (the (t_size (tg_heap g ! outp g)))"
  using size_of_static [OF ready_output refl] output_at_static [OF _ refl] by (simp add: output_size_def)

lemma element_wise_totals:
  assumes "ready g"
  shows "okE (generate_traffic_element_wise g) (progress g (element_accesses g) (element_records g))"
proof -
  define rd sz where "rd = tg_round g" and "sz = the (t_size (tg_heap g ! outp g))"
  have vals: "output_size g = Inr sz" using output_size_ready [OF assms] by (simp add: sz_def)
  show ?thesis
    unfolding generate_traffic_element_wise_def vals bindE.simps rd_def [symmetric]
    apply (rule okE_progress)
      apply (rule cost_steps assms(1) sz_def | assumption)+
     apply (simp add: element_accesses_def fun_eq_iff rd_def)
    apply (rule ext, rename_tac ty, case_tac ty; simp add: rd_def algebra_simps)
    done
qed

lemma adds_batchnorm_weight:
  assumes "ready g0" and "4 \<le> num_inputs g0"
  shows "adds g0 batchnorm_weight (each_input g0 (num_inputs g0 - 4) (nat (tg_numPE g0)))
     (only READ (4 * nat (tg_numPE g0)))"
proof -
  let ?F = "\<lambda>j g. bindE (guardE (j < num_inputs g) OutOfRange)
      (\<lambda>_. read_input (tg_numPE g) (num_inputs g - 1 - j) g)"
  obtain m where m: "num_inputs g0 = m + 4" using assms(2) by (metis add.commute le_Suc_ex)
  have four: "[0..<4] = [0, 1, 2, 3::nat]" by (simp add: upt_rec)
  have step: "adds g0 (?F j) (only (inp g0 (num_inputs g0 - 1 - j)) (nat (tg_numPE g0)))
      (only READ (nat (tg_numPE g0)))" if "j < 4" for j
  proof (rule adds_static [OF adds_read_input [OF assms(1)]])
    fix g assume "static g = static g0"
    then have "tg_numPE g = tg_numPE g0" and "num_inputs g = num_inputs g0" by (rule staticD)+
    then show "?F j g = read_input (tg_numPE g0) (num_inputs g0 - 1 - j) g" using that assms(2) by simp
  qed (use assms(2) in simp)
  have "adds g0 (foldE ?F [0..<4])
      (\<lambda>p. \<Sum>j\<leftarrow>[0..<4]. only (inp g0 (num_inputs g0 - 1 - j)) (nat (tg_numPE g0)) p)
      (\<lambda>ty. \<Sum>j\<leftarrow>[0..<4]. only READ (nat (tg_numPE g0)) ty)"
    by (rule adds_fold, rule step) simp
  moreover have "(\<Sum>j\<leftarrow>[0..<4]. only (inp g0 (num_inputs g0 - 1 - j)) (nat (tg_numPE g0)) p) =
      each_input g0 (num_inputs g0 - 4) (nat (tg_numPE g0)) p" for p
  proof -
    have "[m..<m + 4] = [m, m + 1, m + 2, m + 3]" by (simp add: upt_rec numeral_eq_Suc)
    then show ?thesis by (simp add: four each_input_def m numeral_eq_Suc)
  qed
  ultimately have "adds g0 (foldE ?F [0..<4])
      (each_input g0 (num_inputs g0 - 4) (nat (tg_numPE g0))) (only READ (4 * nat (tg_numPE g0)))"
    by (rule adds_eq [OF _ ext ext]) (simp_all add: four)
  then show ?thesis unfolding batchnorm_weight_def [abs_def] .
qed

fun channel_records :: "tgen \<Rightarrow> nat \<Rightarrow> nat \<Rightarrow> RequestType \<Rightarrow> nat" where
  "channel_records g cr cm READ =
     cr * (nat (tg_numPE g) * num_inputs g) + (if cm = 0 then 0 else cm + (num_inputs g - 1))"
| "channel_records g cr cm SYNC = (if cm = 0 then 0 else (num_inputs g - 1) * (nat (tg_numPE g) - 1))"
| "channel_records g cr cm _ = cr * nat (tg_numPE g) + cm"

definition channel_accesses :: "tgen \<Rightarrow> nat \<Rightarrow> nat \<Rightarrow> tref \<Rightarrow> nat" where
  "channel_accesses g cr cm p =
     cr * (only (inp g 0) (nat (tg_numPE g)) p + each_input g 1 (nat (tg_numPE g)) p +
           only (outp g) (nat (tg_numPE g)) p) +
     (if cm = 0 then 0 else only (inp g 0) cm p + each_input g 1 1 p + only (outp g) cm p)"

lemma split_c_totals:
  assumes "ready g" and "0 < tg_numPE g" and "0 < num_inputs g" and "0 \<le> c" and "in_i32 c"
  shows "okE (batchnorm_split_c c g)
     (progress g (channel_accesses g (nat (c div tg_numPE g)) (nat (c mod tg_numPE g)))
        (channel_records g (nat (c div tg_numPE g)) (nat (c mod tg_numPE g))))"
proof -
  define cr cm where "cr = c div tg_numPE g" and "cm = c mod tg_numPE g"
  have vals: "cdiv c (tg_numPE g) = Inr cr" "cmod c (tg_numPE g) = Inr cm"
    using assms by (auto simp: cr_def cm_def)
  have cm: "cm \<le> 0 \<longleftrightarrow> cm = 0" using pos_mod_sign [OF assms(2), of c] unfolding cm_def by arith
  obtain n where n: "num_inputs g = Suc n" using assms(3) gr0_implies_Suc by blast
  show ?thesis
    unfolding batchnorm_split_c_def vals bindE.simps cr_def [symmetric] cm_def [symmetric]
    apply (rule okE_progress)
      apply (rule cost_steps assms(1,3) | assumption)+
     apply (simp add: channel_accesses_def fun_eq_iff cm algebra_simps)
    apply (rule ext, rename_tac ty, case_tac ty; simp add: cm n algebra_simps)
    done
qed

fun channel_hw_records :: "tgen \<Rightarrow> nat \<Rightarrow> nat \<Rightarrow> nat \<Rightarrow> RequestType \<Rightarrow> nat" where
  "channel_hw_records g c ir rm READ = c * ((num_inputs g - 1) + (ir * nat (tg_numPE g) + rm))"
| "channel_hw_records g c ir rm SYNC = c * ((num_inputs g - 1) * (nat (tg_numPE g) - 1))"
| "channel_hw_records g c ir rm _ = c * (ir * nat (tg_numPE g) + rm)"

definition channel_hw_accesses :: "tgen \<Rightarrow> nat \<Rightarrow> nat \<Rightarrow> nat \<Rightarrow> tref \<Rightarrow> nat" where
  "channel_hw_accesses g c ir rm p =
     c * (each_input g 1 1 p +
          (only (inp g 0) (ir * nat (tg_numPE g) + rm) p + only (outp g) (ir * nat (tg_numPE g) + rm) p))"

lemma split_chw_totals:
  assumes "ready g" and "0 < num_inputs g" and "0 \<le> rm"
  shows "okE (batchnorm_split_chw c ir rm g)
     (progress g (channel_hw_accesses g (nat c) (nat ir) (nat rm)) (channel_hw_records g (nat c) (nat ir) (nat rm)))"
proof -
  have rm: "rm \<le> 0 \<longleftrightarrow> rm = 0" using assms(3) by auto
  show ?thesis
    unfolding batchnorm_split_chw_def
    apply (rule okE_progress)
      apply (rule cost_steps assms(1,2) | assumption)+
     apply (simp add: channel_hw_accesses_def fun_eq_iff rm algebra_simps)
    apply (rule ext, rename_tac ty, case_tac ty; simp add: rm algebra_simps)
    done
qed

text \<open>When one channel is left, the records are those of an element-wise operator whose parameters are broadcast once.\<close>

fun single_channel_records :: "tgen \<Rightarrow> RequestType \<Rightarrow> nat" where
  "single_channel_records g READ =
     (num_inputs g - 1) + (nat (tg_round g) + (if tg_remainder g = 0 then 0 else 1)) * nat (tg_numPE g)"
| "single_channel_records g SYNC = (num_inputs g - 1) * (nat (tg_numPE g) - 1)"
| "single_channel_records g _ = nat (tg_round g) * nat (tg_numPE g) + nat (tg_remainder g)"

definition single_channel_accesses :: "tgen \<Rightarrow> tref \<Rightarrow> nat" where
  "single_channel_accesses g p =
     each_input g 1 1 p +
     nat (tg_round g) * (only (inp g 0) (nat (tg_numPE g)) p + only (outp g) (nat (tg_numPE g)) p) +
     (if tg_remainder g = 0 then 0
      else only (inp g 0) (nat (tg_numPE g)) p + only (outp g) (nat (tg_remainder g)) p)"

lemma split_hw_totals:
  assumes "ready g" and "0 < num_inputs g" and "0 < tg_round g \<or> tg_remainder g = 0"
    and "sz = the (t_size (tg_heap g ! outp g))"
  shows "okE (batchnorm_split_hw sz g) (progress g (single_channel_accesses g) (single_channel_records g))"
proof -
  define rd where "rd = tg_round g"
  have rnd: "adds g (\<lambda>g. repeatE (tg_round g) body g) a n" if "adds g (repeatE rd body) a n" for body a n
    by (rule adds_static [OF that]) (drule staticD(2), simp add: rd_def)
  have grd: "adds g (\<lambda>g. if tg_remainder g \<noteq> 0 then bindE (guardE (0 < tg_round g) Indeterminate) (\<lambda>_. f g) else Inr g)
      (\<lambda>p. if tg_remainder g \<noteq> 0 then a p else 0) (\<lambda>ty. if tg_remainder g \<noteq> 0 then n ty else 0)"
    if "adds g f a n" for f a n
    by (rule adds_static [OF adds_if_remainder [OF that]])
      (use assms(3) in \<open>auto dest: staticD(2) staticD(3)\<close>)
  show ?thesis
    unfolding batchnorm_split_hw_def
    apply (rule okE_progress)
      apply (rule adds_bind rnd grd cost_steps assms(1,2,4) | assumption)+
     apply (simp add: single_channel_accesses_def fun_eq_iff rd_def algebra_simps)
    apply (rule ext, rename_tac ty, case_tac ty; simp add: rd_def algebra_simps)
    done
qed

definition plane_split :: "tgen \<Rightarrow> int \<Rightarrow> int \<Rightarrow> int \<Rightarrow> bool" where
  "plane_split g c h w \<longleftrightarrow>
     split_dim g 0 1 = Inr c \<and> split_dim g 0 2 = Inr h \<and> split_dim g 0 3 = Inr w \<and>
     0 < c \<and> 0 \<le> h \<and> 0 \<le> w \<and> in_i32 c \<and> in_i32 (h * w)"

text \<open>
  C28 (batch normalisation).  \<open>generate_traffic_batchnorm\<close> returns and emits exactly the
  tabulated traffic of the way the work is split: over tiles of one channel, over channels,
  or over both.  When there are several channels and exactly one of the two plane dimensions
  is split, it emits nothing at all.
\<close>

theorem batchnorm_totals:
  assumes "ready g" and "0 < tg_numPE g" and "0 < num_inputs g" and "plane_split g c h w"
    and "0 < tg_round g \<or> tg_remainder g = 0"
  shows "okE (generate_traffic_batchnorm g)
     (if c = 1 then progress g (single_channel_accesses g) (single_channel_records g)
      else if h = 1 \<and> w = 1 then
        progress g (channel_accesses g (nat (c div tg_numPE g)) (nat (c mod tg_numPE g)))
          (channel_records g (nat (c div tg_numPE g)) (nat (c mod tg_numPE g)))
      else if h \<noteq> 1 \<and> w \<noteq> 1 then
        progress g (channel_hw_accesses g (nat c) (nat (h * w div tg_numPE g)) (nat (h * w mod tg_numPE g)))
          (channel_hw_records g (nat c) (nat (h * w div tg_numPE g)) (nat (h * w mod tg_numPE g)))
      else (\<lambda>g'. g' = g))"
proof -
  have vals: "split_dim g 0 1 = Inr c" "split_dim g 0 2 = Inr h" "split_dim g 0 3 = Inr w"
    "split_hw g = Inr (h * w)" "cdiv (h * w) (tg_numPE g) = Inr (h * w div tg_numPE g)"
    "cmod (h * w) (tg_numPE g) = Inr (h * w mod tg_numPE g)"
    and c: "0 < c" "in_i32 c"
    using assms(2,4) by (auto simp: plane_split_def split_hw_def)
  have rm: "0 \<le> h * w mod tg_numPE g" using assms(2) by simp
  note tot = split_hw_totals [OF assms(1,3,5) refl] split_c_totals [OF assms(1-3) less_imp_le [OF c(1)] c(2)]
    split_chw_totals [OF assms(1,3) rm, of c "h * w div tg_numPE g"]
  show ?thesis
    unfolding generate_traffic_batchnorm_def vals bindE.simps output_size_ready [OF assms(1)]
    using tot c(1) by auto
qed

lemma batchnorm_totals_witness:
  "okE (generate_traffic_batchnorm (demo_gen 5 2 12 [[1, 3, 2, 2]]))
     (progress (demo_gen 5 2 12 [[1, 3, 2, 2]])
        (channel_hw_accesses (demo_gen 5 2 12 [[1, 3, 2, 2]]) 3 2 0)
        (channel_hw_records (demo_gen 5 2 12 [[1, 3, 2, 2]]) 3 2 0))"
  using batchnorm_totals [of "demo_gen 5 2 12 [[1, 3, 2, 2]]" 3 2 2]
  by (simp add: plane_split_def in_i32_def)

definition fused_weight_accesses :: "tgen \<Rightarrow> nat \<Rightarrow> nat \<Rightarrow> nat \<Rightarrow> tref \<Rightarrow> nat" where
  "fused_weight_accesses g wr c hw p =
     wr * ((if num_inputs g = 7 then only (inp g 2) (nat (tg_numPE g)) p else 0) +
           each_input g (num_inputs g - 4) (nat (tg_numPE g)) p +
           c * (only (inp g 1) (nat (tg_numPE g)) p +
                hw * (only (inp g 0) 1 p + only (outp g) (nat (tg_numPE g)) p)))"

fun fused_weight_records :: "tgen \<Rightarrow> nat \<Rightarrow> nat \<Rightarrow> nat \<Rightarrow> RequestType \<Rightarrow> nat" where
  "fused_weight_records g wr c hw READ =
     wr * ((if num_inputs g = 7 then nat (tg_numPE g) else 0) + 4 * nat (tg_numPE g) + c * (nat (tg_numPE g) + hw))"
| "fused_weight_records g wr c hw SYNC = wr * c * hw * (nat (tg_numPE g) - 1)"
| "fused_weight_records g wr c hw _ = wr * c * hw * nat (tg_numPE g)"

text \<open>
  C27 (weight-stationary convolution fused with batch normalisation).  The function returns
  and emits exactly the tabulated accesses and records: the four parameter tensors, and the
  bias when there are seven inputs, are read once per round of kernel groups.
\<close>

theorem fused_weight_totals:
  assumes "ready g" and "0 < tg_numPE g" and "4 \<le> num_inputs g" and "conv_split g k c h w"
  shows "okE (generate_traffic_conv_batchnorm_weight g)
     (progress g (fused_weight_accesses g (nat (k div tg_numPE g)) (nat c) (nat (h * w)))
        (fused_weight_records g (nat (k div tg_numPE g)) (nat c) (nat (h * w))))"
proof -
  define wr where "wr = k div tg_numPE g"
  have vals: "split_dim g 1 0 = Inr k" "split_dim g 0 1 = Inr c" "split_hw g = Inr (h * w)"
    "cdiv k (tg_numPE g) = Inr wr"
    using assms conv_split_hw [OF assms(4)] by (auto simp: conv_split_def wr_def)
  have i: "0 < num_inputs g" "1 < num_inputs g" "2 < num_inputs g" using assms(3) by auto
  show ?thesis
    unfolding generate_traffic_conv_batchnorm_weight_def vals bindE.simps wr_def [symmetric]
    apply (rule okE_progress)
      apply (rule cost_steps adds_batchnorm_weight assms(1,3) i | assumption)+
     apply (simp add: fused_weight_accesses_def fun_eq_iff)
    apply (rule ext, rename_tac ty, case_tac ty; simp)
    done
qed

lemma fused_weight_totals_witness:
  "okE (generate_traffic_conv_batchnorm_weight (demo_gen 7 2 6 [[1, 2, 3, 1], [5]]))
     (progress (demo_gen 7 2 6 [[1, 2, 3, 1], [5]])
        (fused_weight_accesses (demo_gen 7 2 6 [[1, 2, 3, 1], [5]]) 2 2 3)
        (fused_weight_records (demo_gen 7 2 6 [[1, 2, 3, 1], [5]]) 2 2 3))"
  using fused_weight_totals [of "demo_gen 7 2 6 [[1, 2, 3, 1], [5]]" 5 2 3 1]
  by (simp add: conv_split_def in_i32_def)

definition fused_output_accesses :: "tgen \<Rightarrow> nat \<Rightarrow> nat \<Rightarrow> nat \<Rightarrow> nat \<Rightarrow> tref \<Rightarrow> nat" where
  "fused_output_accesses g k c ir rm p =
     (let N = nat (tg_numPE g);
          bias = (if num_inputs g = 7 then only (inp g 2) N p else 0);
          params = each_input g (num_inputs g - 4) N p
      in c * (ir * (only (inp g 0) N p + k * (only (inp g 1) 1 p + bias + params)) +
              (if rm = 0 then 0 else
                 only (inp g 0) rm p + bias + k * (only (inp g 1) 1 p + only (inp g 2) N p + params))) +
         only (outp g) N p)"

fun fused_output_records :: "tgen \<Rightarrow> nat \<Rightarrow> nat \<Rightarrow> nat \<Rightarrow> nat \<Rightarrow> RequestType \<Rightarrow> nat" where
  "fused_output_records g k c ir rm READ =
     (let N = nat (tg_numPE g); bias = (if num_inputs g = 7 then N else 0)
      in c * (ir * (N + k * (1 + bias + 4 * N)) +
              (if rm = 0 then 0 else rm + bias + k * (1 + 5 * N))))"
| "fused_output_records g k c ir rm SYNC =
     c * k * (ir + (if rm = 0 then 0 else 1)) * (nat (tg_numPE g) - 1)"
| "fused_output_records g k c ir rm COMPUTE = c * k * (ir * nat (tg_numPE g) + rm)"
| "fused_output_records g k c ir rm WRITE = nat (tg_numPE g)"

lemma fused_output_cost:
  assumes "ready g" and "0 < tg_numPE g" and "4 \<le> num_inputs g" and "conv_split g k c h w"
  shows "okE (generate_traffic_conv_batchnorm_output g)
     (progress g (fused_output_accesses g (nat k) (nat c) (nat (h * w div tg_numPE g)) (nat (h * w mod tg_numPE g)))
        (fused_output_records g (nat k) (nat c) (nat (h * w div tg_numPE g)) (nat (h * w mod tg_numPE g))))"
proof -
  define ir rm where "ir = h * w div tg_numPE g" and "rm = h * w mod tg_numPE g"
  have vals: "split_dim g 1 0 = Inr k" "split_dim g 0 1 = Inr c" "split_hw g = Inr (h * w)"
    "cdiv (h * w) (tg_numPE g) = Inr ir" "cmod (h * w) (tg_numPE g) = Inr rm"
    using assms conv_split_hw [OF assms(4)] by (auto simp: conv_split_def ir_def rm_def)
  have i: "0 < num_inputs g" "1 < num_inputs g" "2 < num_inputs g" using assms(3) by auto
  have rm: "rm \<le> 0 \<longleftrightarrow> rm = 0" using pos_mod_sign [OF assms(2), of "h * w"] unfolding rm_def by arith
  show ?thesis
    unfolding generate_traffic_conv_batchnorm_output_def vals bindE.simps
      ir_def [symmetric] rm_def [symmetric]
    apply (rule okE_progress)
      apply (rule cost_steps adds_batchnorm_weight assms(1,3) i | assumption)+
     apply (simp add: fused_output_accesses_def fun_eq_iff rm i Let_def)
    apply (rule ext, rename_tac ty, case_tac ty; simp add: rm i Let_def algebra_simps)
    done
qed

text \<open>
  C26 (output-stationary convolution fused with batch normalisation).  As for the plain
  convolution, with the four parameter tensors read before every computation; every
  combination of channel group, kernel group and tile is computed once.
\<close>

theorem fused_output_totals:
  assumes "ready g" and "0 < tg_numPE g" and "4 \<le> num_inputs g" and "conv_split g k c h w"
  shows "okE (generate_traffic_conv_batchnorm_output g)
     (progress g (fused_output_accesses g (nat k) (nat c) (nat (h * w div tg_numPE g)) (nat (h * w mod tg_numPE g)))
        (fused_output_records g (nat k) (nat c) (nat (h * w div tg_numPE g)) (nat (h * w mod tg_numPE g)))) \<and>
     fused_output_records g (nat k) (nat c) (nat (h * w div tg_numPE g)) (nat (h * w mod tg_numPE g)) COMPUTE =
       nat c * nat k * nat (h * w)"
  using fused_output_cost [OF assms] all_tiles [OF assms(2) conv_split_pos(2) [OF assms(4)]] by simp

lemma fused_output_totals_witness:
  "okE (generate_traffic_conv_batchnorm_output (demo_gen 7 2 6 [[1, 2, 3, 1], [5]]))
     (progress (demo_gen 7 2 6 [[1, 2, 3, 1], [5]])
        (fused_output_accesses (demo_gen 7 2 6 [[1, 2, 3, 1], [5]]) 5 2 1 1)
        (fused_output_records (demo_gen 7 2 6 [[1, 2, 3, 1], [5]]) 5 2 1 1)) \<and>
   fused_output_records (demo_gen 7 2 6 [[1, 2, 3, 1], [5]]) 5 2 1 1 COMPUTE = 30"
  using fused_output_totals [of "demo_gen 7 2 6 [[1, 2, 3, 1], [5]]" 5 2 3 1]
  by (simp add: conv_split_def in_i32_def)

text \<open>
  C29 (element-wise operators).  A generator built for \<open>S\<close> subgraphs on \<open>N\<close> processing elements
  emits \<open>S\<close> \<open>COMPUTE\<close> records when \<open>N\<close> divides \<open>S\<close>, and \<open>S + N\<close> otherwise: the round count is
  rounded up and the remainder is emitted in addition.
\<close>

theorem element_wise_computes:
  assumes "new_TrafficGenerator hp N S sn bn = Inr g" and "ready g" and "0 < N" and "0 \<le> S" and "in_i32 S"
  shows "okE (generate_traffic_element_wise (init_strategy st g))
     (\<lambda>g'. num_type COMPUTE (tg_list g') = nat (if S mod N = 0 then S else S + N))"
proof -
  let ?g = "init_strategy st g"
  have g: "tg_list ?g = []" "tg_numPE ?g = N" "tg_remainder ?g = S mod N"
    "tg_round ?g = S div N + (if S mod N = 0 then 0 else 1)"
    using assms(1,3-5) by (auto simp: new_TrafficGenerator_def ceil_div_nonneg init_strategy_def)
  have r: "ready ?g" using assms(2) by (simp add: ready_def init_strategy_def)
  have "element_records ?g COMPUTE = nat (if S mod N = 0 then S else S + N)"
  proof -
    have "0 \<le> S div N" "0 \<le> S mod N" using assms(3,4) by (simp_all add: pos_imp_zdiv_nonneg_iff)
    then have "int (element_records ?g COMPUTE) = (S div N + (if S mod N = 0 then 0 else 1)) * N + S mod N"
      using assms(3) by (simp add: g)
    also have "\<dots> = (if S mod N = 0 then S else S + N)"
      by (auto simp: algebra_simps)
    finally show ?thesis by linarith
  qed
  then show ?thesis
    using element_wise_totals [OF r] by (auto simp: progress_def g num_type_def elim!: okE_mono)
qed

lemma element_wise_computes_witness:
  "okE (generate_traffic_element_wise (init_strategy \<lparr>splitSize = [[1, 1, 2, 3]], mappingStrategy = []\<rparr> (demo_gen 1 4 6 [])))
     (\<lambda>g'. num_type COMPUTE (tg_list g') = 10)"
proof -
  have "new_TrafficGenerator (map demo_tensor [0..<2]) 4 6 (demo_node 1) (demo_node 1) = Inr (demo_gen 1 4 6 [])"
    by (simp add: new_TrafficGenerator_def demo_gen_def ceil_div_nonneg in_i32_def numeral_2_eq_2)
  from element_wise_computes [OF this] show ?thesis by (simp add: in_i32_def)
qed

section \<open>Rendezvous\<close>

text \<open>
  Whatever operator function runs on a fresh generator, every record it
  emits names one of the \<open>N\<close> processing elements as its source and memory as its destination,
  only element 0 issues broadcast reads and only the others \<open>SYNC\<close>, and all elements have the
  same number of barriers: no element is left waiting for a broadcast that never comes.
\<close>

theorem generators_balanced:
  assumes "new_TrafficGenerator h N S sn bn = Inr g" and "0 < N" and "f \<in> set generators"
  shows "safeE (f (init_strategy st g)) (\<lambda>g'. balanced N (tg_list g'))"
proof -
  have "bal_inv N (init_strategy st g)"
    using assms(1,2) cmod_le [of S N]
    by (auto simp: new_TrafficGenerator_def bal_inv_def balanced_def barriers_def init_strategy_def)
  from bal.generators_inv [OF assms(3) this] show ?thesis
    by (rule safeE_mono) (simp add: bal_inv_def)
qed

lemma generators_balanced_witness:
  "okE (generate_traffic_conv_weight_stationary
      (init_strategy \<lparr>splitSize = [[1, 2, 3, 1], [5]], mappingStrategy = []\<rparr> (demo_gen 3 2 6 [])))
     (\<lambda>g'. balanced 2 (tg_list g') \<and> num_type SYNC (tg_list g') = 12)"
proof -
  let ?st = "\<lparr>splitSize = [[1, 2, 3, 1], [5]], mappingStrategy = []\<rparr>"
  have g: "new_TrafficGenerator (map demo_tensor [0..<4]) 2 6 (demo_node 3) (demo_node 3) = Inr (demo_gen 3 2 6 [])"
    by (simp add: new_TrafficGenerator_def demo_gen_def ceil_div_nonneg in_i32_def numeral_eq_Suc)
  have i: "init_strategy ?st (demo_gen 3 2 6 []) = demo_gen 3 2 6 [[1, 2, 3, 1], [5]]"
    by (simp add: init_strategy_def demo_gen_def)
  have "tg_list (demo_gen 3 2 6 [[1, 2, 3, 1], [5]]) = []" by (simp add: demo_gen_def)
  then show ?thesis
    using generators_balanced [OF g, of generate_traffic_conv_weight_stationary ?st]
      weight_stationary_cost [of "demo_gen 3 2 6 [[1, 2, 3, 1], [5]]" 5 2 3 1]
    by (auto simp: generators_def i conv_split_def in_i32_def okE_iff progress_def num_type_def)
qed

end
