(* ===== verification/Json.thy ===== *)
theory Json
  imports Prelude
begin

text \<open>
  The values and accessors of the JSON library (\<open>parser/json.hpp\<close>) that the program uses:
  the tagged value, \<open>operator[]\<close> in its variants, \<open>find\<close>, iteration, \<open>push_back\<close>, the implicit
  conversions and their type errors, and \<open>std::to_string\<close>.  An object is a \<open>std::map\<close> over
  its keys: an association list sorted by key.
\<close>

section \<open>Values\<close>

datatype json =
    JNull
  | JObject "(string \<times> json) list"
  | JArray "json list"
  | JString string
  | JBoolean bool
  | JInteger int        \<comment> \<open>\<open>int64_t\<close>\<close>
  | JUnsigned u64       \<comment> \<open>\<open>uint64_t\<close>\<close>
  | JFloat int int      \<comment> \<open>a finite \<open>double\<close>: mantissa and binary exponent\<close>

text \<open>\<open>std::less<std::string>\<close>: lexicographic on unsigned bytes.\<close>

fun str_less :: "string \<Rightarrow> string \<Rightarrow> bool" where
  "str_less _ [] = False"
| "str_less [] (_ # _) = True"
| "str_less (a # as) (b # bs) =
     (of_char a < (of_char b :: nat) \<or> (a = b \<and> str_less as bs))"

text \<open>\<open>std::map::operator[]\<close> used to assign: keys stay sorted and unique.\<close>

fun map_put :: "string \<Rightarrow> 'v \<Rightarrow> (string \<times> 'v) list \<Rightarrow> (string \<times> 'v) list" where
  "map_put k v [] = [(k, v)]"
| "map_put k v ((k', v') # m) =
     (if k = k' then (k, v) # m
      else if str_less k k' then (k, v) # (k', v') # m
      else (k', v') # map_put k v m)"

section \<open>Access\<close>

text \<open>
  \<open>operator[](key)\<close> on a non-const value that is only read: a missing member is created as
  null, and null itself becomes an object.
\<close>

definition json_member :: "string \<Rightarrow> json \<Rightarrow> json res" where
  "json_member key j =
     (case j of
        JNull \<Rightarrow> Inr JNull
      | JObject m \<Rightarrow> Inr (case map_of m key of None \<Rightarrow> JNull | Some v \<Rightarrow> v)
      | _ \<Rightarrow> Inl (JsonTypeError 305))"

text \<open>\<open>j[key] = v\<close>.\<close>

definition json_assign :: "string \<Rightarrow> json \<Rightarrow> json \<Rightarrow> json res" where
  "json_assign key v j =
     (case j of
        JNull \<Rightarrow> Inr (JObject [(key, v)])
      | JObject m \<Rightarrow> Inr (JObject (map_put key v m))
      | _ \<Rightarrow> Inl (JsonTypeError 305))"

text \<open>\<open>operator[](key) const\<close>.\<close>

definition json_member_const :: "string \<Rightarrow> json \<Rightarrow> json res" where
  "json_member_const key j =
     (case j of
        JObject m \<Rightarrow>
          (case map_of m key of
             None \<Rightarrow> Inl (AssertFail ''it != m_data.m_value.object->end()'')
           | Some v \<Rightarrow> Inr v)
      | _ \<Rightarrow> Inl (JsonTypeError 305))"

text \<open>\<open>operator[](idx)\<close> on a non-const value that is only read: an array is filled up with null.\<close>

definition json_index :: "nat \<Rightarrow> json \<Rightarrow> json res" where
  "json_index idx j =
     (case j of
        JNull \<Rightarrow> Inr JNull
      | JArray xs \<Rightarrow> Inr (if idx < length xs then xs ! idx else JNull)
      | _ \<Rightarrow> Inl (JsonTypeError 305))"

definition json_has :: "string \<Rightarrow> json \<Rightarrow> bool" where
  "json_has key j = (case j of JObject m \<Rightarrow> map_of m key \<noteq> None | _ \<Rightarrow> False)"

text \<open>What iteration yields; a value that is no container is a sequence of one.\<close>

definition json_values :: "json \<Rightarrow> json list" where
  "json_values j = (case j of JNull \<Rightarrow> [] | JObject m \<Rightarrow> map snd m | JArray xs \<Rightarrow> xs | _ \<Rightarrow> [j])"

definition json_push_back :: "json \<Rightarrow> json \<Rightarrow> json res" where
  "json_push_back v j =
     (case j of
        JNull \<Rightarrow> Inr (JArray [v])
      | JArray xs \<Rightarrow> Inr (JArray (xs @ [v]))
      | _ \<Rightarrow> Inl (JsonTypeError 308))"

section \<open>Conversions\<close>

definition float_trunc :: "int \<Rightarrow> int \<Rightarrow> int" where
  "float_trunc m e = (if 0 \<le> e then m * 2 ^ nat e else sgn m * (\<bar>m\<bar> div 2 ^ nat (- e)))"

text \<open>
  \<open>get<int>\<close>: integers are converted modulo \<open>2^32\<close>, a float is truncated and must fit,
  a boolean is a number.
\<close>

definition to_int :: "json \<Rightarrow> int res" where
  "to_int j =
     (case j of
        JUnsigned w \<Rightarrow> Inr (sint (ucast w :: u32))
      | JInteger i \<Rightarrow> Inr (sint (of_int i :: u32))
      | JFloat m e \<Rightarrow>
          (if in_i32 (float_trunc m e) then Inr (float_trunc m e) else Inl BadConversion)
      | JBoolean b \<Rightarrow> Inr (if b then 1 else 0)
      | _ \<Rightarrow> Inl (JsonTypeError 302))"

text \<open>The same for an enumeration over \<open>int\<close>, which takes no boolean.\<close>

definition to_enum :: "json \<Rightarrow> int res" where
  "to_enum j = (case j of JBoolean _ \<Rightarrow> Inl (JsonTypeError 302) | _ \<Rightarrow> to_int j)"

definition to_uint64 :: "json \<Rightarrow> u64 res" where
  "to_uint64 j =
     (case j of
        JUnsigned w \<Rightarrow> Inr w
      | JInteger i \<Rightarrow> Inr (of_int i)
      | JFloat m e \<Rightarrow>
          (if 0 \<le> float_trunc m e \<and> float_trunc m e < 2 ^ 64 then Inr (of_int (float_trunc m e))
           else Inl BadConversion)
      | _ \<Rightarrow> Inl (JsonTypeError 302))"

definition to_str :: "json \<Rightarrow> string res" where
  "to_str j = (case j of JString s \<Rightarrow> Inr s | _ \<Rightarrow> Inl (JsonTypeError 302))"

section \<open>Decimal numerals\<close>

text \<open>\<open>std::to_string\<close> of an \<open>int\<close>.\<close>

definition digit_char :: "nat \<Rightarrow> char" where
  "digit_char d = char_of (48 + d)"

fun dec_nat :: "nat \<Rightarrow> string" where
  "dec_nat n = (if n < 10 then [digit_char n] else dec_nat (n div 10) @ [digit_char (n mod 10)])"

declare dec_nat.simps [simp del]

definition dec_int :: "int \<Rightarrow> string" where
  "dec_int i = (if i < 0 then CHR 0x2D # dec_nat (nat (- i)) else dec_nat (nat i))"

section \<open>Facts\<close>

lemma map_of_map_put: "map_of (map_put k v m) k' = (if k' = k then Some v else map_of m k')"
  by (induction m rule: map_put.induct [of _ k v]) auto

lemma str_less_irrefl [simp]: "\<not> str_less s s"
  by (induction s) auto

lemma str_less_trans: "str_less a b \<Longrightarrow> str_less b c \<Longrightarrow> str_less a c"
proof (induction a b arbitrary: c rule: str_less.induct)
  case (2 b bs)
  then show ?case by (cases c) auto
next
  case (3 a as b bs)
  then show ?case by (cases c) auto
qed auto

lemma str_less_linear: "str_less a b \<or> a = b \<or> str_less b a"
proof (induction a b rule: str_less.induct)
  case (1 a)
  then show ?case by (cases a) auto
next
  case (3 a as b bs)
  then show ?case using linorder_less_linear [of "of_char a :: nat" "of_char b"] by auto
qed auto

text \<open>An object built by assignment has its keys in strict order.\<close>

abbreviation sorted_keys :: "(string \<times> 'v) list \<Rightarrow> bool" where
  "sorted_keys m \<equiv> sorted_wrt str_less (map fst m)"

lemma set_map_put: "fst ` set (map_put k v m) = insert k (fst ` set m)"
  by (induction m rule: map_put.induct [of _ k v]) auto

lemma sorted_map_put: "sorted_keys m \<Longrightarrow> sorted_keys (map_put k v m)"
proof (induction k v m rule: map_put.induct)
  case (2 k v k' v' m)
  have "k = k' \<or> str_less k k' \<or> str_less k' k" using str_less_linear by blast
  then show ?case using 2 by (auto simp: set_map_put intro: str_less_trans)
qed simp

lemma json_member_Inr [simp]:
  "json_member key (JObject m) = Inr (case map_of m key of None \<Rightarrow> JNull | Some v \<Rightarrow> v)"
  by (simp add: json_member_def)

lemma to_str_JString [simp]: "to_str (JString s) = Inr s"
  by (simp add: to_str_def)

lemma sint_of_int_i32: "in_i32 i \<Longrightarrow> sint (of_int i :: u32) = i"
  unfolding in_i32_def by (subst sint_sbintrunc') (auto simp: signed_take_bit_int_eq_self)

lemma to_int_JInteger: "in_i32 i \<Longrightarrow> to_int (JInteger i) = Inr i"
  by (simp add: to_int_def sint_of_int_i32)

lemma to_enum_JInteger: "in_i32 i \<Longrightarrow> to_enum (JInteger i) = Inr i"
  by (simp add: to_enum_def to_int_JInteger)

end
