(* ===== verification/Json_Parser.thy ===== *)
theory Json_Parser
  imports Graph Json
begin

text \<open>
  \<open>JsonParser\<close> (\<open>parser/json_parser.hpp\<close>): from the JSON value of a configuration file to the
  graph, the split strategy and the hardware parameters.  Reading the file and parsing its
  text (\<open>json::parse\<close>) come before; the model starts from the parsed value \<open>m_config\<close>.
\<close>

section \<open>Operators and attributes\<close>

definition getOpType :: "string \<Rightarrow> Operator res" where
  "getOpType type =
     (if type = ''Conv'' then Inr CONV
      else if type = ''Gemm'' then Inr GEMM
      else if type = ''Relu'' then Inr RELU
      else if type = ''MaxPool'' then Inr MAXPOOL
      else if type = ''BatchNormalization'' then Inr BATCHNORMAL
      else if type = ''SoftMax'' then Inr SOFTMAX
      else if type = ''Reshape'' then Inr RESHPAE
      else if type = ''GlobalAveragePool'' then Inr AVGPOOL
      else Inl NoReturn)"

text \<open>\<open>for (auto v : j) val.push_back(v)\<close>\<close>

definition read_ints :: "json \<Rightarrow> int list res" where
  "read_ints j = mapM to_int (json_values j)"

definition has_ints :: "json \<Rightarrow> bool" where
  "has_ints name \<longleftrightarrow>
     name = JString ''kernel_shape'' \<or> name = JString ''pads'' \<or> name = JString ''strides''"

text \<open>
  The first pass over the attributes fills only variables that are never read again; what
  remains of it are its conversions, which can throw.  An attribute with a member
  \<open>address\<close> must hold an address, a name and a size in the order of its keys.
\<close>

definition address_attribute :: "json \<Rightarrow> unit res" where
  "address_attribute attr =
     bindE (foldE (\<lambda>(i, v) (addr, key, sz).
              if i = 0 then bindE (to_uint64 v) (\<lambda>a. Inr (Some a, key, sz))
              else if i = 1 then bindE (to_str v) (\<lambda>k. Inr (addr, k, sz))
              else bindE (to_uint64 v) (\<lambda>s. Inr (addr, key, Some s)))
            (zip [0..<length (json_values attr)] (json_values attr)) (None, [], None)) (\<lambda>(addr, key, sz).
     bindE (determinate addr) (\<lambda>_.
     bindE (determinate sz) (\<lambda>_. Inr ())))"

definition check_attribute :: "json \<Rightarrow> unit res" where
  "check_attribute attr =
     (if \<not> json_has ''address'' attr then
        bindE (json_member ''name'' attr) (\<lambda>name.
        bindE (json_member ''type'' attr) (\<lambda>_.
        if has_ints name then
          bindE (json_member ''ints'' attr) (\<lambda>v. bindE (read_ints v) (\<lambda>_. Inr ()))
        else Inr ()))
      else address_attribute attr)"

section \<open>Tensors\<close>

type_synonym tensor_names = "(string \<times> nat) list"

text \<open>\<open>new Tensor(j["name"], shape, type["elem_type"])\<close>, and its name.\<close>

definition read_tensor :: "json \<Rightarrow> tensor res" where
  "read_tensor j =
     bindE (json_member ''type'' j) (\<lambda>type.
     bindE (json_member ''shape'' type) (\<lambda>dims.
     bindE (read_ints dims) (\<lambda>shape.
     bindE (json_member ''name'' j) (\<lambda>name.
     bindE (to_str name) (\<lambda>s.
     bindE (json_member ''elem_type'' type) (\<lambda>et.
     bindE (to_enum et) (\<lambda>ty.
     Inr (new_tensor s shape ty))))))))"

definition input_step :: "json \<Rightarrow> heap \<times> tensor_names \<times> tref list \<Rightarrow> (heap \<times> tensor_names \<times> tref list) res" where
  "input_step j = (\<lambda>(h, names, ins).
     bindE (read_tensor j) (\<lambda>t.
     Inr (h @ [t], map_put (t_name t) 1 names, ins @ [length h])))"

text \<open>\<open>i->address = attr["ints"][0]; i->original_size = attr["ints"][1]\<close>\<close>

definition set_address :: "json \<Rightarrow> string \<Rightarrow> tref \<Rightarrow> heap \<Rightarrow> heap res" where
  "set_address attr name p h =
     bindE (vec_at h p) (\<lambda>t.
     if t_name t = name then
       bindE (json_member ''ints'' attr) (\<lambda>v.
       bindE (json_index 0 v) (\<lambda>x.
       bindE (to_uint64 x) (\<lambda>a.
       bindE (json_index 1 v) (\<lambda>y.
       bindE (to_uint64 y) (\<lambda>sz.
       Inr (h[p := t\<lparr>t_address := Some a, t_original_size := Some sz\<rparr>]))))))
     else Inr h)"

definition attribute_step :: "tensor_names \<Rightarrow> json \<Rightarrow> heap \<times> node \<Rightarrow> (heap \<times> node) res" where
  "attribute_step names attr = (\<lambda>(h, nd).
     bindE (json_member ''name'' attr) (\<lambda>jname.
     bindE (to_str jname) (\<lambda>name.
     case map_of names name of
       Some k \<Rightarrow>
         if k = 1 then bindE (foldE (set_address attr name) (n_inputs nd) h) (\<lambda>h. Inr (h, nd))
         else if k = 2 then bindE (foldE (set_address attr name) (n_outputs nd) h) (\<lambda>h. Inr (h, nd))
         else Inr (h, nd)
     | None \<Rightarrow>
         bindE (json_member ''type'' attr) (\<lambda>type.
         bindE (if has_ints jname then bindE (json_member ''ints'' attr) read_ints else Inr []) (\<lambda>val.
         bindE (to_enum type) (\<lambda>ty.
         Inr (h, nd\<lparr>n_attributes := n_attributes nd @
                     [\<lparr>a_name = name, a_data_type = ty, a_data = val\<rparr>]\<rparr>)))))))"

section \<open>Layers and the whole file\<close>

definition layer_step :: "json \<Rightarrow> heap \<times> graph \<Rightarrow> (heap \<times> graph) res" where
  "layer_step layers = (\<lambda>(h, g).
     bindE (json_member ''name'' layers) (\<lambda>jname.
     bindE (to_str jname) (\<lambda>name.
     bindE (json_member ''id'' layers) (\<lambda>jid.
     bindE (to_int jid) (\<lambda>id.
     bindE (json_member ''op_type'' layers) (\<lambda>jop.
     bindE (to_str jop) (\<lambda>op.
     bindE (getOpType op) (\<lambda>op_type.
     bindE (json_member ''attribute'' layers) (\<lambda>attributes.
     bindE (foldE (\<lambda>attr _. check_attribute attr) (json_values attributes) ()) (\<lambda>_.
     bindE (json_member ''input_tensor'' layers) (\<lambda>inputs.
     bindE (foldE input_step (json_values inputs) (h, [], [])) (\<lambda>(h, names, ins).
     bindE (json_member ''output_tensor'' layers) (\<lambda>output.
     bindE (read_tensor output) (\<lambda>t.
     bindE (foldE (attribute_step (map_put (t_name t) 2 names)) (json_values attributes)
              (h @ [t], (new_node (of_int id) name op_type)\<lparr>n_inputs := ins, n_outputs := [length h]\<rparr>))
       (\<lambda>(h, nd).
     Inr (h, g\<lparr>g_nodes := g_nodes g @ [nd]\<rparr>))))))))))))))))"

text \<open>\<open>items()\<close>: keys and values; an array has its indices as keys, another value an empty key.\<close>

definition json_items :: "json \<Rightarrow> (string \<times> json) list" where
  "json_items j =
     (case j of
        JNull \<Rightarrow> []
      | JObject m \<Rightarrow> m
      | JArray xs \<Rightarrow> zip (map dec_nat [0..<length xs]) xs
      | _ \<Rightarrow> [([], j)])"

record JsonParser =
  jp_config :: json
  jp_layout :: string
  jp_name :: string
  jp_mapping :: string
  jp_hardwareInfo :: "string \<rightharpoonup> int"
  jp_model :: graph
  jp_strategy :: strategy
  jp_heap :: heap

definition config_string :: "string \<Rightarrow> json \<Rightarrow> string res" where
  "config_string key cfg = bindE (json_member key cfg) to_str"

definition preprocessing :: "json \<Rightarrow> JsonParser res" where
  "preprocessing cfg =
     bindE (config_string ''Layout'' cfg) (\<lambda>layout.
     bindE (config_string ''Name'' cfg) (\<lambda>name.
     bindE (config_string ''Mapping'' cfg) (\<lambda>mapping.
     bindE (json_member ''Split'' cfg) (\<lambda>split.
     bindE (mapM read_ints (json_values split)) (\<lambda>sizes.
     bindE (json_member ''HardwareInfo'' cfg) (\<lambda>hw.
     bindE (foldE (\<lambda>(key, val) m. bindE (to_int val) (\<lambda>v. Inr (m(key \<mapsto> v)))) (json_items hw)
              Map.empty) (\<lambda>info.
     bindE (json_member ''Model'' cfg) (\<lambda>model.
     bindE (foldE layer_step (json_values model) ([], \<lparr>g_nodes = []\<rparr>)) (\<lambda>(h, g).
     Inr \<lparr>jp_config = cfg, jp_layout = layout, jp_name = name, jp_mapping = mapping,
          jp_hardwareInfo = info, jp_model = g,
          jp_strategy = \<lparr>splitSize = sizes, mappingStrategy = mapping\<rparr>, jp_heap = h\<rparr>)))))))))"

definition getTensorLayout :: "JsonParser \<Rightarrow> string res" where
  "getTensorLayout p = config_string ''Layout'' (jp_config p)"

definition getModelName :: "JsonParser \<Rightarrow> string res" where
  "getModelName p = config_string ''Name'' (jp_config p)"

definition getMapping :: "JsonParser \<Rightarrow> string res" where
  "getMapping p = config_string ''Mapping'' (jp_config p)"

text \<open>\<open>hardware[key]\<close>: a missing entry of the \<open>unordered_map\<close> is zero.\<close>

definition hardware_at :: "JsonParser \<Rightarrow> string \<Rightarrow> int" where
  "hardware_at p key = (case jp_hardwareInfo p key of None \<Rightarrow> 0 | Some v \<Rightarrow> v)"

end
