(* ===== verification/Json_Format.thy ===== *)
theory Json_Format
  imports Json_Parser
begin

text \<open>
  What the parser makes of the files it is given.  A configuration file describes layers
  with their attributes and tensors (the output of the ONNX front end); \<open>config_json\<close> is the
  JSON value of such a description, with the members of every object in key order, as the
  library's \<open>std::map\<close> keeps them.  The parser turns it into exactly the described graph,
  strategy and hardware parameters, and every tensor gets the address and size of the
  attribute that bears its name.
\<close>

section \<open>Descriptions and their JSON values\<close>

text \<open>The lexer yields an unsigned number unless there is a minus sign.\<close>

definition num_json :: "int \<Rightarrow> json" where
  "num_json i = (if i < 0 then JInteger i else JUnsigned (of_int i))"

record tensor_desc =
  td_name :: string
  td_shape :: "int list"
  td_elem :: int

record attr_desc =
  ad_name :: string
  ad_ints :: "int list"
  ad_type :: int

record layer_desc =
  ld_name :: string
  ld_id :: int
  ld_op :: Operator
  ld_attrs :: "attr_desc list"
  ld_inputs :: "tensor_desc list"
  ld_output :: tensor_desc

record config_desc =
  cd_layout :: string
  cd_name :: string
  cd_mapping :: string
  cd_split :: "(string \<times> int list) list"
  cd_hardware :: "(string \<times> int) list"
  cd_model :: "layer_desc list"

fun op_name :: "Operator \<Rightarrow> string" where
  "op_name CONV = ''Conv''"
| "op_name GEMM = ''Gemm''"
| "op_name RELU = ''Relu''"
| "op_name MAXPOOL = ''MaxPool''"
| "op_name BATCHNORMAL = ''BatchNormalization''"
| "op_name SOFTMAX = ''SoftMax''"
| "op_name RESHPAE = ''Reshape''"
| "op_name AVGPOOL = ''GlobalAveragePool''"

definition ints_json :: "int list \<Rightarrow> json" where
  "ints_json xs = JArray (map num_json xs)"

definition tensor_json :: "tensor_desc \<Rightarrow> json" where
  "tensor_json t =
     JObject [(''name'', JString (td_name t)),
              (''type'', JObject [(''elem_type'', num_json (td_elem t)), (''shape'', ints_json (td_shape t))])]"

definition attr_json :: "attr_desc \<Rightarrow> json" where
  "attr_json a =
     JObject [(''ints'', ints_json (ad_ints a)), (''name'', JString (ad_name a)), (''type'', num_json (ad_type a))]"

definition layer_json :: "layer_desc \<Rightarrow> json" where
  "layer_json l =
     JObject [(''attribute'', JArray (map attr_json (ld_attrs l))), (''id'', num_json (ld_id l)),
              (''input_tensor'', JArray (map tensor_json (ld_inputs l))), (''name'', JString (ld_name l)),
              (''op_type'', JString (op_name (ld_op l))), (''output_tensor'', tensor_json (ld_output l))]"

text \<open>The members of an object, from the members in the order of the text: the last of equal keys stays.\<close>

definition as_map :: "(string \<times> 'v) list \<Rightarrow> (string \<times> 'v) list" where
  "as_map ps = fold (\<lambda>(k, v). map_put k v) ps []"

definition config_json :: "config_desc \<Rightarrow> json" where
  "config_json c =
     JObject [(''HardwareInfo'', JObject (as_map (map (\<lambda>(k, v). (k, num_json v)) (cd_hardware c)))),
              (''Layout'', JString (cd_layout c)), (''Mapping'', JString (cd_mapping c)),
              (''Model'', JArray (map layer_json (cd_model c))), (''Name'', JString (cd_name c)),
              (''Split'', JObject (as_map (map (\<lambda>(k, v). (k, ints_json v)) (cd_split c))))]"

section \<open>What is meant by a description\<close>

definition bare_tensor :: "tensor_desc \<Rightarrow> tensor" where
  "bare_tensor t = new_tensor (td_name t) (td_shape t) (td_elem t)"

definition located :: "attr_desc list \<Rightarrow> tensor \<Rightarrow> tensor" where
  "located as t =
     (case find (\<lambda>a. ad_name a = t_name t) (rev as) of
        None \<Rightarrow> t
      | Some a \<Rightarrow> t\<lparr>t_address := Some (of_int (ad_ints a ! 0)), t_original_size := Some (of_int (ad_ints a ! 1))\<rparr>)"

definition tensor_names_of :: "layer_desc \<Rightarrow> string set" where
  "tensor_names_of l = td_name ` set (ld_output l # ld_inputs l)"

definition plain_attribute :: "attr_desc \<Rightarrow> node_attribute" where
  "plain_attribute a =
     \<lparr>a_name = ad_name a, a_data_type = ad_type a,
      a_data = (if has_ints (JString (ad_name a)) then ad_ints a else [])\<rparr>"

definition layer_tensors :: "layer_desc \<Rightarrow> tensor list" where
  "layer_tensors l = map (\<lambda>t. located (ld_attrs l) (bare_tensor t)) (ld_inputs l @ [ld_output l])"

definition layer_node :: "nat \<Rightarrow> layer_desc \<Rightarrow> node" where
  "layer_node n l =
     (new_node (of_int (ld_id l)) (ld_name l) (ld_op l))\<lparr>
        n_inputs := [n..<n + length (ld_inputs l)], n_outputs := [n + length (ld_inputs l)],
        n_attributes := map plain_attribute (filter (\<lambda>a. ad_name a \<notin> tensor_names_of l) (ld_attrs l))\<rparr>"

definition fits_u64 :: "int \<Rightarrow> bool" where
  "fits_u64 i \<longleftrightarrow> 0 \<le> i \<and> i < 2 ^ 64"

definition wf_tensor :: "tensor_desc \<Rightarrow> bool" where
  "wf_tensor t \<longleftrightarrow> list_all in_i32 (td_shape t) \<and> in_i32 (td_elem t)"

definition wf_attr :: "layer_desc \<Rightarrow> attr_desc \<Rightarrow> bool" where
  "wf_attr l a \<longleftrightarrow> in_i32 (ad_type a) \<and>
     (has_ints (JString (ad_name a)) \<longrightarrow> list_all in_i32 (ad_ints a)) \<and>
     (ad_name a \<in> tensor_names_of l \<longrightarrow>
        2 \<le> length (ad_ints a) \<and> fits_u64 (ad_ints a ! 0) \<and> fits_u64 (ad_ints a ! 1))"

definition wf_layer :: "layer_desc \<Rightarrow> bool" where
  "wf_layer l \<longleftrightarrow> in_i32 (ld_id l) \<and> list_all wf_tensor (ld_output l # ld_inputs l) \<and>
     list_all (wf_attr l) (ld_attrs l) \<and> td_name (ld_output l) \<notin> td_name ` set (ld_inputs l)"

section \<open>Members in key order\<close>

lemma as_map_snoc: "as_map (ps @ [(k, v)]) = map_put k v (as_map ps)"
  by (simp add: as_map_def)

lemma as_map_sorted: "sorted_keys (as_map ps)"
proof (induction ps rule: rev_induct)
  case (snoc p ps)
  then show ?case by (cases p) (simp only: as_map_snoc sorted_map_put)
qed (simp add: as_map_def)

lemma map_of_as_map: "map_of (as_map ps) = map_of (rev ps)"
proof (induction ps rule: rev_induct)
  case (snoc p ps)
  then show ?case by (cases p) (auto simp: as_map_snoc map_of_map_put fun_eq_iff)
qed (simp add: as_map_def)

lemma map_put_values:
  "map_put k (f v) (map (\<lambda>(k, v). (k, f v)) m) = map (\<lambda>(k, v). (k, f v)) (map_put k v m)"
  by (induction m rule: map_put.induct [of _ k v]) auto

lemma as_map_values: "as_map (map (\<lambda>(k, v). (k, f v)) ps) = map (\<lambda>(k, v). (k, f v)) (as_map ps)"
proof (induction ps rule: rev_induct)
  case (snoc p ps)
  then show ?case by (cases p) (simp add: as_map_snoc map_put_values)
qed (simp add: as_map_def)

lemma set_map_put_subset: "set (map_put k v m) \<subseteq> insert (k, v) (set m)"
  by (induction m rule: map_put.induct [of _ k v]) auto

lemma as_map_subset: "set (as_map ps) \<subseteq> set ps"
proof (induction ps rule: rev_induct)
  case (snoc p ps)
  then show ?case using set_map_put_subset by (cases p) (force simp: as_map_snoc)
qed (simp add: as_map_def)

lemma sorted_distinct: "sorted_keys m \<Longrightarrow> distinct (map fst m)"
  by (induction m) (auto simp: image_iff)

lemma map_of_rev_as_map: "map_of (rev (as_map ps)) = map_of (rev ps)"
proof -
  have "distinct (map fst (as_map ps))" by (rule sorted_distinct [OF as_map_sorted])
  then have "map_of (rev (as_map ps)) = map_of (as_map ps)"
    by (intro map_of_inject_set [THEN iffD2]) (simp_all add: rev_map [symmetric])
  then show ?thesis by (simp add: map_of_as_map)
qed

text \<open>All objects of a configuration have their members in key order.\<close>

fun keys_ordered :: "json \<Rightarrow> bool" where
  "keys_ordered (JObject m) = (sorted_keys m \<and> list_all (\<lambda>(k, v). keys_ordered v) m)"
| "keys_ordered (JArray xs) = list_all keys_ordered xs"
| "keys_ordered _ = True"

lemma keys_ordered_ints: "keys_ordered (num_json i)" "keys_ordered (ints_json xs)"
  by (auto simp: num_json_def ints_json_def list_all_iff)

lemma config_keys_ordered: "keys_ordered (config_json c)"
proof -
  have t: "keys_ordered (tensor_json t)" and a: "keys_ordered (attr_json a)" for t a
    by (simp_all add: tensor_json_def attr_json_def keys_ordered_ints)
  have "keys_ordered (layer_json l)" for l
    by (simp add: layer_json_def keys_ordered_ints list_all_iff t a)
  moreover have "list_all (\<lambda>(k, v). keys_ordered v) (as_map (map (\<lambda>(k, v). (k, num_json v)) hw))"
    "list_all (\<lambda>(k, v). keys_ordered v) (as_map (map (\<lambda>(k, v). (k, ints_json v)) sp))" for hw sp
    unfolding as_map_values by (auto simp: list_all_iff keys_ordered_ints)
  ultimately show ?thesis
    by (simp add: config_json_def as_map_sorted list_all_iff)
qed

section \<open>Reading back\<close>

lemma to_int_num_json [simp]: "in_i32 i \<Longrightarrow> to_int (num_json i) = Inr i"
  by (auto simp: num_json_def to_int_def sint_of_int_i32 ucast_eq in_i32_def sint_sbintrunc'
      signed_take_bit_int_eq_self uint_word_of_int)

lemma to_enum_num_json [simp]: "in_i32 i \<Longrightarrow> to_enum (num_json i) = Inr i"
  using to_int_num_json [of i] by (auto simp: to_enum_def num_json_def split: json.splits)

lemma to_uint64_num_json [simp]: "fits_u64 i \<Longrightarrow> to_uint64 (num_json i) = Inr (of_int i)"
  by (simp add: num_json_def to_uint64_def fits_u64_def)

lemma read_ints_json [simp]: "list_all in_i32 xs \<Longrightarrow> read_ints (ints_json xs) = Inr xs"
  unfolding read_ints_def ints_json_def json_values_def by simp (induction xs; simp)

lemma read_tensor_json [simp]: "wf_tensor t \<Longrightarrow> read_tensor (tensor_json t) = Inr (bare_tensor t)"
  by (simp add: read_tensor_def tensor_json_def wf_tensor_def bare_tensor_def)

lemma getOpType_op_name [simp]: "getOpType (op_name op) = Inr op"
  by (cases op) (simp_all add: getOpType_def)

lemma json_values_JArray [simp]: "json_values (JArray xs) = xs"
  by (simp add: json_values_def)

lemma json_index_ints:
  "i < length xs \<Longrightarrow> json_index i (ints_json xs) = Inr (num_json (xs ! i))"
  by (simp add: json_index_def ints_json_def)

lemma upt_from: "[n..<n + Suc k] = n # [Suc n..<Suc n + k]"
  by (simp add: upt_conv_Cons del: upt_Suc)

lemma check_attributes_json:
  assumes "list_all (wf_attr l) as"
  shows "foldE (\<lambda>attr _. check_attribute attr) (map attr_json as) () = Inr ()"
  using assms
  by (induction "as") (auto simp: check_attribute_def attr_json_def json_has_def wf_attr_def)

lemma input_steps_json:
  assumes "list_all wf_tensor ts"
  shows "\<exists>names'. foldE input_step (map tensor_json ts) (h, names, ins) =
      Inr (h @ map bare_tensor ts, names', ins @ [length h..<length h + length ts]) \<and>
      (\<forall>s. map_of names' s = (if s \<in> td_name ` set ts then Some 1 else map_of names s))"
  using assms
proof (induction ts arbitrary: h names ins)
  case (Cons t ts)
  have "input_step (tensor_json t) (h, names, ins) =
      Inr (h @ [bare_tensor t], map_put (td_name t) 1 names, ins @ [length h])"
    using Cons.prems by (simp add: input_step_def bare_tensor_def new_tensor_def)
  moreover obtain names' where
    "foldE input_step (map tensor_json ts) (h @ [bare_tensor t], map_put (td_name t) 1 names, ins @ [length h]) =
      Inr ((h @ [bare_tensor t]) @ map bare_tensor ts, names',
           (ins @ [length h]) @ [length (h @ [bare_tensor t])..<length (h @ [bare_tensor t]) + length ts])"
    "\<forall>s. map_of names' s = (if s \<in> td_name ` set ts then Some 1 else map_of (map_put (td_name t) 1 names) s)"
    using Cons by fastforce
  moreover have "[length h..<length h + length (t # ts)] =
      length h # [length (h @ [bare_tensor t])..<length (h @ [bare_tensor t]) + length ts]"
    using upt_from [of "length h" "length ts"] by simp
  ultimately show ?case by (auto simp: map_of_map_put simp del: upt_Suc)
qed simp

text \<open>One attribute that bears the name of a tensor: every tensor of that name is placed.\<close>

definition place :: "attr_desc \<Rightarrow> tensor \<Rightarrow> tensor" where
  "place a t =
     (if ad_name a = t_name t
      then t\<lparr>t_address := Some (of_int (ad_ints a ! 0)), t_original_size := Some (of_int (ad_ints a ! 1))\<rparr>
      else t)"

lemma located_snoc: "located (as @ [a]) t = place a (located as t)"
  by (auto simp: located_def place_def split: option.splits)

lemma located_Nil [simp]: "located [] t = t"
  by (simp add: located_def)

lemma t_name_located [simp]: "t_name (located as t) = t_name t"
  by (simp add: located_def split: option.splits)

lemma t_name_bare [simp]: "t_name (bare_tensor t) = td_name t"
  by (simp add: bare_tensor_def new_tensor_def)

lemma set_address_json:
  assumes "2 \<le> length (ad_ints a)" "fits_u64 (ad_ints a ! 0)" "fits_u64 (ad_ints a ! 1)" "p < length h"
  shows "set_address (attr_json a) (ad_name a) p h = Inr (h[p := place a (h ! p)])"
proof -
  have "json_index 0 (ints_json (ad_ints a)) = Inr (num_json (ad_ints a ! 0))"
    "json_index 1 (ints_json (ad_ints a)) = Inr (num_json (ad_ints a ! 1))"
    using assms(1) by (auto intro!: json_index_ints)
  then show ?thesis
    using assms(2-) by (simp add: set_address_def attr_json_def place_def vec_at_def)
qed

lemma set_addresses_json:
  assumes "2 \<le> length (ad_ints a)" "fits_u64 (ad_ints a ! 0)" "fits_u64 (ad_ints a ! 1)"
  shows "foldE (set_address (attr_json a) (ad_name a)) [length h..<length h + length ts] (h @ ts @ rest) =
     Inr (h @ map (place a) ts @ rest)"
proof (induction ts arbitrary: h)
  case (Cons t ts)
  have "set_address (attr_json a) (ad_name a) (length h) (h @ (t # ts) @ rest) = Inr ((h @ [place a t]) @ ts @ rest)"
    by (subst set_address_json [OF assms]) simp_all
  moreover have "[length h..<length h + length (t # ts)] =
      length h # [length (h @ [place a t])..<length (h @ [place a t]) + length ts]"
    using upt_from [of "length h" "length ts"] by simp
  ultimately show ?case using Cons.IH [of "h @ [place a t]"] by simp
qed simp

text \<open>The second pass over the attributes.\<close>

lemma map_place_other:
  "\<forall>t \<in> set ts. t_name t \<noteq> ad_name a \<Longrightarrow> map (place a) ts = ts"
  by (rule map_idI) (auto simp: place_def)

lemma attribute_step_json:
  fixes h0 :: heap and l :: layer_desc and nd :: node
  defines "n \<equiv> length h0" and "m \<equiv> length (ld_inputs l)"
  assumes wf: "wf_attr l a" "td_name (ld_output l) \<notin> td_name ` set (ld_inputs l)"
    and names: "\<And>s. map_of names s = (if s = td_name (ld_output l) then Some 2
                    else if s \<in> td_name ` set (ld_inputs l) then Some 1 else None)"
    and nd: "n_inputs nd = [n..<n + m]" "n_outputs nd = [n + m]"
    and ts: "map t_name ts = map td_name (ld_inputs l)" "t_name out = td_name (ld_output l)"
  shows "attribute_step names (attr_json a) (h0 @ ts @ [out], nd) =
     Inr (h0 @ map (place a) ts @ [place a out],
          if ad_name a \<in> tensor_names_of l then nd
          else nd\<lparr>n_attributes := n_attributes nd @ [plain_attribute a]\<rparr>)"
proof -
  have len: "length ts = m" using arg_cong [OF ts(1), of length] by (simp add: m_def)
  have tn: "t_name t \<in> td_name ` set (ld_inputs l)" if "t \<in> set ts" for t
  proof -
    have "t_name t \<in> set (map t_name ts)" using that by simp
    then show ?thesis unfolding ts(1) by simp
  qed
  have name: "json_member ''name'' (attr_json a) = Inr (JString (ad_name a))"
    by (simp add: attr_json_def)
  consider (out) "ad_name a = td_name (ld_output l)"
    | (inp) "ad_name a \<noteq> td_name (ld_output l)" "ad_name a \<in> td_name ` set (ld_inputs l)"
    | (other) "ad_name a \<notin> tensor_names_of l" by (auto simp: tensor_names_of_def)
  then show ?thesis
  proof cases
    case out
    have r: "2 \<le> length (ad_ints a)" "fits_u64 (ad_ints a ! 0)" "fits_u64 (ad_ints a ! 1)"
      using wf(1) out by (auto simp: wf_attr_def tensor_names_of_def)
    have id: "map (place a) ts = ts" by (rule map_place_other) (metis out wf(2) tn)
    have "foldE (set_address (attr_json a) (ad_name a)) [length (h0 @ ts)..<length (h0 @ ts) + length [out]]
        ((h0 @ ts) @ [out] @ []) = Inr ((h0 @ ts) @ map (place a) [out] @ [])"
      by (rule set_addresses_json [OF r])
    then have f: "foldE (set_address (attr_json a) (ad_name a)) (n_outputs nd) (h0 @ ts @ [out]) =
        Inr (h0 @ map (place a) ts @ [place a out])"
      by (simp add: nd n_def len id)
    have mem: "ad_name a \<in> tensor_names_of l" using out by (simp add: tensor_names_of_def)
    show ?thesis unfolding attribute_step_def prod.case name
      by (simp add: names out [symmetric] mem f)
  next
    case inp
    have mem: "ad_name a \<in> tensor_names_of l" using inp by (auto simp: tensor_names_of_def)
    then have r: "2 \<le> length (ad_ints a)" "fits_u64 (ad_ints a ! 0)" "fits_u64 (ad_ints a ! 1)"
      using wf(1) by (auto simp: wf_attr_def)
    have id: "place a out = out" using inp(1) ts(2) by (simp add: place_def)
    have f: "foldE (set_address (attr_json a) (ad_name a)) (n_inputs nd) (h0 @ ts @ [out]) =
        Inr (h0 @ map (place a) ts @ [place a out])"
      using set_addresses_json [OF r, of h0 ts "[out]"] by (simp add: nd n_def len id)
    show ?thesis unfolding attribute_step_def prod.case name
      using inp mem by (simp add: names f)
  next
    case other
    then have ne: "ad_name a \<notin> td_name ` set (ld_inputs l)" "ad_name a \<noteq> td_name (ld_output l)"
      by (auto simp: tensor_names_of_def)
    have ids: "map (place a) ts = ts" by (rule map_place_other) (metis ne(1) tn)
    have ido: "place a out = out" using ne(2) ts(2) by (simp add: place_def)
    have "map_of names (ad_name a) = None" unfolding names using ne by simp
    moreover have "json_member ''type'' (attr_json a) = Inr (num_json (ad_type a))"
      "json_member ''ints'' (attr_json a) = Inr (ints_json (ad_ints a))"
      by (simp_all add: attr_json_def)
    ultimately show ?thesis unfolding attribute_step_def prod.case name
      using other wf(1) by (simp add: ids ido plain_attribute_def wf_attr_def)
  qed
qed

lemma attribute_steps_json:
  fixes h0 :: heap and l :: layer_desc and nd :: node
  defines "n \<equiv> length h0" and "m \<equiv> length (ld_inputs l)"
  assumes "list_all (wf_attr l) as" and out: "td_name (ld_output l) \<notin> td_name ` set (ld_inputs l)"
    and names: "\<And>s. map_of names s = (if s = td_name (ld_output l) then Some 2
                    else if s \<in> td_name ` set (ld_inputs l) then Some 1 else None)"
    and nd: "n_inputs nd = [n..<n + m]" "n_outputs nd = [n + m]" "n_attributes nd = []"
  shows "foldE (attribute_step names) (map attr_json as)
       (h0 @ map bare_tensor (ld_inputs l) @ [bare_tensor (ld_output l)], nd) =
     Inr (h0 @ map (\<lambda>t. located as (bare_tensor t)) (ld_inputs l) @ [located as (bare_tensor (ld_output l))],
          nd\<lparr>n_attributes := map plain_attribute (filter (\<lambda>a. ad_name a \<notin> tensor_names_of l) as)\<rparr>)"
  using assms(3)
proof (induction "as" rule: rev_induct)
  case Nil
  then show ?case using nd(3) by simp
next
  case (snoc a as)
  let ?nd = "nd\<lparr>n_attributes := map plain_attribute (filter (\<lambda>a. ad_name a \<notin> tensor_names_of l) as)\<rparr>"
  have "attribute_step names (attr_json a)
       (h0 @ map (\<lambda>t. located as (bare_tensor t)) (ld_inputs l) @ [located as (bare_tensor (ld_output l))], ?nd) =
     Inr (h0 @ map (place a) (map (\<lambda>t. located as (bare_tensor t)) (ld_inputs l)) @
            [place a (located as (bare_tensor (ld_output l)))],
          if ad_name a \<in> tensor_names_of l then ?nd
          else ?nd\<lparr>n_attributes := n_attributes ?nd @ [plain_attribute a]\<rparr>)"
    by (rule attribute_step_json [OF _ out names]) (use snoc.prems nd in \<open>auto simp: n_def m_def\<close>)
  then show ?case
    using snoc by (simp add: foldE_append located_snoc)
qed

lemma layer_step_json:
  assumes "wf_layer l"
  shows "layer_step (layer_json l) (h, g) =
     Inr (h @ layer_tensors l, g\<lparr>g_nodes := g_nodes g @ [layer_node (length h) l]\<rparr>)"
proof -
  have wf: "in_i32 (ld_id l)" "list_all wf_tensor (ld_inputs l)" "wf_tensor (ld_output l)"
    "list_all (wf_attr l) (ld_attrs l)" "td_name (ld_output l) \<notin> td_name ` set (ld_inputs l)"
    using assms by (auto simp: wf_layer_def)
  obtain names where ins: "foldE input_step (map tensor_json (ld_inputs l)) (h, [], []) =
      Inr (h @ map bare_tensor (ld_inputs l), names, [length h..<length h + length (ld_inputs l)])"
    and names: "\<And>s. map_of names s = (if s \<in> td_name ` set (ld_inputs l) then Some 1 else None)"
    using input_steps_json [OF wf(2), of h "[]" "[]"] by auto
  have mem: "json_member ''name'' (layer_json l) = Inr (JString (ld_name l))"
    "json_member ''id'' (layer_json l) = Inr (num_json (ld_id l))"
    "json_member ''op_type'' (layer_json l) = Inr (JString (op_name (ld_op l)))"
    "json_member ''attribute'' (layer_json l) = Inr (JArray (map attr_json (ld_attrs l)))"
    "json_member ''input_tensor'' (layer_json l) = Inr (JArray (map tensor_json (ld_inputs l)))"
    "json_member ''output_tensor'' (layer_json l) = Inr (tensor_json (ld_output l))"
    by (simp_all add: layer_json_def)
  show ?thesis
    unfolding layer_step_def prod.case mem
    using attribute_steps_json [OF wf(4,5), where ?h0.0 = h and names = "map_put (td_name (ld_output l)) 2 names"
        and nd = "(new_node (of_int (ld_id l)) (ld_name l) (ld_op l))\<lparr>
           n_inputs := [length h..<length h + length (ld_inputs l)], n_outputs := [length h + length (ld_inputs l)]\<rparr>"]
    by (simp add: wf check_attributes_json [OF wf(4)] ins names map_of_map_put
        layer_tensors_def layer_node_def new_node_def)
qed

section \<open>The whole file\<close>

fun model_nodes :: "nat \<Rightarrow> layer_desc list \<Rightarrow> node list" where
  "model_nodes n [] = []"
| "model_nodes n (l # ls) = layer_node n l # model_nodes (n + length (layer_tensors l)) ls"

definition wf_config :: "config_desc \<Rightarrow> bool" where
  "wf_config c \<longleftrightarrow> list_all (\<lambda>(k, xs). list_all in_i32 xs) (cd_split c) \<and>
     list_all (\<lambda>(k, v). in_i32 v) (cd_hardware c) \<and> list_all wf_layer (cd_model c)"

lemma model_json:
  "list_all wf_layer ls \<Longrightarrow>
   foldE layer_step (map layer_json ls) (h, \<lparr>g_nodes = ns\<rparr>) =
     Inr (h @ concat (map layer_tensors ls), \<lparr>g_nodes = ns @ model_nodes (length h) ls\<rparr>)"
proof (induction ls arbitrary: h ns)
  case (Cons l ls)
  then show ?case using Cons.IH [of "h @ layer_tensors l"] by (simp add: layer_step_json)
qed simp

lemma split_json:
  "list_all (\<lambda>(k, xs). list_all in_i32 xs) sp \<Longrightarrow>
   mapM read_ints (map snd (map (\<lambda>(k, v). (k, ints_json v)) sp)) = Inr (map snd sp)"
  by (induction sp) auto

lemma hardware_json:
  "list_all (\<lambda>(k, v). in_i32 v) hw \<Longrightarrow>
   foldE (\<lambda>(key, val) m. bindE (to_int val) (\<lambda>v. Inr (m(key \<mapsto> v))))
     (map (\<lambda>(k, v). (k, num_json v)) hw) m = Inr (m ++ map_of (rev hw))"
  by (induction hw arbitrary: m) auto

text \<open>
  C36 (reading a configuration).  From the JSON value of a well-formed description, the parser
  builds exactly the described graph, split strategy and hardware parameters; each tensor has
  the address and original size of the last attribute that bears its name, and the other
  attributes are kept in order.  The rows of the split strategy come in the order of the keys of
  the object \<open>Split\<close>, whatever their order in the file.
\<close>

theorem preprocessing_config:
  assumes "wf_config c"
  shows "preprocessing (config_json c) = Inr
     \<lparr>jp_config = config_json c, jp_layout = cd_layout c, jp_name = cd_name c, jp_mapping = cd_mapping c,
      jp_hardwareInfo = map_of (rev (cd_hardware c)), jp_model = \<lparr>g_nodes = model_nodes 0 (cd_model c)\<rparr>,
      jp_strategy = \<lparr>splitSize = map snd (as_map (cd_split c)), mappingStrategy = cd_mapping c\<rparr>,
      jp_heap = concat (map layer_tensors (cd_model c))\<rparr>"
proof -
  have mem: "json_member ''Layout'' (config_json c) = Inr (JString (cd_layout c))"
    "json_member ''Name'' (config_json c) = Inr (JString (cd_name c))"
    "json_member ''Mapping'' (config_json c) = Inr (JString (cd_mapping c))"
    "json_member ''Split'' (config_json c) = Inr (JObject (map (\<lambda>(k, v). (k, ints_json v)) (as_map (cd_split c))))"
    "json_member ''HardwareInfo'' (config_json c) = Inr (JObject (map (\<lambda>(k, v). (k, num_json v)) (as_map (cd_hardware c))))"
    "json_member ''Model'' (config_json c) = Inr (JArray (map layer_json (cd_model c)))"
    by (simp_all add: config_json_def as_map_values)
  have wf: "list_all (\<lambda>(k, xs). list_all in_i32 xs) (as_map (cd_split c))"
    "list_all (\<lambda>(k, v). in_i32 v) (as_map (cd_hardware c))" "list_all wf_layer (cd_model c)"
    using assms as_map_subset unfolding wf_config_def list_all_iff by (blast, blast, blast)
  have vals: "json_values (JObject m) = map snd m" "json_items (JObject m) = m" for m
    by (simp_all add: json_values_def json_items_def)
  show ?thesis
    unfolding preprocessing_def config_string_def mem bindE.simps to_str_JString vals json_values_JArray
      split_json [OF wf(1)] hardware_json [OF wf(2)] model_json [OF wf(3)] map_of_rev_as_map prod.case
    by simp
qed

text \<open>A pooling layer, to evaluate the parser on.\<close>

definition demo_layer :: layer_desc where
  "demo_layer =
     \<lparr>ld_name = ''pool0'', ld_id = 3, ld_op = MAXPOOL,
      ld_attrs = [\<lparr>ad_name = ''y'', ad_ints = [4096, 256], ad_type = 7\<rparr>,
                  \<lparr>ad_name = ''x'', ad_ints = [0, 1024], ad_type = 7\<rparr>,
                  \<lparr>ad_name = ''kernel_shape'', ad_ints = [2, 2], ad_type = 7\<rparr>],
      ld_inputs = [\<lparr>td_name = ''x'', td_shape = [1, 4, 8, 8], td_elem = 1\<rparr>],
      ld_output = \<lparr>td_name = ''y'', td_shape = [1, 4, 4, 4], td_elem = 1\<rparr>\<rparr>"

definition demo_config :: config_desc where
  "demo_config =
     \<lparr>cd_layout = ''NCHW'', cd_name = ''net'', cd_mapping = ''weight'',
      cd_split = [(''weight_tile'', [4]), (''input_tile'', [1, 2, 2, 1])], cd_hardware = [(''LocalMem'', 128), (''PE_Num'', 4)],
      cd_model = [demo_layer]\<rparr>"

lemma preprocessing_config_witness:
  "okE (preprocessing (config_json demo_config)) (\<lambda>p.
     hardware_at p ''PE_Num'' = 4 \<and> splitSize (jp_strategy p) = [[1, 2, 2, 1], [4]] \<and>
     map t_address (jp_heap p) = [Some 0, Some 4096] \<and>
     map a_data (n_attributes (hd (g_nodes (jp_model p)))) = [[2, 2]])"
proof -
  have "wf_config demo_config"
    by (simp add: wf_config_def demo_config_def demo_layer_def wf_layer_def wf_tensor_def wf_attr_def
        in_i32_def fits_u64_def has_ints_def tensor_names_of_def)
  from preprocessing_config [OF this] show ?thesis
    by (simp add: as_map_def hardware_at_def demo_config_def demo_layer_def layer_tensors_def located_def bare_tensor_def
        new_tensor_def layer_node_def plain_attribute_def tensor_names_of_def has_ints_def)
qed

end
