(* ===== verification/Top.thy ===== *)
theory Top
  imports Traffic_Cost Json_Format
begin

text \<open>
  The program (\<open>top.cpp\<close>): from the parsed configuration to the JSON array of traffic
  records.  One definition per branch of \<open>main\<close>; \<open>TRAFFIC_OPTIMIZE\<close> and \<open>DEBUG\<close> are not
  defined, as in the source.  Console output is left out.
\<close>

section \<open>Operator fusion\<close>

text \<open>The inputs of the second node but the first are appended to the first node.\<close>

definition take_over :: "node \<Rightarrow> node \<Rightarrow> node res" where
  "take_over n0 n1 =
     bindE (foldE (\<lambda>i n. bindE (input_at n1 i) (\<lambda>p. Inr (n\<lparr>n_inputs := n_inputs n @ [p]\<rparr>)))
              [1..<length (n_inputs n1)] n0) (\<lambda>n.
     bindE (output_at n1 0) (\<lambda>relu_output.
     Inr (n\<lparr>n_outputs := [relu_output]\<rparr>)))"

definition fuse :: "node list \<Rightarrow> node list res" where
  "fuse ns =
     (if length ns = 3 then
        bindE (take_over (ns ! 0) (ns ! 1)) (\<lambda>n. Inr (ns[0 := n]))
      else if length ns = 2 then
        if n_op (ns ! 1) = BATCHNORMAL then
          bindE (take_over (ns ! 0) (ns ! 1)) (\<lambda>n. Inr (ns[0 := n]))
        else if n_op (ns ! 1) = RELU then
          bindE (output_at (ns ! 1) 0) (\<lambda>relu_output.
          Inr (ns[0 := (ns ! 0)\<lparr>n_outputs := [relu_output]\<rparr>]))
        else Inr ns
      else Inr ns)"

section \<open>One branch per operator\<close>

text \<open>
  What a branch works on, and what it returns: the traffic generator if one was created.
  The pointer \<open>trafficGenerator\<close> is not initialised; \<open>None\<close> is the indeterminate pointer.
\<close>

record job =
  j_grid :: PEGrid
  j_PE_Num :: int
  j_strategy :: strategy
  j_heap :: heap
  j_node :: node

definition run_generator ::
    "job \<Rightarrow> int \<Rightarrow> wstate \<Rightarrow> (tgen \<Rightarrow> tgen) \<Rightarrow> (tgen \<Rightarrow> tgen res) \<Rightarrow> tgen option res" where
  "run_generator job num_subgraph = (\<lambda>(h, sn) setup gen.
     bindE (new_TrafficGenerator h (j_PE_Num job) num_subgraph sn (j_node job)) (\<lambda>g.
     mapE Some (gen (setup g))))"

definition conv_op :: "job \<Rightarrow> tgen option res" where
  "conv_op job =
     bindE (compute_original_size (j_node job) (j_heap job, j_node job)) (\<lambda>w.
     bindE (Conv_split (j_strategy job) w) (\<lambda>w.
     bindE (computeSize w) (\<lambda>(h, memory_requirement).
     bindE (get_num_subgraph (j_strategy job)) (\<lambda>num_subgraph.
     if isRunnable (j_grid job) memory_requirement then
       if mappingStrategy (j_strategy job) = ''weight'' then
         run_generator job num_subgraph (h, snd w) (init_strategy (j_strategy job))
           generate_traffic_conv_weight_stationary
       else if mappingStrategy (j_strategy job) = ''output'' then
         run_generator job num_subgraph (h, snd w) (init_strategy (j_strategy job))
           generate_traffic_conv_output_stationary
       else Inr None
     else Inr None))))"

definition conv_fuse_op :: "job \<Rightarrow> tgen option res" where
  "conv_fuse_op job =
     bindE (compute_original_size (j_node job) (j_heap job, j_node job)) (\<lambda>w.
     bindE (ConvBatchnorm_split (j_strategy job) w) (\<lambda>w.
     bindE (computeSize w) (\<lambda>(h, memory_requirement).
     if isRunnable (j_grid job) memory_requirement then
       if mappingStrategy (j_strategy job) = ''weight'' then
         run_generator job 1 (h, snd w) (init_strategy (j_strategy job))
           generate_traffic_conv_batchnorm_weight
       else if mappingStrategy (j_strategy job) = ''output'' then
         run_generator job 1 (h, snd w) (init_strategy (j_strategy job))
           generate_traffic_conv_batchnorm_output
       else Inr None
     else Inr None)))"

definition batchnorm_op :: "job \<Rightarrow> tgen option res" where
  "batchnorm_op job =
     bindE (compute_original_size (j_node job) (j_heap job, j_node job)) (\<lambda>w.
     bindE (Batchnorm_split (j_strategy job) w) (\<lambda>w.
     bindE (computeSize w) (\<lambda>(h, memory_requirement).
     bindE (get_num_subgraph (j_strategy job)) (\<lambda>num_subgraph.
     if isRunnable (j_grid job) memory_requirement then
       bindE (numRound (j_grid job) num_subgraph) (\<lambda>_.
       run_generator job num_subgraph (h, snd w) (init_strategy (j_strategy job))
         generate_traffic_batchnorm)
     else Inr None))))"

text \<open>The branches of \<open>RELU\<close>, \<open>MAXPOOL\<close> and \<open>AVGPOOL\<close> differ in the split only.\<close>

definition element_wise_op :: "(strategy \<Rightarrow> wstate \<Rightarrow> wstate res) \<Rightarrow> job \<Rightarrow> tgen option res" where
  "element_wise_op split job =
     bindE (split (j_strategy job) (j_heap job, j_node job)) (\<lambda>w.
     bindE (computeSize w) (\<lambda>(h, memory_requirement).
     bindE (get_num_subgraph (j_strategy job)) (\<lambda>num_subgraph.
     if isRunnable (j_grid job) memory_requirement then
       bindE (numRound (j_grid job) num_subgraph) (\<lambda>_.
       run_generator job num_subgraph (h, snd w) id generate_traffic_element_wise)
     else Inr None)))"

definition relu_op :: "job \<Rightarrow> tgen option res" where
  "relu_op = element_wise_op Workload_split"

definition maxpool_op :: "job \<Rightarrow> tgen option res" where
  "maxpool_op = element_wise_op MaxPool_split"

definition avgpool_op :: "job \<Rightarrow> tgen option res" where
  "avgpool_op = element_wise_op AvgPool_split"

section \<open>The output file\<close>

fun type_value :: "RequestType \<Rightarrow> int" where
  "type_value READ = 0"
| "type_value WRITE = 1"
| "type_value COMPUTE = 2"
| "type_value SYNC = 3"

fun traffic_value :: "TrafficType \<Rightarrow> int" where
  "traffic_value UNICAST = 0"
| "traffic_value MULTICAST = 1"
| "traffic_value BROADCAST = 2"

definition coordinate :: "int \<times> int \<Rightarrow> string" where
  "coordinate c = dec_int (fst c) @ CHR '','' # dec_int (snd c)"

definition traffic_json :: "traffic \<Rightarrow> json res" where
  "traffic_json i =
     bindE (json_assign ''type'' (JInteger (type_value (tr_type i))) (JObject [])) (\<lambda>obj.
     bindE (json_assign ''src'' (JString (coordinate (tr_src i))) obj) (\<lambda>obj.
     bindE (json_assign ''dest'' (JString (coordinate (tr_dest i))) obj) (\<lambda>obj.
     bindE (json_assign ''addr'' (JUnsigned (tr_addr i)) obj) (\<lambda>obj.
     bindE (json_assign ''size'' (JUnsigned (tr_size i)) obj) (\<lambda>obj.
     bindE (json_assign ''request'' (JInteger (traffic_value (tr_request i))) obj) (\<lambda>obj.
     json_assign ''response'' (JInteger (traffic_value (tr_response i))) obj))))))"

definition traffic_pattern :: "traffic list \<Rightarrow> json res" where
  "traffic_pattern l =
     foldE (\<lambda>i arr. bindE (traffic_json i) (\<lambda>obj. json_push_back obj arr)) l (JArray [])"

section \<open>main\<close>

text \<open>
  \<open>main\<close> on the parsed configuration: the exit status, and the JSON value written to
  \<open>files/Traffic_Pattern/traffic_pattern.json\<close> unless the operator is not supported.
\<close>

definition dispatch :: "job \<Rightarrow> tgen option res option" where
  "dispatch job =
     (let nd = j_node job in
      if n_op nd = CONV \<and> length (n_inputs nd) \<le> 3 then Some (conv_op job)
      else if n_op nd = CONV \<and> length (n_inputs nd) > 3 then Some (conv_fuse_op job)
      else if n_op nd = BATCHNORMAL then Some (batchnorm_op job)
      else if n_op nd = RELU then Some (relu_op job)
      else if n_op nd = MAXPOOL then Some (maxpool_op job)
      else if n_op nd = AVGPOOL then Some (avgpool_op job)
      else None)"

definition main :: "json \<Rightarrow> (int \<times> json option) res" where
  "main cfg =
     bindE (preprocessing cfg) (\<lambda>j.
     bindE (i32 (hardware_at j ''LocalMem'' * 1000)) (\<lambda>mem.
     bindE (new_PEGrid (hardware_at j ''PE_Num'') mem) (\<lambda>grid.
     bindE (fuse (g_nodes (jp_model j))) (\<lambda>ns.
     bindE (vec_at ns 0) (\<lambda>nd.
     case dispatch \<lparr>j_grid = grid, j_PE_Num = hardware_at j ''PE_Num'', j_strategy = jp_strategy j,
                    j_heap = jp_heap j, j_node = nd\<rparr> of
       None \<Rightarrow> Inr (1, None)
     | Some r \<Rightarrow>
         bindE r (\<lambda>gen.
         bindE (determinate gen) (\<lambda>g.
         bindE (traffic_pattern (tg_list g)) (\<lambda>arr.
         Inr (0, Some arr)))))))))"

end
