(* ===== verification/PE.thy ===== *)
theory PE
  imports Json "HOL-Library.AList"
begin

text \<open>
  The processing element of the simulator (\<open>gem5/src/lab447/pe.hh\<close>, \<open>pe.cc\<close>,
  \<open>traffic_pattern.hh\<close>).  The state is the system of all elements: the objects themselves, a
  \<open>PEPtr\<close> being an index, and the three static members \<open>pe_list\<close>, \<open>rdy_sync_list\<close> and
  \<open>broadcast_issuer\<close>.  Each element has two events; scheduling an event that is already
  scheduled is a failed assertion, as in the event queue.  What lies behind the port, and
  which addresses are memory, are arguments of the handlers that use them.  Debug output is
  left out; statistics are counters.  A tick has 64 bits and wraps, so that an event scheduled in
  the last ticks would lie in the past, which the event queue's assertion refuses.
\<close>

section \<open>Traffic\<close>

text \<open>
  The two enumerations are read from the file by a cast from \<open>int\<close> and can hold any value.
\<close>

record pe_traffic =
  pt_type :: int
  pt_src :: "int \<times> int"
  pt_dest :: "int \<times> int"
  pt_addr :: u64
  pt_size :: u64
  pt_request :: int
  pt_response :: int

abbreviation pt_READ :: int where "pt_READ \<equiv> 0"
abbreviation pt_WRITE :: int where "pt_WRITE \<equiv> 1"
abbreviation pt_COMPUTE :: int where "pt_COMPUTE \<equiv> 2"
abbreviation pt_SYNC :: int where "pt_SYNC \<equiv> 3"
abbreviation pt_BROADCAST :: int where "pt_BROADCAST \<equiv> 2"

section \<open>State\<close>

type_synonym tick = u64
type_synonym pe_ptr = nat
type_synonym req_ptr = nat    \<comment> \<open>identity of a \<open>Request\<close>\<close>

record pe_packet =
  pk_req :: req_ptr
  pk_addr :: u64
  pk_size :: u32
  pk_read :: bool
  pk_broadcast :: bool
  pk_freed :: bool      \<comment> \<open>deleted while a queue still holds the pointer\<close>

record pe_stats =
  numSuppressed :: nat
  numPackets :: nat
  numRetries :: nat
  retryTicks :: nat
  bytesRead :: nat
  bytesWritten :: nat
  totalReadLatency :: nat
  totalWriteLatency :: nat
  totalReads :: nat
  totalWrites :: nat

record pe =
  pe_x :: u32
  pe_y :: u32
  block_size :: u64
  cache_line_size :: u64
  global_mem_size :: u64
  local_mem_offset :: u64
  operateNextEvent :: "tick option"
  scheduleReqEvent :: "tick option"
  waitingSend_read :: "pe_packet list"
  waitingSend_write :: "pe_packet list"
  retryPktTick :: tick
  waitingResp_read :: "(req_ptr \<times> tick) list"
  waitingResp_write :: "(req_ptr \<times> tick) list"
  stats :: pe_stats
  traffic_list :: "pe_traffic list"
  cur_traffic :: u32

record pe_system =
  pes :: "pe list"
  pe_list :: "(string \<times> pe_ptr) list"
  rdy_sync_list :: "pe_ptr list"
  broadcast_issuer :: "pe_ptr option"
  curTick :: tick
  next_req :: req_ptr
  sim_exit :: bool

definition empty_stats :: pe_stats where
  "empty_stats =
     \<lparr>numSuppressed = 0, numPackets = 0, numRetries = 0, retryTicks = 0, bytesRead = 0,
      bytesWritten = 0, totalReadLatency = 0, totalWriteLatency = 0, totalReads = 0, totalWrites = 0\<rparr>"

definition getCoordinate :: "pe \<Rightarrow> string" where
  "getCoordinate p = dec_nat (unat (pe_x p)) @ CHR '','' # dec_nat (unat (pe_y p))"

text \<open>The constructor: the next free position of the grid; \<open>insert\<close> keeps an existing entry.\<close>

definition new_PE :: "u64 \<Rightarrow> u64 \<Rightarrow> u64 \<Rightarrow> u64 \<Rightarrow> u64 \<Rightarrow> pe_system \<Rightarrow> pe_system res" where
  "new_PE blk line gmem loff width s =
     (if width = 0 then Inl DivByZero else
      let n = of_nat (length (pe_list s)) :: u64;
          p = \<lparr>pe_x = ucast (n div width), pe_y = ucast (n mod width), block_size = blk,
               cache_line_size = line, global_mem_size = gmem, local_mem_offset = loff,
               operateNextEvent = None, scheduleReqEvent = None, waitingSend_read = [],
               waitingSend_write = [], retryPktTick = 0, waitingResp_read = [], waitingResp_write = [],
               stats = empty_stats, traffic_list = [], cur_traffic = 0\<rparr>;
          key = getCoordinate p
      in Inr (s\<lparr>pes := pes s @ [p],
               pe_list := (if map_of (pe_list s) key = None then pe_list s @ [(key, length (pes s))]
                           else pe_list s)\<rparr>))"

section \<open>Events\<close>

definition get_pe :: "pe_ptr \<Rightarrow> pe_system \<Rightarrow> pe res" where
  "get_pe i s = vec_at (pes s) i"

definition put_pe :: "pe_ptr \<Rightarrow> pe \<Rightarrow> pe_system \<Rightarrow> pe_system" where
  "put_pe i p s = s\<lparr>pes := (pes s)[i := p]\<rparr>"

text \<open>\<open>schedule(event, when)\<close> of the event manager.\<close>

definition schedule_operate :: "pe_ptr \<Rightarrow> tick \<Rightarrow> pe_system \<Rightarrow> pe_system res" where
  "schedule_operate i when s =
     bindE (get_pe i s) (\<lambda>p.
     bindE (guardE (curTick s \<le> when) (AssertFail ''when >= getCurTick()'')) (\<lambda>_.
     bindE (guardE (operateNextEvent p = None) (AssertFail ''!event->scheduled()'')) (\<lambda>_.
     Inr (put_pe i (p\<lparr>operateNextEvent := Some when\<rparr>) s))))"

definition schedule_send :: "pe_ptr \<Rightarrow> tick \<Rightarrow> pe_system \<Rightarrow> pe_system res" where
  "schedule_send i when s =
     bindE (get_pe i s) (\<lambda>p.
     bindE (guardE (curTick s \<le> when) (AssertFail ''when >= getCurTick()'')) (\<lambda>_.
     bindE (guardE (scheduleReqEvent p = None) (AssertFail ''!event->scheduled()'')) (\<lambda>_.
     Inr (put_pe i (p\<lparr>scheduleReqEvent := Some when\<rparr>) s))))"

definition start :: "pe_ptr \<Rightarrow> pe_system \<Rightarrow> pe_system res" where
  "start i s = schedule_operate i (curTick s + 1) s"

definition getComputeTime :: tick where
  "getComputeTime = 100"

section \<open>Retries\<close>

definition retryReq :: "pe_ptr \<Rightarrow> pe_system \<Rightarrow> pe_system res" where
  "retryReq i s =
     bindE (get_pe i s) (\<lambda>p.
     bindE (guardE (waitingSend_read p \<noteq> [] \<or> waitingSend_write p \<noteq> [])
              (AssertFail ''!waitingSend_read.empty() || !waitingSend_write.empty()'')) (\<lambda>_.
     schedule_send i (curTick s + 1) s))"

definition recvReqRetry :: "pe_ptr \<Rightarrow> pe_system \<Rightarrow> pe_system res" where
  "recvReqRetry i s =
     bindE (get_pe i s) (\<lambda>p.
     retryReq i (put_pe i (p\<lparr>stats := (stats p)\<lparr>numRetries := numRetries (stats p) + 1\<rparr>\<rparr>) s))"

section \<open>Termination\<close>

definition all_done :: "pe \<Rightarrow> pe_system \<Rightarrow> bool" where
  "all_done p s \<longleftrightarrow>
     waitingResp_read p = [] \<and> waitingSend_read p = [] \<and>
     waitingResp_write p = [] \<and> waitingSend_write p = [] \<and>
     broadcast_issuer s = None \<and> rdy_sync_list s = []"

definition no_more_traffic :: "pe \<Rightarrow> bool" where
  "no_more_traffic p \<longleftrightarrow> length (traffic_list p) \<le> unat (cur_traffic p)"

text \<open>\<open>pe_list.erase(getCoordinate()); if (pe_list.empty()) exitSimLoop(...)\<close>\<close>

definition retire :: "pe \<Rightarrow> pe_system \<Rightarrow> pe_system" where
  "retire p s =
     (let l = AList.delete (getCoordinate p) (pe_list s)
      in s\<lparr>pe_list := l, sim_exit := sim_exit s \<or> l = []\<rparr>)"

section \<open>Responses\<close>

definition panic_unexpected :: cpp_error where
  "panic_unexpected = Panic ''Received unexpected response''"

text \<open>The part of \<open>recvTimingResp\<close> before the termination check: accounting, and the next operation.\<close>

definition account_response :: "pe_ptr \<Rightarrow> pe_packet \<Rightarrow> pe_system \<Rightarrow> pe_system res" where
  "account_response i pkt s =
     bindE (get_pe i s) (\<lambda>p.
     case map_of (if pk_read pkt then waitingResp_read p else waitingResp_write p) (pk_req pkt) of
       None \<Rightarrow> Inl panic_unexpected
     | Some sent \<Rightarrow>
         bindE (guardE (sent \<le> curTick s) (AssertFail ''iter->second <= curTick()'')) (\<lambda>_.
         let st = stats p in
         if \<not> pk_read pkt then
           Inr (put_pe i (p\<lparr>stats := st\<lparr>totalWrites := totalWrites st + 1,
                                     bytesWritten := bytesWritten st + unat (pk_size pkt),
                                     totalWriteLatency := totalWriteLatency st + unat (curTick s - sent)\<rparr>,
                            waitingResp_write := AList.delete (pk_req pkt) (waitingResp_write p)\<rparr>) s)
         else
           let p = p\<lparr>stats := st\<lparr>totalReads := totalReads st + 1,
                              bytesRead := bytesRead st + unat (pk_size pkt),
                              totalReadLatency := totalReadLatency st + unat (curTick s - sent)\<rparr>,
                     waitingResp_read := AList.delete (pk_req pkt) (waitingResp_read p)\<rparr>;
               s = put_pe i p s
           in if waitingSend_read p = [] \<and> waitingResp_read p = [] \<and> i \<notin> set (rdy_sync_list s)
              then schedule_operate i (curTick s + 1) s
              else Inr s))"

definition recvTimingResp :: "pe_ptr \<Rightarrow> pe_packet \<Rightarrow> pe_system \<Rightarrow> pe_system res" where
  "recvTimingResp i pkt s =
     bindE (account_response i pkt s) (\<lambda>s.
     bindE (get_pe i s) (\<lambda>p.
     if all_done p s \<and> no_more_traffic p then Inr (retire p s) else Inr s))"

section \<open>Sending\<close>

definition sendBroadcast :: "pe_ptr \<Rightarrow> pe_system \<Rightarrow> pe_system res" where
  "sendBroadcast i s = schedule_send i (curTick s + 1) s"

definition waitSync :: "pe_ptr \<Rightarrow> pe_system \<Rightarrow> pe_system res" where
  "waitSync i s =
     (let s = s\<lparr>broadcast_issuer := Some i, rdy_sync_list := List.insert i (rdy_sync_list s)\<rparr>
      in if length (rdy_sync_list s) = length (pe_list s) then sendBroadcast i s else Inr s)"

text \<open>\<open>broadcast_issuer = nullptr; rdy_sync_list.clear()\<close> if this element issued the broadcast.\<close>

definition end_broadcast :: "pe_ptr \<Rightarrow> pe_system \<Rightarrow> pe_system" where
  "end_broadcast i s =
     (if broadcast_issuer s = Some i then s\<lparr>broadcast_issuer := None, rdy_sync_list := []\<rparr> else s)"

text \<open>A sent request waits for its response: at every listed element if it is a broadcast.\<close>

definition record_request :: "pe_ptr \<Rightarrow> pe_packet \<Rightarrow> pe_system \<Rightarrow> pe_system res" where
  "record_request i pkt s =
     (if pk_broadcast pkt then
        foldE (\<lambda>(_, j) s.
          bindE (get_pe j s) (\<lambda>q.
          Inr (put_pe j (q\<lparr>waitingResp_read := AList.update (pk_req pkt) (curTick s) (waitingResp_read q)\<rparr>) s)))
          (pe_list s) s
      else
        bindE (get_pe i s) (\<lambda>p.
        Inr (put_pe i
               (if pk_read pkt
                then p\<lparr>waitingResp_read := AList.update (pk_req pkt) (curTick s) (waitingResp_read p)\<rparr>
                else p\<lparr>waitingResp_write := AList.update (pk_req pkt) (curTick s) (waitingResp_write p)\<rparr>) s)))"

text \<open>The queue \<open>scheduleReq\<close> works on: the writes if there are any.\<close>

definition waitingSend :: "pe \<Rightarrow> pe_packet list" where
  "waitingSend p = (if waitingSend_write p = [] then waitingSend_read p else waitingSend_write p)"

definition put_waitingSend :: "bool \<Rightarrow> pe_packet list \<Rightarrow> pe \<Rightarrow> pe" where
  "put_waitingSend reads q p = (if reads then p\<lparr>waitingSend_read := q\<rparr> else p\<lparr>waitingSend_write := q\<rparr>)"

text \<open>\<open>if (retryPktTick) { stats.retryTicks += curTick() - retryPktTick; retryPktTick = 0; }\<close>\<close>

definition clear_retry :: "tick \<Rightarrow> pe \<Rightarrow> pe" where
  "clear_retry now p =
     (if retryPktTick p \<noteq> 0
      then p\<lparr>stats := (stats p)\<lparr>retryTicks := retryTicks (stats p) + unat (now - retryPktTick p)\<rparr>,
             retryPktTick := 0\<rparr>
      else p)"

definition sent_packet :: "pe_ptr \<Rightarrow> bool \<Rightarrow> pe_packet \<Rightarrow> pe_system \<Rightarrow> pe_system res" where
  "sent_packet i reads pkt s =
     bindE (get_pe i s) (\<lambda>p.
     bindE (record_request i pkt (put_pe i (put_waitingSend reads (tl (waitingSend p)) p) s)) (\<lambda>s.
     bindE (get_pe i s) (\<lambda>p.
     let p = clear_retry (curTick s) p;
         s = put_pe i p s
     in if (if reads then waitingSend_read p else waitingSend_write p) = [] then
          if waitingResp_read p = [] then schedule_operate i (curTick s + 1) s
          else Inr (end_broadcast i s)
        else schedule_send i (curTick s + 1) s)))"

text \<open>An address outside memory: the packet is deleted, but not taken from the queue.\<close>

definition suppress_packet :: "pe_ptr \<Rightarrow> bool \<Rightarrow> pe_packet \<Rightarrow> pe_system \<Rightarrow> pe_system res" where
  "suppress_packet i reads pkt s =
     bindE (get_pe i s) (\<lambda>p.
     let p = put_waitingSend reads (pkt\<lparr>pk_freed := True\<rparr> # tl (waitingSend p))
               (p\<lparr>stats := (stats p)\<lparr>numSuppressed := numSuppressed (stats p) + 1\<rparr>\<rparr>);
         s = put_pe i p s
     in if (if reads then waitingSend_read p else waitingSend_write p) = [] then
          bindE (if waitingResp_read p = [] then schedule_operate i (curTick s + 1) s else Inr s) (\<lambda>s.
          Inr (end_broadcast i s))
        else schedule_send i (curTick s + 1) s)"

definition scheduleReq :: "(u64 \<Rightarrow> bool) \<Rightarrow> bool \<Rightarrow> pe_ptr \<Rightarrow> pe_system \<Rightarrow> pe_system res" where
  "scheduleReq isMemAddr accepts i s =
     bindE (get_pe i s) (\<lambda>p.
     bindE (guardE (waitingSend p \<noteq> []) (AssertFail ''!waitingSend.empty()'')) (\<lambda>_.
     let pkt = hd (waitingSend p); reads = (waitingSend_write p = []) in
     bindE (guardE (\<not> pk_freed pkt) UseAfterFree) (\<lambda>_.
     if isMemAddr (pk_addr pkt) then
       let s = put_pe i (p\<lparr>stats := (stats p)\<lparr>numPackets := numPackets (stats p) + 1\<rparr>\<rparr>) s
       in if accepts then sent_packet i reads pkt s
          else bindE (get_pe i s) (\<lambda>p. Inr (put_pe i (p\<lparr>retryPktTick := curTick s\<rparr>) s))
     else suppress_packet i reads pkt s)))"

section \<open>Operating the traffic\<close>

definition getPacket :: "u64 \<Rightarrow> u32 \<Rightarrow> bool \<Rightarrow> bool \<Rightarrow> pe_system \<Rightarrow> pe_packet \<times> pe_system" where
  "getPacket addr sz isRead broadcast s =
     (\<lparr>pk_req = next_req s, pk_addr = addr, pk_size = sz, pk_read = isRead, pk_broadcast = broadcast,
       pk_freed = False\<rparr>,
      s\<lparr>next_req := next_req s + 1\<rparr>)"

text \<open>
  The address range of a transfer: \<open>size\<close> is an \<open>unsigned\<close>, so that the record's size is cut
  to 32 bits; at least one line; an unaligned start is moved down and the size grows by the
  same amount.
\<close>

definition transfer_size :: "pe \<Rightarrow> pe_traffic \<Rightarrow> u32" where
  "transfer_size p t =
     (let sz = (if pt_size t \<le> cache_line_size p then ucast (cache_line_size p) else ucast (pt_size t)) :: u32
      in if pt_addr t mod cache_line_size p \<noteq> 0 then sz + ucast (pt_addr t mod cache_line_size p) else sz)"

definition transfer_base :: "pe \<Rightarrow> pe_traffic \<Rightarrow> u64" where
  "transfer_base p t = pt_addr t - pt_addr t mod cache_line_size p"

definition num_lines :: "pe \<Rightarrow> pe_traffic \<Rightarrow> nat" where
  "num_lines p t = unat ((ucast (transfer_size p t) :: u64) div cache_line_size p)"

text \<open>One packet per line; the line counter is an \<open>int\<close>, incremented after each packet.\<close>

definition issue_packets :: "pe_ptr \<Rightarrow> pe_traffic \<Rightarrow> pe_system \<Rightarrow> pe_system res" where
  "issue_packets i t s =
     bindE (get_pe i s) (\<lambda>p.
     bindE (guardE (cache_line_size p \<noteq> 0) DivByZero) (\<lambda>_.
     foldE (\<lambda>k s.
       let (pkt, s) = getPacket (transfer_base p t + of_nat k * cache_line_size p)
                        (ucast (cache_line_size p)) (pt_type t = pt_READ) (pt_response t = pt_BROADCAST) s in
       bindE (get_pe i s) (\<lambda>q.
       let s = put_pe i (if pt_type t = pt_READ then q\<lparr>waitingSend_read := waitingSend_read q @ [pkt]\<rparr>
                         else q\<lparr>waitingSend_write := waitingSend_write q @ [pkt]\<rparr>) s
       in bindE (guardE (int k + 1 < 2 ^ 31) SignedOverflow) (\<lambda>_. Inr s)))
       [0..<num_lines p t] s))"

definition operateTraffic :: "pe_ptr \<Rightarrow> pe_system \<Rightarrow> pe_system res" where
  "operateTraffic i s =
     bindE (get_pe i s) (\<lambda>p.
     if no_more_traffic p then
       if all_done p s then Inr (retire p s) else Inr s
     else
       let t = traffic_list p ! unat (cur_traffic p) in
       bindE
         (if pt_type t = pt_COMPUTE then schedule_operate i (curTick s + getComputeTime) s
          else if pt_type t = pt_SYNC then
            let s = s\<lparr>rdy_sync_list := List.insert i (rdy_sync_list s)\<rparr>
            in if length (rdy_sync_list s) = length (pe_list s) then
                 case broadcast_issuer s of
                   None \<Rightarrow> Inl (AssertFail ''broadcast_issuer'')
                 | Some j \<Rightarrow> sendBroadcast j s
               else Inr s
          else
            bindE (issue_packets i t s) (\<lambda>s.
            if pt_response t = pt_BROADCAST then waitSync i s
            else schedule_send i (curTick s + 1) s)) (\<lambda>s.
       bindE (get_pe i s) (\<lambda>p.
       Inr (put_pe i (p\<lparr>cur_traffic := cur_traffic p + 1\<rparr>) s))))"

section \<open>Reading the traffic file\<close>

text \<open>\<open>s[k] - '0'\<close>: a \<open>char\<close> is signed, and the position after the last holds the null character.\<close>

definition char_digit :: "string \<Rightarrow> nat \<Rightarrow> int res" where
  "char_digit s k =
     (if k < length s then
        let c = of_char (s ! k) in Inr ((if c < 128 then c else c - 256) - 48)
      else if k = length s then Inr (- 48)
      else Inl OutOfRange)"

definition read_pair :: "string \<Rightarrow> (int \<times> int) res" where
  "read_pair s = bindE (char_digit s 0) (\<lambda>a. bindE (char_digit s 2) (\<lambda>b. Inr (a, b)))"

definition parse_record :: "u64 \<Rightarrow> u64 \<Rightarrow> json \<Rightarrow> pe_system \<Rightarrow> pe_system res" where
  "parse_record gmem loff traffic s =
     bindE (json_member_const ''src'' traffic) (\<lambda>jsrc.
     bindE (to_str jsrc) (\<lambda>src.
     case map_of (pe_list s) src of
       None \<Rightarrow> Inl (Panic ''Can't find pe'')
     | Some i \<Rightarrow>
         bindE (json_member_const ''addr'' traffic) (\<lambda>jaddr.
         bindE (to_uint64 jaddr) (\<lambda>a.
         bindE (json_member_const ''type'' traffic) (\<lambda>jtype.
         bindE (to_int jtype) (\<lambda>ty.
         bindE (read_pair src) (\<lambda>srcp.
         bindE (json_member_const ''dest'' traffic) (\<lambda>jdest.
         bindE (to_str jdest) (\<lambda>dest.
         bindE (read_pair dest) (\<lambda>destp.
         bindE (json_member_const ''size'' traffic) (\<lambda>jsize.
         bindE (to_uint64 jsize) (\<lambda>sz.
         bindE (json_member_const ''request'' traffic) (\<lambda>jreq.
         bindE (to_int jreq) (\<lambda>req.
         bindE (json_member_const ''response'' traffic) (\<lambda>jresp.
         bindE (to_int jresp) (\<lambda>resp.
         bindE (get_pe i s) (\<lambda>q.
         Inr (put_pe i (q\<lparr>traffic_list := traffic_list q @
           [\<lparr>pt_type = ty, pt_src = srcp, pt_dest = destp, pt_addr = (if gmem \<le> a then a + loff else a),
             pt_size = sz, pt_request = req, pt_response = resp\<rparr>]\<rparr>) s))))))))))))))))))"

definition parseTraffic :: "pe_ptr \<Rightarrow> json \<Rightarrow> pe_system \<Rightarrow> pe_system res" where
  "parseTraffic me data s =
     bindE (get_pe me s) (\<lambda>p.
     foldE (parse_record (global_mem_size p) (local_mem_offset p)) (json_values data) s)"

end
