(* ===== verification/PE_System.thy ===== *)
theory PE_System
  imports PE
begin

text \<open>
  All processing elements together.  The environment (caches, network, memory) accepts or
  rejects a packet, answers an outstanding request and announces a retry after a rejection;
  events fire in the order of their ticks.  From a start in which all elements have the same
  number of barriers, as the traffic generator guarantees, no handler panics or fails an
  assertion before the 64-bit tick is about to wrap, and the system is never stuck before every
  element is done.
\<close>

section \<open>Actions\<close>

datatype action =
    Operate pe_ptr
  | Send pe_ptr bool                    \<comment> \<open>whether the port accepts the packet\<close>
  | Response pe_ptr pe_packet tick
  | Retry pe_ptr tick

text \<open>The elements whose last packet was rejected are the environment's part of a configuration.\<close>

type_synonym config = "pe_system \<times> pe_ptr set"

definition not_before :: "tick \<Rightarrow> tick option \<Rightarrow> bool" where
  "not_before t e = (case e of None \<Rightarrow> True | Some u \<Rightarrow> t \<le> u)"

definition due :: "tick \<Rightarrow> pe_system \<Rightarrow> bool" where
  "due t s \<longleftrightarrow> curTick s \<le> t \<and>
     list_all (\<lambda>p. not_before t (operateNextEvent p) \<and> not_before t (scheduleReqEvent p)) (pes s)"

fun enabled :: "action \<Rightarrow> config \<Rightarrow> bool" where
  "enabled (Operate i) (s, b) =
     (i < length (pes s) \<and> (case operateNextEvent (pes s ! i) of None \<Rightarrow> False | Some t \<Rightarrow> due t s))"
| "enabled (Send i accepts) (s, b) =
     (i < length (pes s) \<and> (case scheduleReqEvent (pes s ! i) of None \<Rightarrow> False | Some t \<Rightarrow> due t s))"
| "enabled (Response i pkt t) (s, b) =
     (i < length (pes s) \<and> due t s \<and>
      map_of (if pk_read pkt then waitingResp_read (pes s ! i) else waitingResp_write (pes s ! i)) (pk_req pkt) \<noteq> None)"
| "enabled (Retry i t) (s, b) = (i < length (pes s) \<and> due t s \<and> i \<in> b)"

lemma due_iff:
  "due t s \<longleftrightarrow> curTick s \<le> t \<and>
     (\<forall>p \<in> set (pes s). (\<forall>u. operateNextEvent p = Some u \<longrightarrow> t \<le> u) \<and>
                          (\<forall>u. scheduleReqEvent p = Some u \<longrightarrow> t \<le> u))"
  by (auto simp: due_def not_before_def list_all_iff split: option.splits)

lemma enabled_event [simp]:
  "enabled (Operate i) (s, b) \<longleftrightarrow> i < length (pes s) \<and> (\<exists>t. operateNextEvent (pes s ! i) = Some t \<and> due t s)"
  "enabled (Send i accepts) (s, b) \<longleftrightarrow> i < length (pes s) \<and> (\<exists>t. scheduleReqEvent (pes s ! i) = Some t \<and> due t s)"
  by (auto split: option.splits)

declare enabled.simps(1,2) [simp del]

fun perform :: "(u64 \<Rightarrow> bool) \<Rightarrow> action \<Rightarrow> config \<Rightarrow> config res" where
  "perform mem (Operate i) (s, b) =
     bindE (get_pe i s) (\<lambda>p.
     bindE (determinate (operateNextEvent p)) (\<lambda>t.
     bindE (operateTraffic i (put_pe i (p\<lparr>operateNextEvent := None\<rparr>) (s\<lparr>curTick := t\<rparr>))) (\<lambda>s. Inr (s, b))))"
| "perform mem (Send i accepts) (s, b) =
     bindE (get_pe i s) (\<lambda>p.
     bindE (determinate (scheduleReqEvent p)) (\<lambda>t.
     bindE (scheduleReq mem accepts i (put_pe i (p\<lparr>scheduleReqEvent := None\<rparr>) (s\<lparr>curTick := t\<rparr>))) (\<lambda>s.
     Inr (s, if accepts then b else insert i b))))"
| "perform mem (Response i pkt t) (s, b) =
     bindE (recvTimingResp i pkt (s\<lparr>curTick := t\<rparr>)) (\<lambda>s. Inr (s, b))"
| "perform mem (Retry i t) (s, b) =
     bindE (recvReqRetry i (s\<lparr>curTick := t\<rparr>)) (\<lambda>s. Inr (s, b - {i}))"

inductive reachable :: "(u64 \<Rightarrow> bool) \<Rightarrow> config \<Rightarrow> config \<Rightarrow> bool" for mem c0 where
  init: "reachable mem c0 c0"
| step: "reachable mem c0 c \<Longrightarrow> enabled a c \<Longrightarrow> perform mem a c = Inr c' \<Longrightarrow> reachable mem c0 c'"

section \<open>Barriers of a traffic list\<close>

definition transfer :: "pe_traffic \<Rightarrow> bool" where
  "transfer t \<longleftrightarrow> pt_type t \<noteq> pt_COMPUTE \<and> pt_type t \<noteq> pt_SYNC"

definition pt_barrier :: "pe_traffic \<Rightarrow> bool" where
  "pt_barrier t \<longleftrightarrow> pt_type t = pt_SYNC \<or> (transfer t \<and> pt_response t = pt_BROADCAST)"

definition bars :: "pe \<Rightarrow> nat \<Rightarrow> nat" where
  "bars p n = length (filter pt_barrier (take n (traffic_list p)))"

definition wf_record :: "pe_ptr \<Rightarrow> pe_traffic \<Rightarrow> bool" where
  "wf_record i t \<longleftrightarrow> (pt_type t = pt_SYNC \<longrightarrow> i \<noteq> 0) \<and>
     (transfer t \<and> pt_response t = pt_BROADCAST \<longrightarrow> i = 0 \<and> pt_type t = pt_READ)"

text \<open>Every transfer is at least one line, and all its lines are memory.\<close>

definition lines_ok :: "(u64 \<Rightarrow> bool) \<Rightarrow> pe \<Rightarrow> pe_traffic \<Rightarrow> bool" where
  "lines_ok mem p t \<longleftrightarrow> 0 < num_lines p t \<and> num_lines p t < 2 ^ 31 \<and>
     (\<forall>k < num_lines p t. mem (transfer_base p t + of_nat k * cache_line_size p))"

definition traffic_ok :: "(u64 \<Rightarrow> bool) \<Rightarrow> pe_ptr \<Rightarrow> pe \<Rightarrow> bool" where
  "traffic_ok mem i p \<longleftrightarrow> cache_line_size p \<noteq> 0 \<and> length (traffic_list p) < 2 ^ 32 \<and>
     (\<forall>t \<in> set (traffic_list p). wf_record i t \<and> (transfer t \<longrightarrow> lines_ok mem p t))"

section \<open>The invariant\<close>

text \<open>
  What an element is doing: waiting at a barrier, about to operate, waiting for responses,
  finished, or sending (with its event scheduled, or blocked until a retry).
\<close>

definition phase_of ::
    "bool \<Rightarrow> bool \<Rightarrow> bool \<Rightarrow> bool \<Rightarrow> bool \<Rightarrow> bool \<Rightarrow> bool \<Rightarrow> bool \<Rightarrow> bool \<Rightarrow> bool \<Rightarrow> bool \<Rightarrow> bool \<Rightarrow> bool" where
  "phase_of zero inr full blk alive oper send rq wq rr rw todo \<longleftrightarrow>
     (send \<or> blk \<longleftrightarrow> (if inr then zero \<and> full else rq \<or> wq)) \<and> \<not> (send \<and> blk) \<and>
     (if inr then \<not> oper \<and> \<not> wq \<and> (rq \<longleftrightarrow> zero)
      else (oper \<longrightarrow> \<not> rq \<and> \<not> wq \<and> \<not> rr) \<and> \<not> (rq \<and> wq) \<and> \<not> (wq \<and> rr) \<and>
           (\<not> oper \<and> \<not> rq \<and> \<not> wq \<and> \<not> rr \<longrightarrow> \<not> todo \<and> (alive \<longrightarrow> rw)))"

definition phase :: "pe_ptr \<Rightarrow> bool \<Rightarrow> bool \<Rightarrow> bool \<Rightarrow> bool \<Rightarrow> pe \<Rightarrow> bool" where
  "phase i inr full blk alive p \<longleftrightarrow>
     phase_of (i = 0) inr full blk alive (operateNextEvent p \<noteq> None) (scheduleReqEvent p \<noteq> None)
       (waitingSend_read p \<noteq> []) (waitingSend_write p \<noteq> []) (waitingResp_read p \<noteq> [])
       (waitingResp_write p \<noteq> []) (\<not> no_more_traffic p)"

definition packets_ok :: "(u64 \<Rightarrow> bool) \<Rightarrow> bool \<Rightarrow> pe \<Rightarrow> bool" where
  "packets_ok mem inr p \<longleftrightarrow>
     (\<forall>pk \<in> set (waitingSend_read p). \<not> pk_freed pk \<and> mem (pk_addr pk) \<and> pk_read pk \<and> pk_broadcast pk = inr) \<and>
     (\<forall>pk \<in> set (waitingSend_write p). \<not> pk_freed pk \<and> mem (pk_addr pk) \<and> \<not> pk_read pk \<and> \<not> pk_broadcast pk)"

definition resp_ok :: "tick \<Rightarrow> pe \<Rightarrow> bool" where
  "resp_ok now p \<longleftrightarrow> (\<forall>e \<in> set (waitingResp_read p @ waitingResp_write p). snd e \<le> now)"

definition retired_ok :: "pe \<Rightarrow> bool" where
  "retired_ok p \<longleftrightarrow> no_more_traffic p \<and> waitingResp_read p = [] \<and> waitingResp_write p = [] \<and>
     waitingSend_read p = [] \<and> waitingSend_write p = []"

definition pe_core :: "(u64 \<Rightarrow> bool) \<Rightarrow> nat \<Rightarrow> nat \<Rightarrow> pe_ptr \<Rightarrow> bool \<Rightarrow> bool \<Rightarrow> tick \<Rightarrow> pe \<Rightarrow> bool" where
  "pe_core mem B K i inr alive now p \<longleftrightarrow>
     traffic_ok mem i p \<and> bars p (length (traffic_list p)) = B \<and>
     bars p (unat (cur_traffic p)) = K + (if inr then 1 else 0) \<and>
     unat (cur_traffic p) \<le> length (traffic_list p) \<and>
     resp_ok now p \<and> packets_ok mem inr p \<and> (\<not> alive \<longrightarrow> retired_ok p)"

definition pe_inv ::
    "(u64 \<Rightarrow> bool) \<Rightarrow> nat \<Rightarrow> nat \<Rightarrow> pe_ptr \<Rightarrow> bool \<Rightarrow> bool \<Rightarrow> bool \<Rightarrow> bool \<Rightarrow> tick \<Rightarrow> pe \<Rightarrow> bool" where
  "pe_inv mem B K i inr full blk alive now p \<longleftrightarrow>
     pe_core mem B K i inr alive now p \<and> phase i inr full blk alive p"

abbreviation alive_set :: "pe_system \<Rightarrow> pe_ptr set" where
  "alive_set s \<equiv> snd ` set (pe_list s)"

abbreviation sync_full :: "pe_system \<Rightarrow> bool" where
  "sync_full s \<equiv> length (rdy_sync_list s) = length (pe_list s)"

definition globals_ok :: "nat \<Rightarrow> nat \<Rightarrow> pe_system \<Rightarrow> bool" where
  "globals_ok B K s \<longleftrightarrow> pes s \<noteq> [] \<and>
     distinct (map getCoordinate (pes s)) \<and>
     distinct (map fst (pe_list s)) \<and> distinct (map snd (pe_list s)) \<and>
     (\<forall>(k, j) \<in> set (pe_list s). j < length (pes s) \<and> getCoordinate (pes s ! j) = k) \<and>
     distinct (rdy_sync_list s) \<and> set (rdy_sync_list s) \<subseteq> alive_set s \<and>
     broadcast_issuer s = (if 0 \<in> set (rdy_sync_list s) then Some 0 else None) \<and>
     (alive_set s \<noteq> {..<length (pes s)} \<longrightarrow> K = B) \<and>
     sim_exit s = (pe_list s = [])"

definition config_inv :: "(u64 \<Rightarrow> bool) \<Rightarrow> nat \<Rightarrow> nat \<Rightarrow> config \<Rightarrow> bool" where
  "config_inv mem B K c \<longleftrightarrow> (case c of (s, b) \<Rightarrow> globals_ok B K s \<and>
     (\<forall>i < length (pes s).
        pe_inv mem B K i (i \<in> set (rdy_sync_list s)) (sync_full s) (i \<in> b) (i \<in> alive_set s) (curTick s) (pes s ! i)))"

section \<open>Local steps\<close>

lemmas pe_access = get_pe_def put_pe_def vec_at_def

lemma config_invD:
  assumes "config_inv mem B K (s, b)" and "i < length (pes s)"
  shows "pe_inv mem B K i (i \<in> set (rdy_sync_list s)) (sync_full s) (i \<in> b) (i \<in> alive_set s) (curTick s) (pes s ! i)"
    and "globals_ok B K s"
  using assms by (auto simp: config_inv_def)

lemma resp_ok_mono: "resp_ok t p \<Longrightarrow> t \<le> t' \<Longrightarrow> resp_ok t' p"
  unfolding resp_ok_def by (meson order_trans)

lemma pe_inv_later: "pe_inv mem B K i inr full blk alive t p \<Longrightarrow> t \<le> t' \<Longrightarrow> pe_inv mem B K i inr full blk alive t' p"
  unfolding pe_inv_def pe_core_def using resp_ok_mono by blast

lemma traffic_ok_cong:
  assumes "traffic_ok mem i p" and "cache_line_size p' = cache_line_size p" and "traffic_list p' = traffic_list p"
  shows "traffic_ok mem i p'"
proof -
  have "num_lines p' t = num_lines p t" "transfer_base p' t = transfer_base p t" for t
    using assms(2) by (simp_all add: num_lines_def transfer_base_def transfer_size_def Let_def)
  then show ?thesis using assms by (simp add: traffic_ok_def lines_ok_def)
qed

lemma bars_cong: "traffic_list p' = traffic_list p \<Longrightarrow> bars p' n = bars p n"
  by (simp add: bars_def)

lemma getCoordinate_cong: "pe_x p' = pe_x p \<Longrightarrow> pe_y p' = pe_y p \<Longrightarrow> getCoordinate p' = getCoordinate p"
  by (simp add: getCoordinate_def)

text \<open>One element changes, and the globals stay.\<close>

lemma config_inv_local:
  assumes inv: "config_inv mem B K (s, b)" and i: "i < length (pes s)"
    and s': "pes s' = (pes s)[i := p']" "pe_list s' = pe_list s" "rdy_sync_list s' = rdy_sync_list s"
      "broadcast_issuer s' = broadcast_issuer s" "sim_exit s' = sim_exit s" "curTick s \<le> curTick s'"
    and same: "getCoordinate p' = getCoordinate (pes s ! i)"
    and p': "pe_inv mem B K i (i \<in> set (rdy_sync_list s)) (sync_full s) (i \<in> b') (i \<in> alive_set s) (curTick s') p'"
    and b': "\<And>j. j \<noteq> i \<Longrightarrow> j \<in> b' \<longleftrightarrow> j \<in> b"
  shows "config_inv mem B K (s', b')"
proof -
  have coords: "map getCoordinate ((pes s)[i := p']) = map getCoordinate (pes s)"
    using same i by (simp add: map_update) (metis list_update_id nth_map)
  then have coord: "getCoordinate ((pes s)[i := p'] ! j) = getCoordinate (pes s ! j)" if "j < length (pes s)" for j
    using that by (metis length_list_update nth_map)
  have "globals_ok B K s" using config_invD(2) [OF inv i] .
  then have "globals_ok B K s'"
    unfolding globals_ok_def s' coords using coord by (auto split: prod.splits)
  moreover have "pe_inv mem B K j (j \<in> set (rdy_sync_list s')) (sync_full s') (j \<in> b') (j \<in> alive_set s') (curTick s') (pes s' ! j)"
    if j: "j < length (pes s')" for j
  proof (cases "j = i")
    case True
    then show ?thesis using p' i by (simp add: s')
  next
    case False
    have "j < length (pes s)" using j by (simp add: s')
    then show ?thesis
      using pe_inv_later [OF config_invD(1) [OF inv] s'(6)] False b' by (simp add: s')
  qed
  ultimately show ?thesis by (simp add: config_inv_def)
qed

lemma full_alive:
  assumes "globals_ok B K s"
  shows "sync_full s \<longleftrightarrow> set (rdy_sync_list s) = alive_set s"
proof -
  have d: "distinct (map snd (pe_list s))" "distinct (rdy_sync_list s)" "set (rdy_sync_list s) \<subseteq> alive_set s"
    using assms by (auto simp: globals_ok_def)
  have "length (pe_list s) = card (alive_set s)"
    using distinct_card [OF d(1)] by simp
  moreover have "length (rdy_sync_list s) = card (set (rdy_sync_list s))"
    using distinct_card [OF d(2)] by simp
  ultimately show ?thesis
    using card_subset_eq [OF _ d(3)] by (metis List.finite_set finite_imageI)
qed

section \<open>Issuing packets\<close>

definition line_packet :: "pe \<Rightarrow> pe_traffic \<Rightarrow> req_ptr \<Rightarrow> nat \<Rightarrow> pe_packet" where
  "line_packet p t r k =
     \<lparr>pk_req = r + k, pk_addr = transfer_base p t + of_nat k * cache_line_size p,
      pk_size = ucast (cache_line_size p), pk_read = (pt_type t = pt_READ),
      pk_broadcast = (pt_response t = pt_BROADCAST), pk_freed = False\<rparr>"

definition queue_packets :: "bool \<Rightarrow> pe_packet list \<Rightarrow> pe \<Rightarrow> pe" where
  "queue_packets reads pks p =
     (if reads then p\<lparr>waitingSend_read := waitingSend_read p @ pks\<rparr>
      else p\<lparr>waitingSend_write := waitingSend_write p @ pks\<rparr>)"

lemma issue_packets_exact:
  assumes i: "i < length (pes s)" and p: "pes s ! i = p"
    and line: "cache_line_size p \<noteq> 0" and n: "num_lines p t < 2 ^ 31"
  shows "issue_packets i t s =
     Inr (s\<lparr>pes := (pes s)[i := queue_packets (pt_type t = pt_READ)
               (map (line_packet p t (next_req s)) [0..<num_lines p t]) p],
           next_req := next_req s + num_lines p t\<rparr>)"
proof -
  let ?F = "\<lambda>k s.
       let (pkt, s) = getPacket (transfer_base p t + of_nat k * cache_line_size p)
                        (ucast (cache_line_size p)) (pt_type t = pt_READ) (pt_response t = pt_BROADCAST) s in
       bindE (get_pe i s) (\<lambda>q.
       let s = put_pe i (if pt_type t = pt_READ then q\<lparr>waitingSend_read := waitingSend_read q @ [pkt]\<rparr>
                         else q\<lparr>waitingSend_write := waitingSend_write q @ [pkt]\<rparr>) s
       in bindE (guardE (int k + 1 < 2 ^ 31) SignedOverflow) (\<lambda>_. Inr s))"
  have loop: "foldE ?F [0..<m] s =
      Inr (s\<lparr>pes := (pes s)[i := queue_packets (pt_type t = pt_READ) (map (line_packet p t (next_req s)) [0..<m]) p],
            next_req := next_req s + m\<rparr>)" if "m < 2 ^ 31" for m
    using that
  proof (induction m)
    case 0
    have "queue_packets r [] p = p" for r by (simp add: queue_packets_def)
    moreover have "(pes s)[i := p] = pes s" unfolding p [symmetric] by (rule list_update_id)
    ultimately show ?case by simp
  next
    case (Suc m)
    then show ?case
      using i by (simp add: foldE_append getPacket_def pe_access queue_packets_def line_packet_def)
  qed
  show ?thesis
    unfolding issue_packets_def using i p line loop [OF n] by (simp add: pe_access)
qed

section \<open>Every action keeps the invariant\<close>

text \<open>
  The tick at which an action happens.  A handler schedules at most a compute time ahead; as long
  as that does not wrap it returns; if it wraps, the assertion on the scheduled tick may fail.
\<close>

definition no_wrap :: "tick \<Rightarrow> bool" where
  "no_wrap t \<longleftrightarrow> t \<le> t + getComputeTime"

fun tick_of :: "action \<Rightarrow> config \<Rightarrow> tick" where
  "tick_of (Operate i) (s, b) = (case operateNextEvent (pes s ! i) of None \<Rightarrow> curTick s | Some t \<Rightarrow> t)"
| "tick_of (Send i accepts) (s, b) = (case scheduleReqEvent (pes s ! i) of None \<Rightarrow> curTick s | Some t \<Rightarrow> t)"
| "tick_of (Response i pkt t) (s, b) = t"
| "tick_of (Retry i t) (s, b) = t"

text \<open>What a schedule in the past fails with.\<close>

abbreviation past :: cpp_error where
  "past \<equiv> AssertFail ''when >= getCurTick()''"

definition unless_late :: "tick \<Rightarrow> 'a res \<Rightarrow> ('a \<Rightarrow> bool) \<Rightarrow> bool" where
  "unless_late t m Q \<longleftrightarrow> okE m Q \<or> \<not> no_wrap t \<and> m = Inl past"

lemma no_wrap_iff: "no_wrap t \<longleftrightarrow> unat t + 100 < 2 ^ 64"
  unfolding no_wrap_def getComputeTime_def by (simp add: no_olen_add_nat)

lemma no_wrap_next: "no_wrap t \<Longrightarrow> t \<le> t + 1"
  unfolding no_wrap_iff by (simp add: no_olen_add_nat)

lemma unless_lateI:
  assumes "m = (if g then Inr x else Inl past)" and "Q x" and "no_wrap t \<Longrightarrow> g"
  shows "unless_late t m Q"
  using assms by (auto simp: unless_late_def)

lemma unless_late_returns: "unless_late t m Q \<Longrightarrow> unat t + 100 < 2 ^ 64 \<Longrightarrow> \<exists>x. m = Inr x"
  by (cases m) (auto simp: unless_late_def no_wrap_iff)

lemma unless_late_ok: "okE m Q \<Longrightarrow> unless_late t m Q"
  by (simp add: unless_late_def)

lemma unless_late_mono: "unless_late t m Q \<Longrightarrow> (\<And>x. Q x \<Longrightarrow> R x) \<Longrightarrow> unless_late t m R"
  by (cases m) (auto simp: unless_late_def)

lemma pe_core_update:
  assumes "pe_core mem B K i inr alive now p"
    and "cache_line_size p' = cache_line_size p" "traffic_list p' = traffic_list p"
    and "bars p (unat (cur_traffic p')) = K' + (if inr' then 1 else 0)"
    and "unat (cur_traffic p') \<le> length (traffic_list p)"
    and "resp_ok now' p'" "packets_ok mem inr' p'" "\<not> alive' \<longrightarrow> retired_ok p'"
  shows "pe_core mem B K' i inr' alive' now' p'"
proof -
  have "traffic_ok mem i p" and B: "bars p (length (traffic_list p)) = B"
    using assms(1) unfolding pe_core_def by blast+
  then have "traffic_ok mem i p'" by (blast intro: traffic_ok_cong assms(2,3))
  then show ?thesis
    unfolding pe_core_def bars_cong [OF assms(3)] assms(3) using B assms(4-) by blast
qed

lemma pe_coreD:
  assumes "pe_core mem B K i inr alive now p"
  shows "traffic_ok mem i p" "bars p (length (traffic_list p)) = B"
    "bars p (unat (cur_traffic p)) = K + (if inr then 1 else 0)"
    "unat (cur_traffic p) \<le> length (traffic_list p)" "resp_ok now p" "packets_ok mem inr p"
    "\<not> alive \<Longrightarrow> retired_ok p"
  using assms unfolding pe_core_def by blast+

lemma pe_invD:
  assumes "pe_inv mem B K i inr full blk alive now p"
  shows "pe_core mem B K i inr alive now p" "phase i inr full blk alive p"
  using assms unfolding pe_inv_def by blast+

text \<open>Queues and traffic position stay; responses may disappear.\<close>

lemma pe_core_events:
  assumes p: "pe_core mem B K i inr alive now p" and now: "now \<le> now'"
    and eq: "cache_line_size p' = cache_line_size p" "traffic_list p' = traffic_list p" "cur_traffic p' = cur_traffic p"
      "waitingSend_read p' = waitingSend_read p" "waitingSend_write p' = waitingSend_write p"
    and sub: "set (waitingResp_read p') \<subseteq> set (waitingResp_read p)" "set (waitingResp_write p') \<subseteq> set (waitingResp_write p)"
  shows "pe_core mem B K i inr alive now' p'"
proof (rule pe_core_update [OF p eq(1,2)])
  note d = pe_coreD [OF p]
  show "bars p (unat (cur_traffic p')) = K + (if inr then 1 else 0)"
    "unat (cur_traffic p') \<le> length (traffic_list p)" unfolding eq by (rule d(3), rule d(4))
  show "resp_ok now' p'" using resp_ok_mono [OF d(5) now] sub unfolding resp_ok_def set_append by blast
  show "packets_ok mem inr p'" using d(6) unfolding packets_ok_def eq .
  show "\<not> alive \<longrightarrow> retired_ok p'"
    using d(7) sub unfolding retired_ok_def no_more_traffic_def eq by auto
qed

lemma phase_of_retry:
  assumes "phase_of z inr full True alive oper send rq wq rr rw todo"
  shows "phase_of z inr full False alive oper True rq wq rr rw todo" "\<not> send" "rq \<or> wq"
  using assms unfolding phase_of_def by argo+

lemma phase_retry:
  assumes "phase i inr full True alive p"
  shows "phase i inr full False alive (p\<lparr>stats := x, scheduleReqEvent := Some u\<rparr>)"
    and "scheduleReqEvent p = None" and "waitingSend_read p \<noteq> [] \<or> waitingSend_write p \<noteq> []"
  using phase_of_retry [OF assms [unfolded phase_def]] by (simp_all add: phase_def no_more_traffic_def)

lemma retry_ok:
  assumes inv: "config_inv mem B K (s, b)" and en: "enabled (Retry i t) (s, b)"
  shows "unless_late t (perform mem (Retry i t) (s, b)) (config_inv mem B K)"
proof -
  let ?p = "pes s ! i"
  have i: "i < length (pes s)" "curTick s \<le> t" "i \<in> b" using en by (auto simp: due_iff)
  note pinv = config_invD(1) [OF inv i(1)]
  have ph: "phase i (i \<in> set (rdy_sync_list s)) (sync_full s) True (i \<in> alive_set s) ?p"
    using pe_invD(2) [OF pinv] i(3) by simp
  then have send: "scheduleReqEvent ?p = None" and q: "waitingSend_read ?p \<noteq> [] \<or> waitingSend_write ?p \<noteq> []"
    by (rule phase_retry)+
  let ?p' = "?p\<lparr>stats := (stats ?p)\<lparr>numRetries := numRetries (stats ?p) + 1\<rparr>, scheduleReqEvent := Some (t + 1)\<rparr>"
  let ?s' = "s\<lparr>curTick := t, pes := (pes s)[i := ?p']\<rparr>"
  have run: "perform mem (Retry i t) (s, b) = (if t \<le> t + 1 then Inr (?s', b - {i}) else Inl past)"
    using i q send by (simp add: recvReqRetry_def retryReq_def schedule_send_def pe_access)
  have "config_inv mem B K (?s', b - {i})"
  proof (rule config_inv_local [OF inv i(1)])
    show "pe_inv mem B K i (i \<in> set (rdy_sync_list s)) (sync_full s) (i \<in> b - {i}) (i \<in> alive_set s) (curTick ?s') ?p'"
      unfolding pe_inv_def
    proof
      show "pe_core mem B K i (i \<in> set (rdy_sync_list s)) (i \<in> alive_set s) (curTick ?s') ?p'"
        by (rule pe_core_events [OF pe_invD(1) [OF pinv]]) (use i(2) in simp_all)
      show "phase i (i \<in> set (rdy_sync_list s)) (sync_full s) (i \<in> b - {i}) (i \<in> alive_set s) ?p'"
        using phase_retry(1) [OF ph] by simp
    qed
  qed (use i(2) in \<open>auto simp: getCoordinate_def\<close>)
  with run show ?thesis by (rule unless_lateI) (simp add: no_wrap_next)
qed

section \<open>Retiring\<close>

lemma bars_mono: "n \<le> m \<Longrightarrow> bars p n \<le> bars p m"
proof -
  assume "n \<le> m"
  then have "take m (traffic_list p) = take n (traffic_list p) @ take (m - n) (drop n (traffic_list p))"
    by (metis add_diff_inverse_nat not_less take_add)
  then show ?thesis by (simp add: bars_def)
qed

lemma waiting_bound:
  assumes "pe_core mem B K i True alive now p"
  shows "K < B"
proof -
  have "bars p (unat (cur_traffic p)) \<le> bars p (length (traffic_list p))"
    by (rule bars_mono, rule pe_coreD(4) [OF assms])
  then show ?thesis using pe_coreD(2,3) [OF assms] by simp
qed

lemma globals_entry:
  "globals_ok B K s \<Longrightarrow> (k, j) \<in> set (pe_list s) \<Longrightarrow> j < length (pes s) \<and> getCoordinate (pes s ! j) = k"
  unfolding globals_ok_def by (elim conjE) (drule (1) bspec, simp)

lemma globalsD:
  assumes "globals_ok B K s"
  shows "j \<in> alive_set s \<Longrightarrow> j < length (pes s)"
    and "j \<in> set (rdy_sync_list s) \<Longrightarrow> j \<in> alive_set s"
    and "(k, j) \<in> set (pe_list s) \<Longrightarrow> getCoordinate (pes s ! j) = k"
    and "distinct (map fst (pe_list s))" and "distinct (map snd (pe_list s))"
    and "distinct (map getCoordinate (pes s))" and "distinct (rdy_sync_list s)"
    and "broadcast_issuer s = (if 0 \<in> set (rdy_sync_list s) then Some 0 else None)"
    and "alive_set s \<noteq> {..<length (pes s)} \<Longrightarrow> K = B" and "sim_exit s = (pe_list s = [])"
    and "pes s \<noteq> []"
proof -
  show "j < length (pes s)" if "j \<in> alive_set s"
  proof -
    from that obtain e where "e \<in> set (pe_list s)" "j = snd e" by blast
    then show ?thesis using globals_entry [OF assms, of "fst e" "snd e"] by simp
  qed
  show "getCoordinate (pes s ! j) = k" if "(k, j) \<in> set (pe_list s)"
    using globals_entry [OF assms that] ..
  note c = assms [unfolded globals_ok_def]
  show "j \<in> alive_set s" if "j \<in> set (rdy_sync_list s)" using c that by (elim conjE) (rule subsetD)
  show "distinct (map fst (pe_list s))" using c by (elim conjE)
  show "distinct (map snd (pe_list s))" using c by (elim conjE)
  show "distinct (map getCoordinate (pes s))" using c by (elim conjE)
  show "distinct (rdy_sync_list s)" using c by (elim conjE)
  show "broadcast_issuer s = (if 0 \<in> set (rdy_sync_list s) then Some 0 else None)" using c by (elim conjE)
  show "sim_exit s = (pe_list s = [])" using c by (elim conjE)
  show "pes s \<noteq> []" using c by (elim conjE)
  show "K = B" if "alive_set s \<noteq> {..<length (pes s)}" using c that by (elim conjE) (rule mp)
qed

text \<open>An element without traffic left has met all barriers, so that nobody waits at one.\<close>

lemma nobody_waits:
  assumes inv: "config_inv mem B K (s, b)" and KB: "K = B"
  shows "rdy_sync_list s = []" and "broadcast_issuer s = None"
proof -
  have g: "globals_ok B K s" using inv by (simp add: config_inv_def)
  have "j \<notin> set (rdy_sync_list s)" for j
  proof
    assume j: "j \<in> set (rdy_sync_list s)"
    then have "j < length (pes s)" using globalsD(1,2) [OF g] by blast
    from pe_invD(1) [OF config_invD(1) [OF inv this]] j KB show False
      using waiting_bound by fastforce
  qed
  then show "rdy_sync_list s = []" by (cases "rdy_sync_list s") auto
  then show "broadcast_issuer s = None" using globalsD(8) [OF g] by simp
qed

lemma no_more_all_bars:
  assumes "pe_core mem B K i False alive now p" and "no_more_traffic p"
  shows "K = B"
proof -
  have "unat (cur_traffic p) = length (traffic_list p)"
    using assms pe_coreD(4) [OF assms(1)] by (simp add: no_more_traffic_def)
  then show ?thesis using pe_coreD(2,3) [OF assms(1)] by simp
qed

lemma phase_of_full: "phase_of z False full blk alive oper send rq wq rr rw todo = phase_of z False full' blk alive oper send rq wq rr rw todo"
  unfolding phase_of_def by simp

lemma delete_absent: "k \<notin> fst ` set l \<Longrightarrow> AList.delete k l = l"
  by (induction l) auto

lemma delete_key:
  assumes "distinct (map fst l)" and "(k, j) \<in> set l" and "distinct (map snd l)"
  shows "snd ` set (AList.delete k l) = snd ` set l - {j}"
  using assms
proof (induction l)
  case (Cons e l)
  obtain k' v where e: "e = (k', v)" by (cases e)
  show ?case
  proof (cases "k' = k")
    case True
    then have k: "k \<notin> fst ` set l" using Cons.prems(1) by (simp add: e)
    then have "(k, j) \<notin> set l" by force
    then have "j = v" using Cons.prems(2) by (simp add: e)
    then show ?thesis using Cons.prems(3) True delete_absent [OF k] by (simp add: e)
  next
    case False
    then have kj: "(k, j) \<in> set l" using Cons.prems(2) by (simp add: e)
    then have "j \<in> snd ` set l" by force
    then have "v \<noteq> j" using Cons.prems(3) by (auto simp: e)
    then show ?thesis using Cons.IH [OF _ kj] Cons.prems(1,3) False by (auto simp: e)
  qed
qed simp

lemma alive_retire:
  assumes g: "globals_ok B K s" and i: "i < length (pes s)" and p: "getCoordinate p = getCoordinate (pes s ! i)"
  shows "alive_set (retire p s) = alive_set s - {i}"
proof -
  let ?k = "getCoordinate (pes s ! i)"
  have inj: "j = i" if "j < length (pes s)" "getCoordinate (pes s ! j) = ?k" for j
    using that globalsD(6) [OF g] i by (metis length_map nth_eq_iff_index_eq nth_map)
  show ?thesis
  proof (cases "i \<in> alive_set s")
    case True
    then obtain k where "(k, i) \<in> set (pe_list s)" by force
    then have "(?k, i) \<in> set (pe_list s)" using globalsD(3) [OF g] by fastforce
    from delete_key [OF globalsD(4) [OF g] this globalsD(5) [OF g]] show ?thesis
      by (simp add: retire_def Let_def p)
  next
    case False
    have "?k \<notin> fst ` set (pe_list s)"
    proof
      assume "?k \<in> fst ` set (pe_list s)"
      then obtain j where j: "(?k, j) \<in> set (pe_list s)" by force
      then have "j \<in> alive_set s" by force
      then have "j = i" using inj globalsD(1) [OF g] globalsD(3) [OF g j] by blast
      with False \<open>j \<in> alive_set s\<close> show False by simp
    qed
    then show ?thesis using False by (simp add: retire_def Let_def p delete_absent)
  qed
qed

text \<open>
  The end of a handler that may retire its element.  The element's phase is known up to the
  question whether a finished element still waits for write responses.
\<close>

lemma phase_of_alive:
  "phase_of z inr full blk False oper send rq wq rr rw todo \<Longrightarrow>
   (\<not> inr \<and> \<not> oper \<and> \<not> rq \<and> \<not> wq \<and> \<not> rr \<longrightarrow> alive \<longrightarrow> rw) \<Longrightarrow>
   phase_of z inr full blk alive oper send rq wq rr rw todo"
  unfolding phase_of_def by argo

lemma settle_ok:
  assumes inv: "config_inv mem B K (s, b)" and i: "i < length (pes s)"
    and s': "pes s' = (pes s)[i := p]" "pe_list s' = pe_list s" "rdy_sync_list s' = rdy_sync_list s"
      "broadcast_issuer s' = broadcast_issuer s" "sim_exit s' = sim_exit s" "curTick s \<le> curTick s'"
    and same: "getCoordinate p = getCoordinate (pes s ! i)"
    and core: "pe_core mem B K i (i \<in> set (rdy_sync_list s)) (i \<in> alive_set s) (curTick s') p"
    and ph: "phase i (i \<in> set (rdy_sync_list s)) (sync_full s) (i \<in> b) False p"
  shows "config_inv mem B K (if all_done p s' \<and> no_more_traffic p then retire p s' else s', b)"
proof (cases "all_done p s' \<and> no_more_traffic p")
  case True
  have g: "globals_ok B K s" using config_invD(2) [OF inv i] .
  have rdy: "rdy_sync_list s = []" "broadcast_issuer s = None"
    using True s' by (auto simp: all_done_def)
  then have core0: "pe_core mem B K i False (i \<in> alive_set s) (curTick s') p"
    and ph0: "phase i False (sync_full s) (i \<in> b) False p" using core ph by simp_all
  have KB: "K = B" using no_more_all_bars [OF core0] True by blast
  have coords: "map getCoordinate ((pes s)[i := p]) = map getCoordinate (pes s)"
    using same i by (simp add: map_update) (metis list_update_id nth_map)
  have coord: "getCoordinate ((pes s)[i := p] ! j) = getCoordinate (pes s ! j)" if "j < length (pes s)" for j
    using coords that by (metis length_list_update nth_map)
  let ?r = "retire p s'"
  have al: "alive_set ?r = alive_set s - {i}"
    using alive_retire [OF g i same] by (simp add: retire_def Let_def s')
  have sub: "set (pe_list ?r) \<subseteq> set (pe_list s)"
    by (auto simp: retire_def Let_def s' AList.delete_eq)
  have "globals_ok B K ?r"
    unfolding globals_ok_def
  proof (intro conjI)
    show "\<forall>(k, j) \<in> set (pe_list ?r). j < length (pes ?r) \<and> getCoordinate (pes ?r ! j) = k"
      using globals_entry [OF g] sub coord by (auto simp: retire_def Let_def s')
    show "distinct (map fst (pe_list ?r))" "distinct (map snd (pe_list ?r))"
      using globalsD(4,5) [OF g] by (auto simp: retire_def Let_def s' AList.delete_eq distinct_map_filter)
    show "sim_exit ?r = (pe_list ?r = [])"
      using globalsD(10) [OF g] by (auto simp: retire_def Let_def s')
  qed (use g rdy KB coords globalsD(6,11) [OF g] in \<open>simp_all add: retire_def Let_def s'\<close>)
  moreover have "pe_inv mem B K j (j \<in> set (rdy_sync_list ?r)) (sync_full ?r) (j \<in> b) (j \<in> alive_set ?r) (curTick ?r) (pes ?r ! j)"
    if j: "j < length (pes ?r)" for j
  proof (cases "j = i")
    case True
    have "retired_ok p" using \<open>all_done p s' \<and> no_more_traffic p\<close> by (simp add: all_done_def retired_ok_def)
    then have "pe_core mem B K i False False (curTick s') p"
      using core0 unfolding pe_core_def by blast
    moreover have "phase i False (sync_full ?r) (i \<in> b) False p"
      using ph0 unfolding phase_def by (subst phase_of_full)
    ultimately show ?thesis
      unfolding al using True i rdy by (simp add: pe_inv_def retire_def Let_def s')
  next
    case False
    then have jn: "j < length (pes s)" using j by (simp add: retire_def Let_def s')
    from pe_inv_later [OF config_invD(1) [OF inv jn] s'(6)]
    have "pe_core mem B K j False (j \<in> alive_set s) (curTick s') (pes s ! j)"
      and "phase j False (sync_full s) (j \<in> b) (j \<in> alive_set s) (pes s ! j)"
      by (simp_all add: pe_inv_def rdy)
    moreover from this(2) have "phase j False (sync_full ?r) (j \<in> b) (j \<in> alive_set s) (pes s ! j)"
      unfolding phase_def by (subst phase_of_full)
    ultimately show ?thesis
      unfolding al using False rdy by (simp add: pe_inv_def retire_def Let_def s')
  qed
  ultimately show ?thesis using True by (simp add: config_inv_def)
next
  case False
  have "phase i (i \<in> set (rdy_sync_list s)) (sync_full s) (i \<in> b) (i \<in> alive_set s) p"
    unfolding phase_def
  proof (rule phase_of_alive [OF ph [unfolded phase_def]], intro impI, elim conjE)
    assume q: "i \<notin> set (rdy_sync_list s)" "\<not> operateNextEvent p \<noteq> None" "\<not> waitingSend_read p \<noteq> []"
      "\<not> waitingSend_write p \<noteq> []" "\<not> waitingResp_read p \<noteq> []"
    have nm: "no_more_traffic p"
      using ph q unfolding phase_def phase_of_def by argo
    have "K = B" using no_more_all_bars [OF _ nm] core q(1) by simp
    from nobody_waits [OF inv this] show "waitingResp_write p \<noteq> []"
      using False nm q s' by (auto simp: all_done_def)
  qed
  then have "pe_inv mem B K i (i \<in> set (rdy_sync_list s)) (sync_full s) (i \<in> b) (i \<in> alive_set s) (curTick s') p"
    using core by (simp add: pe_inv_def)
  from config_inv_local [OF inv i s' same this] show ?thesis unfolding if_not_P [OF False] by simp
qed

lemma retiring_result:
  "okE (bindE (if c then Inr x else Inr y) (\<lambda>s. Inr (s, b))) Q \<longleftrightarrow> Q (if c then x else y, b)"
  by simp

lemma subset_delete: "set (AList.delete k l) \<subseteq> set l"
  by (auto simp: AList.delete_eq)

lemma phase_of_write_response:
  "phase_of z inr full blk alive oper send rq wq rr rw todo \<Longrightarrow>
   phase_of z inr full blk False oper send rq wq rr rw' todo"
  unfolding phase_of_def by argo

lemma phase_of_read_response:
  assumes "phase_of z inr full blk alive oper send rq wq True rw todo"
  shows "inr \<or> rq \<or> rr' \<Longrightarrow> phase_of z inr full blk False oper send rq wq rr' rw todo"
    and "\<not> inr \<Longrightarrow> \<not> rq \<Longrightarrow> phase_of z inr full blk False True send rq wq False rw todo"
    and "\<not> oper"
  using assms unfolding phase_of_def by argo+

lemma response_ok:
  assumes inv: "config_inv mem B K (s, b)" and en: "enabled (Response i pkt t) (s, b)"
  shows "unless_late t (perform mem (Response i pkt t) (s, b)) (config_inv mem B K)"
proof -
  let ?p = "pes s ! i" and ?s = "s\<lparr>curTick := t\<rparr>"
  let ?q = "if pk_read pkt then waitingResp_read ?p else waitingResp_write ?p"
  have i: "i < length (pes s)" "curTick s \<le> t" using en by (auto simp: due_iff)
  obtain sent where sent: "map_of ?q (pk_req pkt) = Some sent" using en by auto
  note pinv = config_invD(1) [OF inv i(1)]
  note core = pe_invD(1) [OF pinv] and ph = pe_invD(2) [OF pinv, unfolded phase_def]
  have "sent \<le> curTick s"
    using pe_coreD(5) [OF core] map_of_SomeD [OF sent] by (force simp: resp_ok_def split: if_splits)
  then have le: "sent \<le> t" using i(2) by simp
  show ?thesis
  proof (cases "pk_read pkt")
    case False
    define p' where "p' = ?p\<lparr>stats := (stats ?p)\<lparr>totalWrites := totalWrites (stats ?p) + 1,
        bytesWritten := bytesWritten (stats ?p) + unat (pk_size pkt),
        totalWriteLatency := totalWriteLatency (stats ?p) + unat (t - sent)\<rparr>,
      waitingResp_write := AList.delete (pk_req pkt) (waitingResp_write ?p)\<rparr>"
    let ?s' = "?s\<lparr>pes := (pes s)[i := p']\<rparr>"
    have run: "recvTimingResp i pkt ?s = (if all_done p' ?s' \<and> no_more_traffic p' then Inr (retire p' ?s') else Inr ?s')"
      using False sent le i(1)
      by (simp add: recvTimingResp_def account_response_def pe_access p'_def Let_def)
    have "pe_core mem B K i (i \<in> set (rdy_sync_list s)) (i \<in> alive_set s) t p'"
      by (rule pe_core_events [OF core i(2)]) (auto simp: p'_def subset_delete dest: subsetD [OF subset_delete])
    moreover have "phase i (i \<in> set (rdy_sync_list s)) (sync_full s) (i \<in> b) False p'"
      using phase_of_write_response [OF ph] by (simp add: phase_def p'_def no_more_traffic_def)
    ultimately have "config_inv mem B K (if all_done p' ?s' \<and> no_more_traffic p' then retire p' ?s' else ?s', b)"
      by (intro settle_ok [OF inv i(1)]) (use i(2) in \<open>simp_all add: p'_def getCoordinate_def\<close>)
    then show ?thesis unfolding perform.simps run by (intro unless_late_ok) (simp only: retiring_result)
  next
    case True
    define p1 where "p1 = ?p\<lparr>stats := (stats ?p)\<lparr>totalReads := totalReads (stats ?p) + 1,
        bytesRead := bytesRead (stats ?p) + unat (pk_size pkt),
        totalReadLatency := totalReadLatency (stats ?p) + unat (t - sent)\<rparr>,
      waitingResp_read := AList.delete (pk_req pkt) (waitingResp_read ?p)\<rparr>"
    have rr: "waitingResp_read ?p \<noteq> []" using sent True by auto
    have ph': "phase_of (i = 0) (i \<in> set (rdy_sync_list s)) (sync_full s) (i \<in> b) (i \<in> alive_set s)
        (operateNextEvent ?p \<noteq> None) (scheduleReqEvent ?p \<noteq> None) (waitingSend_read ?p \<noteq> [])
        (waitingSend_write ?p \<noteq> []) True (waitingResp_write ?p \<noteq> []) (\<not> no_more_traffic ?p)"
      using ph rr by simp
    define c where "c \<longleftrightarrow> waitingSend_read p1 = [] \<and> waitingResp_read p1 = [] \<and> i \<notin> set (rdy_sync_list s)"
    define p' where "p' = (if c then p1\<lparr>operateNextEvent := Some (t + 1)\<rparr> else p1)"
    let ?s' = "?s\<lparr>pes := (pes s)[i := p']\<rparr>"
    have oper: "operateNextEvent ?p = None" using phase_of_read_response(3) [OF ph'] by simp
    have acc: "account_response i pkt ?s = (if c \<longrightarrow> t \<le> t + 1 then Inr ?s' else Inl past)"
    proof (cases c)
      case c: True
      then have "waitingSend_read p1 = [] \<and> waitingResp_read p1 = [] \<and> i \<notin> set (rdy_sync_list s)" by (simp add: c_def)
      then show ?thesis
        using True sent le i(1) oper c
        by (simp add: account_response_def pe_access p1_def p'_def Let_def schedule_operate_def)
    next
      case c: False
      then have "\<not> (waitingSend_read p1 = [] \<and> waitingResp_read p1 = [] \<and> i \<notin> set (rdy_sync_list s))" by (simp add: c_def)
      then show ?thesis
        using True sent le i(1) c
        by (auto simp: account_response_def pe_access p1_def p'_def Let_def)
    qed
    let ?r = "if all_done p' ?s' \<and> no_more_traffic p' then retire p' ?s' else ?s'"
    have run: "perform mem (Response i pkt t) (s, b) = (if c \<longrightarrow> t \<le> t + 1 then Inr (?r, b) else Inl past)"
      unfolding perform.simps recvTimingResp_def acc using i(1) by (simp add: pe_access)
    have "pe_core mem B K i (i \<in> set (rdy_sync_list s)) (i \<in> alive_set s) t p'"
      by (rule pe_core_events [OF core i(2)]) (auto simp: p'_def p1_def dest: subsetD [OF subset_delete])
    moreover have "phase i (i \<in> set (rdy_sync_list s)) (sync_full s) (i \<in> b) False p'"
    proof (cases c)
      case True
      then show ?thesis
        using phase_of_read_response(2) [OF ph']
        by (simp add: phase_def p'_def p1_def no_more_traffic_def c_def)
    next
      case False
      then have "i \<in> set (rdy_sync_list s) \<or> waitingSend_read ?p \<noteq> [] \<or> waitingResp_read p1 \<noteq> []"
        by (auto simp: c_def p1_def)
      from phase_of_read_response(1) [OF ph' this] False show ?thesis
        by (simp add: phase_def p'_def p1_def no_more_traffic_def)
    qed
    ultimately have "config_inv mem B K (?r, b)"
      by (intro settle_ok [OF inv i(1)]) (use i(2) in \<open>simp_all add: p'_def p1_def getCoordinate_def\<close>)
    with run show ?thesis by (rule unless_lateI) (simp add: no_wrap_next)
  qed
qed

section \<open>Sending\<close>

lemma phase_of_send:
  assumes "phase_of z inr full blk alive oper True rq wq rr rw todo"
  shows "\<not> blk" "\<not> oper" "rq \<or> wq" "\<not> (rq \<and> wq)" "inr \<Longrightarrow> z \<and> full \<and> rq \<and> \<not> wq" "wq \<Longrightarrow> \<not> rr \<and> \<not> inr"
    "phase_of z inr full True alive oper False rq wq rr rw todo"
    "inr \<Longrightarrow> phase_of z inr full False alive oper True True wq rr' rw' todo"
    "\<not> inr \<Longrightarrow> wq \<Longrightarrow> phase_of z inr full False alive False True rq True rr rw' todo"
    "\<not> inr \<Longrightarrow> wq \<Longrightarrow> phase_of z inr full False alive True False rq False rr rw' todo"
    "\<not> inr \<Longrightarrow> rq \<Longrightarrow> phase_of z inr full False alive False True True wq rr' rw todo"
    "\<not> inr \<Longrightarrow> rq \<Longrightarrow> phase_of z inr full False alive False False False wq True rw todo"
  using assms unfolding phase_of_def by argo+

lemma set_update_subset: "set (AList.update k v l) \<subseteq> insert (k, v) (set l)"
  by (induction l) auto

lemma update_nonempty [simp]: "AList.update k v l \<noteq> []"
  by (cases l) auto

lemma waitingSend_event [simp]: "waitingSend (p\<lparr>scheduleReqEvent := x\<rparr>) = waitingSend p"
  "waitingSend (p\<lparr>stats := y\<rparr>) = waitingSend p"
  by (simp_all add: waitingSend_def)

lemma reject_ok:
  assumes inv: "config_inv mem B K (s, b)" and en: "enabled (Send i False) (s, b)"
  shows "okE (perform mem (Send i False) (s, b)) (config_inv mem B K)"
proof -
  let ?p = "pes s ! i"
  obtain t where i: "i < length (pes s)" "curTick s \<le> t" and t: "scheduleReqEvent ?p = Some t"
    using en by (auto simp: due_iff)
  note pinv = config_invD(1) [OF inv i(1)]
  note core = pe_invD(1) [OF pinv]
  have ph: "phase_of (i = 0) (i \<in> set (rdy_sync_list s)) (sync_full s) (i \<in> b) (i \<in> alive_set s)
        (operateNextEvent ?p \<noteq> None) True (waitingSend_read ?p \<noteq> [])
        (waitingSend_write ?p \<noteq> []) (waitingResp_read ?p \<noteq> []) (waitingResp_write ?p \<noteq> []) (\<not> no_more_traffic ?p)"
    using pe_invD(2) [OF pinv] t by (simp add: phase_def)
  have q: "waitingSend ?p \<noteq> []" using phase_of_send(3) [OF ph] by (auto simp: waitingSend_def)
  have "hd (waitingSend ?p) \<in> set (waitingSend_read ?p) \<union> set (waitingSend_write ?p)"
    using hd_in_set [OF q] by (auto simp: waitingSend_def split: if_splits)
  then have pk: "\<not> pk_freed (hd (waitingSend ?p))" "mem (pk_addr (hd (waitingSend ?p)))"
    using pe_coreD(6) [OF core] by (auto simp: packets_ok_def)
  define p' where "p' = ?p\<lparr>scheduleReqEvent := None, stats := (stats ?p)\<lparr>numPackets := numPackets (stats ?p) + 1\<rparr>,
     retryPktTick := t\<rparr>"
  let ?s' = "s\<lparr>curTick := t, pes := (pes s)[i := p']\<rparr>"
  have "scheduleReq mem False i (put_pe i (?p\<lparr>scheduleReqEvent := None\<rparr>) (s\<lparr>curTick := t\<rparr>)) = Inr ?s'"
    using i(1) q pk by (simp add: scheduleReq_def pe_access Let_def p'_def)
  then have run: "perform mem (Send i False) (s, b) = Inr (?s', insert i b)"
    using i(1) t by (simp add: get_pe_def vec_at_def)
  have "config_inv mem B K (?s', insert i b)"
  proof (rule config_inv_local [OF inv i(1)])
    have "pe_core mem B K i (i \<in> set (rdy_sync_list s)) (i \<in> alive_set s) t p'"
      by (rule pe_core_events [OF core i(2)]) (simp_all add: p'_def)
    moreover have "phase i (i \<in> set (rdy_sync_list s)) (sync_full s) True (i \<in> alive_set s) p'"
      using phase_of_send(7) [OF ph] by (simp add: phase_def p'_def no_more_traffic_def)
    ultimately show "pe_inv mem B K i (i \<in> set (rdy_sync_list s)) (sync_full s) (i \<in> insert i b) (i \<in> alive_set s) (curTick ?s') p'"
      by (simp add: pe_inv_def)
  qed (use i(2) in \<open>simp_all add: p'_def getCoordinate_def\<close>)
  then show ?thesis unfolding run by simp
qed

lemma clear_retry_simps [simp]:
  "waitingSend_read (clear_retry t p) = waitingSend_read p"
  "waitingSend_write (clear_retry t p) = waitingSend_write p"
  "waitingResp_read (clear_retry t p) = waitingResp_read p"
  "waitingResp_write (clear_retry t p) = waitingResp_write p"
  "operateNextEvent (clear_retry t p) = operateNextEvent p"
  "scheduleReqEvent (clear_retry t p) = scheduleReqEvent p"
  "traffic_list (clear_retry t p) = traffic_list p"
  "cur_traffic (clear_retry t p) = cur_traffic p"
  "cache_line_size (clear_retry t p) = cache_line_size p"
  "pe_x (clear_retry t p) = pe_x p" "pe_y (clear_retry t p) = pe_y p"
  by (simp_all add: clear_retry_def)

text \<open>An accepted packet that is no broadcast.\<close>

lemma accept_write_ok:
  assumes inv: "config_inv mem B K (s, b)" and en: "enabled (Send i True) (s, b)"
    and w: "waitingSend_write (pes s ! i) \<noteq> []"
  shows "unless_late (tick_of (Send i True) (s, b)) (perform mem (Send i True) (s, b)) (config_inv mem B K)"
proof -
  let ?p = "pes s ! i"
  obtain t where i: "i < length (pes s)" "curTick s \<le> t" and t: "scheduleReqEvent ?p = Some t"
    using en by (auto simp: due_iff)
  note pinv = config_invD(1) [OF inv i(1)]
  note core = pe_invD(1) [OF pinv]
  have ph: "phase_of (i = 0) (i \<in> set (rdy_sync_list s)) (sync_full s) (i \<in> b) (i \<in> alive_set s)
        (operateNextEvent ?p \<noteq> None) True (waitingSend_read ?p \<noteq> [])
        (waitingSend_write ?p \<noteq> []) (waitingResp_read ?p \<noteq> []) (waitingResp_write ?p \<noteq> []) (\<not> no_more_traffic ?p)"
    using pe_invD(2) [OF pinv] t by (simp add: phase_def)
  obtain pk rest where q: "waitingSend_write ?p = pk # rest" using w by (cases "waitingSend_write ?p") auto
  then have pk: "\<not> pk_freed pk" "mem (pk_addr pk)" "\<not> pk_read pk" "\<not> pk_broadcast pk"
    using pe_coreD(6) [OF core] by (auto simp: packets_ok_def)
  have f: "waitingResp_read ?p = []" "i \<notin> set (rdy_sync_list s)" "operateNextEvent ?p = None" "i \<notin> b" "waitingSend_read ?p = []"
    using phase_of_send(1,2,4,6) [OF ph] w by auto
  define p1 where "p1 = clear_retry t (?p\<lparr>scheduleReqEvent := None, stats := (stats ?p)\<lparr>numPackets := numPackets (stats ?p) + 1\<rparr>,
     waitingSend_write := rest, waitingResp_write := AList.update (pk_req pk) t (waitingResp_write ?p)\<rparr>)"
  define p' where "p' = (if rest = [] then p1\<lparr>operateNextEvent := Some (t + 1)\<rparr> else p1\<lparr>scheduleReqEvent := Some (t + 1)\<rparr>)"
  let ?s' = "s\<lparr>curTick := t, pes := (pes s)[i := p']\<rparr>"
  have "scheduleReq mem True i (put_pe i (?p\<lparr>scheduleReqEvent := None\<rparr>) (s\<lparr>curTick := t\<rparr>)) = (if t \<le> t + 1 then Inr ?s' else Inl past)"
    using i(1) pk f q
    by (simp add: scheduleReq_def pe_access Let_def waitingSend_def sent_packet_def record_request_def
        put_waitingSend_def schedule_operate_def schedule_send_def p1_def p'_def)
  then have run: "perform mem (Send i True) (s, b) = (if t \<le> t + 1 then Inr (?s', b) else Inl past)"
    using i(1) t by (simp add: get_pe_def vec_at_def)
  have "config_inv mem B K (?s', b)"
  proof (rule config_inv_local [OF inv i(1)])
    have "pe_core mem B K i (i \<in> set (rdy_sync_list s)) (i \<in> alive_set s) t p'"
    proof (rule pe_core_update [OF core])
      show "resp_ok t p'"
        using resp_ok_mono [OF pe_coreD(5) [OF core] i(2)] set_update_subset [of "pk_req pk" t "waitingResp_write ?p"]
        by (auto simp: resp_ok_def p'_def p1_def)
      show "packets_ok mem (i \<in> set (rdy_sync_list s)) p'"
        using pe_coreD(6) [OF core] q by (simp add: packets_ok_def p'_def p1_def)
      show "i \<notin> alive_set s \<longrightarrow> retired_ok p'"
        using pe_coreD(7) [OF core] w by (auto simp: retired_ok_def)
    qed (use pe_coreD(3,4) [OF core] in \<open>simp_all add: p'_def p1_def\<close>)
    moreover have "phase i (i \<in> set (rdy_sync_list s)) (sync_full s) (i \<in> b) (i \<in> alive_set s) p'"
      using phase_of_send(9,10) [OF ph, where rw' = True] f w
      by (simp add: phase_def p'_def p1_def no_more_traffic_def)
    ultimately show "pe_inv mem B K i (i \<in> set (rdy_sync_list s)) (sync_full s) (i \<in> b) (i \<in> alive_set s) (curTick ?s') p'"
      by (simp add: pe_inv_def)
  qed (use i(2) in \<open>simp_all add: p'_def p1_def getCoordinate_def\<close>)
  with run show ?thesis by (rule unless_lateI) (simp add: no_wrap_next t)
qed

lemma accept_read_ok:
  assumes inv: "config_inv mem B K (s, b)" and en: "enabled (Send i True) (s, b)"
    and w: "waitingSend_write (pes s ! i) = []" and r: "i \<notin> set (rdy_sync_list s)"
  shows "unless_late (tick_of (Send i True) (s, b)) (perform mem (Send i True) (s, b)) (config_inv mem B K)"
proof -
  let ?p = "pes s ! i"
  obtain t where i: "i < length (pes s)" "curTick s \<le> t" and t: "scheduleReqEvent ?p = Some t"
    using en by (auto simp: due_iff)
  note pinv = config_invD(1) [OF inv i(1)]
  note core = pe_invD(1) [OF pinv]
  have ph: "phase_of (i = 0) False (sync_full s) (i \<in> b) (i \<in> alive_set s)
        (operateNextEvent ?p \<noteq> None) True (waitingSend_read ?p \<noteq> [])
        (waitingSend_write ?p \<noteq> []) (waitingResp_read ?p \<noteq> []) (waitingResp_write ?p \<noteq> []) (\<not> no_more_traffic ?p)"
    using pe_invD(2) [OF pinv] t r by (simp add: phase_def)
  have rq: "waitingSend_read ?p \<noteq> []" using phase_of_send(3) [OF ph] w by simp
  then obtain pk rest where q: "waitingSend_read ?p = pk # rest" by (cases "waitingSend_read ?p") auto
  then have pk: "\<not> pk_freed pk" "mem (pk_addr pk)" "pk_read pk" "\<not> pk_broadcast pk"
    using pe_coreD(6) [OF core] r by (auto simp: packets_ok_def)
  have f: "operateNextEvent ?p = None" "i \<notin> b"
    using phase_of_send(1,2) [OF ph] by auto
  have iss: "broadcast_issuer s \<noteq> Some i"
    using globalsD(8) [OF config_invD(2) [OF inv i(1)]] r by (cases "i = 0") (auto split: if_splits)
  define p1 where "p1 = clear_retry t (?p\<lparr>scheduleReqEvent := None, stats := (stats ?p)\<lparr>numPackets := numPackets (stats ?p) + 1\<rparr>,
     waitingSend_read := rest, waitingResp_read := AList.update (pk_req pk) t (waitingResp_read ?p)\<rparr>)"
  define p' where "p' = (if rest = [] then p1 else p1\<lparr>scheduleReqEvent := Some (t + 1)\<rparr>)"
  let ?s' = "s\<lparr>curTick := t, pes := (pes s)[i := p']\<rparr>"
  have "scheduleReq mem True i (put_pe i (?p\<lparr>scheduleReqEvent := None\<rparr>) (s\<lparr>curTick := t\<rparr>)) = (if rest \<noteq> [] \<longrightarrow> t \<le> t + 1 then Inr ?s' else Inl past)"
    using i(1) pk f q w iss
    by (simp add: scheduleReq_def pe_access Let_def waitingSend_def sent_packet_def record_request_def
        put_waitingSend_def schedule_send_def end_broadcast_def p1_def p'_def)
  then have run: "perform mem (Send i True) (s, b) = (if rest \<noteq> [] \<longrightarrow> t \<le> t + 1 then Inr (?s', b) else Inl past)"
    using i(1) t by (simp add: get_pe_def vec_at_def)
  have "config_inv mem B K (?s', b)"
  proof (rule config_inv_local [OF inv i(1)])
    have "pe_core mem B K i (i \<in> set (rdy_sync_list s)) (i \<in> alive_set s) t p'"
    proof (rule pe_core_update [OF core])
      show "resp_ok t p'"
        using resp_ok_mono [OF pe_coreD(5) [OF core] i(2)] set_update_subset [of "pk_req pk" t "waitingResp_read ?p"]
        by (auto simp: resp_ok_def p'_def p1_def)
      show "packets_ok mem (i \<in> set (rdy_sync_list s)) p'"
        using pe_coreD(6) [OF core] q by (simp add: packets_ok_def p'_def p1_def)
      show "i \<notin> alive_set s \<longrightarrow> retired_ok p'"
        using pe_coreD(7) [OF core] rq by (auto simp: retired_ok_def)
    qed (use pe_coreD(3,4) [OF core] in \<open>simp_all add: p'_def p1_def\<close>)
    moreover have "phase i (i \<in> set (rdy_sync_list s)) (sync_full s) (i \<in> b) (i \<in> alive_set s) p'"
      using phase_of_send(11) [OF ph, where rr' = True] phase_of_send(12) [OF ph] f rq w r
      by (simp add: phase_def p'_def p1_def no_more_traffic_def)
    ultimately show "pe_inv mem B K i (i \<in> set (rdy_sync_list s)) (sync_full s) (i \<in> b) (i \<in> alive_set s) (curTick ?s') p'"
      by (simp add: pe_inv_def)
  qed (use i(2) in \<open>simp_all add: p'_def p1_def getCoordinate_def\<close>)
  with run show ?thesis by (rule unless_lateI) (simp add: no_wrap_next t)
qed

text \<open>An accepted broadcast: every listed element waits for the response.\<close>

definition mark :: "req_ptr \<Rightarrow> tick \<Rightarrow> pe \<Rightarrow> pe" where
  "mark r t p = p\<lparr>waitingResp_read := AList.update r t (waitingResp_read p)\<rparr>"

lemma mark_each:
  assumes "distinct (map snd l)" and "\<forall>j \<in> snd ` set l. j < length (pes s)"
  shows "foldE (\<lambda>(_, j) s. bindE (get_pe j s) (\<lambda>q.
            Inr (put_pe j (q\<lparr>waitingResp_read := AList.update r (curTick s) (waitingResp_read q)\<rparr>) s))) l s =
     Inr (s\<lparr>pes := map (\<lambda>j. if j \<in> snd ` set l then mark r (curTick s) (pes s ! j) else pes s ! j) [0..<length (pes s)]\<rparr>)"
    (is "foldE ?F l s = _")
  using assms
proof (induction l arbitrary: s)
  case Nil
  then show ?case by (simp add: map_nth)
next
  case (Cons e l)
  obtain k j where e: "e = (k, j)" by (cases e)
  have j: "j < length (pes s)" "j \<notin> snd ` set l" using Cons.prems by (auto simp: e)
  let ?s = "s\<lparr>pes := (pes s)[j := mark r (curTick s) (pes s ! j)]\<rparr>"
  let ?upd = "\<lambda>l s. map (\<lambda>n. if n \<in> snd ` set l then mark r (curTick s) (pes s ! n) else pes s ! n) [0..<length (pes s)]"
  have eq: "?upd l ?s = ?upd (e # l) s"
    using j by (auto simp: e nth_list_update intro!: nth_equalityI)
  have "foldE ?F (e # l) s = foldE ?F l ?s" using j(1) by (simp add: e pe_access mark_def)
  also have "\<dots> = Inr (?s\<lparr>pes := ?upd l ?s\<rparr>)"
    using Cons.IH [of ?s] Cons.prems by simp
  also have "\<dots> = Inr (s\<lparr>pes := ?upd (e # l) s\<rparr>)" unfolding eq by simp
  finally show ?case .
qed

lemma mark_all:
  assumes g: "globals_ok B K s" and all: "alive_set s = {..<length (pes s)}"
    and s': "pe_list s' = pe_list s" "length (pes s') = length (pes s)"
  shows "record_request i pkt s' =
     (if pk_broadcast pkt then Inr (s'\<lparr>pes := map (mark (pk_req pkt) (curTick s')) (pes s')\<rparr>) else record_request i pkt s')"
proof -
  have "map (\<lambda>j. if j \<in> snd ` set (pe_list s') then mark r t (pes s' ! j) else pes s' ! j) [0..<length (pes s')] =
        map (mark r t) (pes s')" for r t
    using all s' by (auto intro!: nth_equalityI)
  then show ?thesis
    using mark_each [of "pe_list s'" s' "pk_req pkt"] globalsD(5) [OF g] all s'
    by (auto simp: record_request_def)
qed

lemma globals_update:
  assumes g: "globals_ok B K s"
    and s': "pe_list s' = pe_list s" "map getCoordinate (pes s') = map getCoordinate (pes s)" "sim_exit s' = sim_exit s"
    and rdy: "distinct (rdy_sync_list s')" "set (rdy_sync_list s') \<subseteq> alive_set s"
      "broadcast_issuer s' = (if 0 \<in> set (rdy_sync_list s') then Some 0 else None)"
    and K: "alive_set s \<noteq> {..<length (pes s)} \<longrightarrow> K' = B"
  shows "globals_ok B K' s'"
proof -
  have len: "length (pes s') = length (pes s)" using s'(2) by (metis length_map)
  then have coord: "getCoordinate (pes s' ! j) = getCoordinate (pes s ! j)" if "j < length (pes s)" for j
    using s'(2) that by (metis nth_map)
  have ent: "\<forall>(k, j) \<in> set (pe_list s). j < length (pes s) \<and> getCoordinate (pes s' ! j) = k"
    using globals_entry [OF g] coord len by (auto split: prod.splits)
  have ne: "pes s' \<noteq> []" using globalsD(11) [OF g] len by auto
  show ?thesis
    unfolding globals_ok_def s' len
    by (intro conjI ne ent globalsD(4,5,6,10) [OF g] rdy K)
qed

lemma mark_simps [simp]:
  "waitingSend_read (mark r t p) = waitingSend_read p" "waitingSend_write (mark r t p) = waitingSend_write p"
  "waitingResp_write (mark r t p) = waitingResp_write p" "waitingResp_read (mark r t p) \<noteq> []"
  "operateNextEvent (mark r t p) = operateNextEvent p" "scheduleReqEvent (mark r t p) = scheduleReqEvent p"
  "traffic_list (mark r t p) = traffic_list p" "cur_traffic (mark r t p) = cur_traffic p"
  "cache_line_size (mark r t p) = cache_line_size p" "getCoordinate (mark r t p) = getCoordinate p"
  by (simp_all add: mark_def getCoordinate_def)

lemma mark_resp:
  assumes "resp_ok now p" and "now \<le> t"
  shows "resp_ok t (mark r t p)"
  using resp_ok_mono [OF assms] set_update_subset [of r t "waitingResp_read p"]
  by (auto simp: resp_ok_def mark_def)

lemma phase_of_mark:
  assumes "phase_of z True full blk alive oper send rq wq rr rw todo"
  shows "phase_of z True full blk alive oper send rq wq rr' rw todo"
    and "\<not> z \<Longrightarrow> phase_of z False full' blk True oper send rq wq True rw todo"
    and "\<not> z \<Longrightarrow> \<not> rq" "\<not> wq"
  using assms unfolding phase_of_def by argo+

lemma mark_keeps:
  assumes p: "pe_inv mem B K j True full blk True now p" and "now \<le> t"
  shows "pe_inv mem B K j True full blk True t (mark r t p)"
  unfolding pe_inv_def
proof
  note c = pe_coreD [OF pe_invD(1) [OF p]]
  show "pe_core mem B K j True True t (mark r t p)"
    by (rule pe_core_update [OF pe_invD(1) [OF p]])
      (use c mark_resp [OF c(5) assms(2)] in \<open>simp_all add: packets_ok_def\<close>)
  show "phase j True full blk True (mark r t p)"
    using phase_of_mark(1) [OF pe_invD(2) [OF p, unfolded phase_def], of True]
    by (simp add: phase_def no_more_traffic_def)
qed

lemma mark_releases:
  assumes p: "pe_inv mem B K j True full blk True now p" and "now \<le> t" and j: "j \<noteq> 0"
  shows "pe_inv mem B (K + 1) j False full' blk True t (mark r t p)"
  unfolding pe_inv_def
proof
  note c = pe_coreD [OF pe_invD(1) [OF p]] and ph = pe_invD(2) [OF p, unfolded phase_def]
  show "pe_core mem B (K + 1) j False True t (mark r t p)"
    by (rule pe_core_update [OF pe_invD(1) [OF p]])
      (use c mark_resp [OF c(5) assms(2)] phase_of_mark(3,4) [OF ph] j in \<open>simp_all add: packets_ok_def\<close>)
  show "phase j False full' blk True (mark r t p)"
    using phase_of_mark(2) [OF ph] j by (simp add: phase_def no_more_traffic_def)
qed

lemma barrier_situation:
  assumes inv: "config_inv mem B K (s, b)" and i: "i < length (pes s)" and r: "i \<in> set (rdy_sync_list s)"
  shows "K < B" "alive_set s = {..<length (pes s)}"
    and "sync_full s \<Longrightarrow> set (rdy_sync_list s) = {..<length (pes s)}"
proof -
  have "pe_core mem B K i True (i \<in> alive_set s) (curTick s) (pes s ! i)"
    using pe_invD(1) [OF config_invD(1) [OF inv i]] r by simp
  then show "K < B" by (rule waiting_bound)
  then show al: "alive_set s = {..<length (pes s)}"
    using globalsD(9) [OF config_invD(2) [OF inv i]] by auto
  show "set (rdy_sync_list s) = {..<length (pes s)}" if "sync_full s"
    using that full_alive [OF config_invD(2) [OF inv i]] al by simp
qed

definition broadcast_sender :: "pe_packet list \<Rightarrow> req_ptr \<Rightarrow> tick \<Rightarrow> pe \<Rightarrow> pe" where
  "broadcast_sender rest r t p =
     (clear_retry t (mark r t (p\<lparr>stats := (stats p)\<lparr>numPackets := numPackets (stats p) + 1\<rparr>, waitingSend_read := rest\<rparr>)))
       \<lparr>scheduleReqEvent := (if rest = [] then None else Some (t + 1))\<rparr>"

definition after_broadcast :: "pe_packet list \<Rightarrow> req_ptr \<Rightarrow> tick \<Rightarrow> pe_ptr \<Rightarrow> pe_system \<Rightarrow> pe_system" where
  "after_broadcast rest r t i s =
     (let s = s\<lparr>curTick := t, pes := (map (mark r t) (pes s))[i := broadcast_sender rest r t (pes s ! i)]\<rparr>
      in if rest = [] then s\<lparr>broadcast_issuer := None, rdy_sync_list := []\<rparr> else s)"

lemma clear_retry_event: "clear_retry t (p\<lparr>scheduleReqEvent := x\<rparr>) = (clear_retry t p)\<lparr>scheduleReqEvent := x\<rparr>"
  by (simp add: clear_retry_def)

lemma no_event: "scheduleReqEvent p = None \<Longrightarrow> p\<lparr>scheduleReqEvent := None\<rparr> = p"
  by (cases p) simp

lemma sent_broadcast:
  assumes g: "globals_ok B K s0" and all: "alive_set s0 = {..<length (pes s0)}"
    and s: "pe_list s = pe_list s0" "length (pes s) = length (pes s0)"
    and i: "i < length (pes s)" and p: "pes s ! i = p" "scheduleReqEvent p = None" "waitingSend_write p = []"
      "waitingSend_read p = pk # rest"
    and pk: "pk_read pk" "pk_broadcast pk" and iss: "broadcast_issuer s = Some i"
  shows "sent_packet i True pk s =
     (if rest \<noteq> [] \<longrightarrow> curTick s \<le> curTick s + 1 then Inr (let s = s\<lparr>pes := (map (mark (pk_req pk) (curTick s)) (pes s))[i :=
            (clear_retry (curTick s) (mark (pk_req pk) (curTick s) (p\<lparr>waitingSend_read := rest\<rparr>)))
              \<lparr>scheduleReqEvent := (if rest = [] then None else Some (curTick s + 1))\<rparr>]\<rparr>
      in if rest = [] then s\<lparr>broadcast_issuer := None, rdy_sync_list := []\<rparr> else s) else Inl past)"
proof -
  let ?m = "mark (pk_req pk) (curTick s)" and ?q = "p\<lparr>waitingSend_read := rest\<rparr>"
  have rec: "record_request i pk (s\<lparr>pes := (pes s)[i := ?q]\<rparr>) = Inr (s\<lparr>pes := (map ?m (pes s))[i := ?m ?q]\<rparr>)"
    using mark_all [OF g all, of "s\<lparr>pes := (pes s)[i := ?q]\<rparr>" i pk] s pk(2) by (simp add: map_update)
  show ?thesis
    using i p iss rec
    by (cases "rest = []")
      (simp_all add: pe_access waitingSend_def sent_packet_def put_waitingSend_def schedule_send_def end_broadcast_def no_event)
qed

lemma accept_broadcast_run:
  assumes g: "globals_ok B K s" and all: "alive_set s = {..<length (pes s)}" and i: "i < length (pes s)"
    and p: "scheduleReqEvent (pes s ! i) = Some t" "waitingSend_write (pes s ! i) = []" "waitingSend_read (pes s ! i) = pk # rest"
    and pk: "\<not> pk_freed pk" "mem (pk_addr pk)" "pk_read pk" "pk_broadcast pk"
    and iss: "broadcast_issuer s = Some i"
  shows "perform mem (Send i True) (s, b) = (if rest \<noteq> [] \<longrightarrow> t \<le> t + 1 then Inr (after_broadcast rest (pk_req pk) t i s, b) else Inl past)"
proof -
  let ?p = "pes s ! i"
  let ?s1 = "s\<lparr>curTick := t, pes := (pes s)[i := ?p\<lparr>scheduleReqEvent := None,
     stats := (stats ?p)\<lparr>numPackets := numPackets (stats ?p) + 1\<rparr>\<rparr>]\<rparr>"
  have sent: "sent_packet i True pk ?s1 = (if rest \<noteq> [] \<longrightarrow> t \<le> t + 1 then Inr (after_broadcast rest (pk_req pk) t i s) else Inl past)"
    using i p pk(3,4) iss
    by (subst sent_broadcast [OF g all _ _ _ refl, where rest = rest])
      (simp_all add: after_broadcast_def broadcast_sender_def map_update clear_retry_def mark_def Let_def)
  have "scheduleReq mem True i (put_pe i (?p\<lparr>scheduleReqEvent := None\<rparr>) (s\<lparr>curTick := t\<rparr>)) = sent_packet i True pk ?s1"
    using i p pk by (simp add: scheduleReq_def pe_access Let_def waitingSend_def)
  then show ?thesis using i p(1) sent by (simp add: get_pe_def vec_at_def)
qed

lemma broadcast_sender_simps [simp]:
  "waitingSend_read (broadcast_sender rest r t p) = rest"
  "waitingSend_write (broadcast_sender rest r t p) = waitingSend_write p"
  "waitingResp_read (broadcast_sender rest r t p) = AList.update r t (waitingResp_read p)"
  "waitingResp_write (broadcast_sender rest r t p) = waitingResp_write p"
  "operateNextEvent (broadcast_sender rest r t p) = operateNextEvent p"
  "scheduleReqEvent (broadcast_sender rest r t p) = (if rest = [] then None else Some (t + 1))"
  "traffic_list (broadcast_sender rest r t p) = traffic_list p"
  "cur_traffic (broadcast_sender rest r t p) = cur_traffic p"
  "cache_line_size (broadcast_sender rest r t p) = cache_line_size p"
  "getCoordinate (broadcast_sender rest r t p) = getCoordinate p"
  by (simp_all add: broadcast_sender_def mark_def getCoordinate_def)

lemma phase_of_sender:
  assumes "phase_of z True full blk alive oper True rq wq rr rw todo"
  shows "phase_of z True full blk alive oper True True wq rr' rw todo"
    and "phase_of z False full' blk alive oper False False wq True rw todo"
  using assms unfolding phase_of_def if_True if_False by blast+

lemma sender_inv:
  assumes p: "pe_inv mem B K 0 True full blk True now p" and t: "now \<le> t"
    and q: "waitingSend_read p = pk # rest" and ev: "scheduleReqEvent p = Some u"
  shows "rest \<noteq> [] \<Longrightarrow> pe_inv mem B K 0 True full blk True t (broadcast_sender rest r t p)"
    and "rest = [] \<Longrightarrow> pe_inv mem B (K + 1) 0 False full' blk True t (broadcast_sender rest r t p)"
proof -
  note c = pe_coreD [OF pe_invD(1) [OF p]] and ph = pe_invD(2) [OF p, unfolded phase_def]
  have ph: "phase_of True True full blk True (operateNextEvent p \<noteq> None) True (waitingSend_read p \<noteq> [])
        (waitingSend_write p \<noteq> []) (waitingResp_read p \<noteq> []) (waitingResp_write p \<noteq> []) (\<not> no_more_traffic p)"
    using ph ev by simp
  have "resp_ok t (broadcast_sender rest r t p)"
    using resp_ok_mono [OF c(5) t] set_update_subset [of r t "waitingResp_read p"] by (auto simp: resp_ok_def)
  moreover have "waitingSend_write p = []" using phase_of_send(5) [OF ph] by simp
  moreover have "\<forall>pk \<in> set rest. \<not> pk_freed pk \<and> mem (pk_addr pk) \<and> pk_read pk \<and> pk_broadcast pk"
    using c(6) q by (simp add: packets_ok_def)
  ultimately have core: "pe_core mem B K' 0 inr' True t (broadcast_sender rest r t p)"
    if "K' + (if inr' then 1 else 0) = K + 1" "rest \<noteq> [] \<longrightarrow> inr'" for K' inr'
    using that c by (intro pe_core_update [OF pe_invD(1) [OF p]]) (auto simp: packets_ok_def)
  show "pe_inv mem B K 0 True full blk True t (broadcast_sender rest r t p)" if "rest \<noteq> []"
    unfolding pe_inv_def using core [of K True] phase_of_sender(1) [OF ph] that
    by (simp add: phase_def no_more_traffic_def)
  show "pe_inv mem B (K + 1) 0 False full' blk True t (broadcast_sender rest r t p)" if "rest = []"
    unfolding pe_inv_def using core [of "K + 1" False] phase_of_sender(2) [OF ph] that
    by (simp add: phase_def no_more_traffic_def)
qed

lemma accept_broadcast_ok:
  assumes inv: "config_inv mem B K (s, b)" and en: "enabled (Send i True) (s, b)" and r: "i \<in> set (rdy_sync_list s)"
  shows "unless_late (tick_of (Send i True) (s, b)) (perform mem (Send i True) (s, b)) (\<lambda>c. \<exists>K'. config_inv mem B K' c)"
proof -
  let ?p = "pes s ! i"
  obtain t where i: "i < length (pes s)" "curTick s \<le> t" and t: "scheduleReqEvent ?p = Some t"
    using en by (auto simp: due_iff)
  note bar = barrier_situation [OF inv i(1) r] and g = config_invD(2) [OF inv i(1)]
  have ph: "phase_of (i = 0) True (sync_full s) (i \<in> b) (i \<in> alive_set s)
        (operateNextEvent ?p \<noteq> None) True (waitingSend_read ?p \<noteq> [])
        (waitingSend_write ?p \<noteq> []) (waitingResp_read ?p \<noteq> []) (waitingResp_write ?p \<noteq> []) (\<not> no_more_traffic ?p)"
    using pe_invD(2) [OF config_invD(1) [OF inv i(1)]] t r by (simp add: phase_def)
  have f: "i = 0" "sync_full s" "waitingSend_read ?p \<noteq> []" "waitingSend_write ?p = []"
    using phase_of_send(5) [OF ph] by auto
  obtain pk rest where q: "waitingSend_read ?p = pk # rest" using f(3) by (cases "waitingSend_read ?p") auto
  then have pk: "\<not> pk_freed pk" "mem (pk_addr pk)" "pk_read pk" "pk_broadcast pk"
    using pe_coreD(6) [OF pe_invD(1) [OF config_invD(1) [OF inv i(1)]]] r by (auto simp: packets_ok_def)
  let ?s' = "after_broadcast rest (pk_req pk) t i s"
  have run: "perform mem (Send i True) (s, b) = (if rest \<noteq> [] \<longrightarrow> t \<le> t + 1 then Inr (?s', b) else Inl past)"
    using accept_broadcast_run [OF g bar(2) i(1) t f(4) q pk(1), of mem b] pk globalsD(8) [OF g] r f(1) by simp
  have all: "pe_inv mem B K j True True (j \<in> b) True (curTick s) (pes s ! j)" if "j < length (pes s)" for j
    using config_invD(1) [OF inv that] bar(2,3) f(2) that by simp
  define K' where "K' = (if rest = [] then K + 1 else K)"
  have pes': "length (pes ?s') = length (pes s)" "map getCoordinate (pes ?s') = map getCoordinate (pes s)"
    using i(1) by (auto simp: after_broadcast_def Let_def map_update o_def nth_list_update intro!: nth_equalityI)
  have at: "pes ?s' ! j = (if j = 0 then broadcast_sender rest (pk_req pk) t (pes s ! j) else mark (pk_req pk) t (pes s ! j))"
    if "j < length (pes s)" for j
    using that i(1) f(1) by (auto simp: after_broadcast_def Let_def nth_list_update)
  have "config_inv mem B K' (?s', b)"
    unfolding config_inv_def prod.case
  proof (intro conjI allI impI)
    show "globals_ok B K' ?s'"
      using pes' globalsD(2,7,8) [OF g] bar(2)
      by (intro globals_update [OF g]) (auto simp: after_broadcast_def Let_def)
    fix j assume j: "j < length (pes ?s')"
    then have j: "j < length (pes s)" using pes' by simp
    have al: "alive_set ?s' = {..<length (pes s)}" using bar(2) by (simp add: after_broadcast_def Let_def)
    show "pe_inv mem B K' j (j \<in> set (rdy_sync_list ?s')) (sync_full ?s') (j \<in> b) (j \<in> alive_set ?s') (curTick ?s') (pes ?s' ! j)"
    proof (cases "rest = []")
      case True
      have "pe_inv mem B (K + 1) j False (sync_full ?s') (j \<in> b) True t (pes ?s' ! j)"
        using mark_releases [OF all [OF j] i(2)] sender_inv(2) [OF all [of 0] i(2)] q t f(1) at [OF j] i(1) True
        by (cases "j = 0") auto
      then show ?thesis unfolding al using True j by (simp add: after_broadcast_def Let_def K'_def)
    next
      case False
      have "pe_inv mem B K j True True (j \<in> b) True t (pes ?s' ! j)"
        using mark_keeps [OF all [OF j] i(2)] sender_inv(1) [OF all [of 0] i(2)] q t f(1) at [OF j] i(1) False
        by (cases "j = 0") auto
      then show ?thesis unfolding al using False j bar(3) f(2) by (simp add: after_broadcast_def Let_def K'_def)
    qed
  qed
  then have "\<exists>K'. config_inv mem B K' (?s', b)" by blast
  with run show ?thesis by (rule unless_lateI) (simp add: no_wrap_next t)
qed

section \<open>Operating\<close>

lemma phase_of_operate:
  assumes "phase_of z inr full blk alive True send rq wq rr rw todo"
  shows "\<not> inr" "\<not> send" "\<not> blk" "\<not> rq" "\<not> wq" "\<not> rr"
    "\<not> todo \<Longrightarrow> phase_of z inr full blk False False send rq wq rr rw todo"
    "phase_of z inr full blk alive True send rq wq rr rw todo'"
    "phase_of z inr full blk alive False True True wq rr rw todo'"
    "phase_of z inr full blk alive False True rq True rr rw todo'"
    "phase_of z True False blk alive False send z wq rr rw todo'"
  using assms unfolding phase_of_def by (auto split: if_splits)

lemma operate_situation:
  assumes inv: "config_inv mem B K (s, b)" and i: "i < length (pes s)" and op: "operateNextEvent (pes s ! i) = Some t"
  shows "i \<notin> set (rdy_sync_list s)" "scheduleReqEvent (pes s ! i) = None" "i \<notin> b"
    "waitingSend_read (pes s ! i) = []" "waitingSend_write (pes s ! i) = []" "waitingResp_read (pes s ! i) = []"
    and "phase_of (i = 0) False (sync_full s) False (i \<in> alive_set s) True False False False False
      (waitingResp_write (pes s ! i) \<noteq> []) (\<not> no_more_traffic (pes s ! i))"
    and "pe_core mem B K i False (i \<in> alive_set s) (curTick s) (pes s ! i)"
proof -
  note pinv = config_invD(1) [OF inv i]
  let ?p = "pes s ! i"
  have ph: "phase_of (i = 0) (i \<in> set (rdy_sync_list s)) (sync_full s) (i \<in> b) (i \<in> alive_set s)
        True (scheduleReqEvent ?p \<noteq> None) (waitingSend_read ?p \<noteq> [])
        (waitingSend_write ?p \<noteq> []) (waitingResp_read ?p \<noteq> []) (waitingResp_write ?p \<noteq> []) (\<not> no_more_traffic ?p)"
    using pe_invD(2) [OF pinv] op by (simp add: phase_def)
  show f: "i \<notin> set (rdy_sync_list s)" "scheduleReqEvent ?p = None" "i \<notin> b"
    "waitingSend_read ?p = []" "waitingSend_write ?p = []" "waitingResp_read ?p = []"
    using phase_of_operate(1-6) [OF ph] by simp_all
  show "phase_of (i = 0) False (sync_full s) False (i \<in> alive_set s) True False False False False
      (waitingResp_write ?p \<noteq> []) (\<not> no_more_traffic ?p)"
    using ph by (simp add: f)
  show "pe_core mem B K i False (i \<in> alive_set s) (curTick s) ?p"
    using pe_invD(1) [OF pinv] by (simp add: f)
qed

lemma operate_end_ok:
  assumes inv: "config_inv mem B K (s, b)" and en: "enabled (Operate i) (s, b)" and nm: "no_more_traffic (pes s ! i)"
  shows "unless_late (tick_of (Operate i) (s, b)) (perform mem (Operate i) (s, b)) (config_inv mem B K)"
proof -
  let ?p = "pes s ! i"
  obtain t where i: "i < length (pes s)" "curTick s \<le> t" and t: "operateNextEvent ?p = Some t"
    using en by (auto simp: due_iff)
  note f = operate_situation [OF inv i(1) t]
  define p' where "p' = ?p\<lparr>operateNextEvent := None\<rparr>"
  let ?s' = "s\<lparr>curTick := t, pes := (pes s)[i := p']\<rparr>"
  have nm': "no_more_traffic p'" using nm by (simp add: p'_def no_more_traffic_def)
  have run: "operateTraffic i (put_pe i (?p\<lparr>operateNextEvent := None\<rparr>) (s\<lparr>curTick := t\<rparr>)) =
      (if all_done p' ?s' \<and> no_more_traffic p' then Inr (retire p' ?s') else Inr ?s')"
    using i(1) nm' by (simp add: operateTraffic_def pe_access p'_def)
  have "pe_core mem B K i (i \<in> set (rdy_sync_list s)) (i \<in> alive_set s) t p'"
    using f(1) by (simp add: p'_def) (rule pe_core_events [OF f(8) i(2)]; simp)
  moreover have "phase i (i \<in> set (rdy_sync_list s)) (sync_full s) (i \<in> b) False p'"
    using phase_of_operate(7) [OF f(7)] nm f(1-6) by (simp add: phase_def p'_def no_more_traffic_def)
  ultimately have "config_inv mem B K (if all_done p' ?s' \<and> no_more_traffic p' then retire p' ?s' else ?s', b)"
    by (intro settle_ok [OF inv i(1)]) (use i(2) in \<open>simp_all add: p'_def getCoordinate_def\<close>)
  moreover have "perform mem (Operate i) (s, b) =
      bindE (if all_done p' ?s' \<and> no_more_traffic p' then Inr (retire p' ?s') else Inr ?s') (\<lambda>s. Inr (s, b))"
    unfolding run [symmetric] using i(1) t by (simp add: get_pe_def vec_at_def)
  ultimately show ?thesis by (intro unless_late_ok) (simp only: retiring_result)
qed

text \<open>The current record, for an element that still has one.\<close>

lemma next_record:
  assumes core: "pe_core mem B K i inr alive now p" and more: "\<not> no_more_traffic p"
  defines "t \<equiv> traffic_list p ! unat (cur_traffic p)"
  shows "alive" "wf_record i t" "transfer t \<Longrightarrow> lines_ok mem p t" "cache_line_size p \<noteq> 0"
    "unat (cur_traffic p + 1) = unat (cur_traffic p) + 1"
    "unat (cur_traffic p + 1) \<le> length (traffic_list p)"
    "bars p (unat (cur_traffic p + 1)) = bars p (unat (cur_traffic p)) + (if pt_barrier t then 1 else 0)"
    "pt_barrier t \<Longrightarrow> \<not> inr \<Longrightarrow> K < B"
proof -
  note c = pe_coreD [OF core]
  show "alive" using c(7) more by (auto simp: retired_ok_def)
  have lt: "unat (cur_traffic p) < length (traffic_list p)" using more by (simp add: no_more_traffic_def)
  then have "t \<in> set (traffic_list p)" by (simp add: t_def)
  then show "wf_record i t" "transfer t \<Longrightarrow> lines_ok mem p t" "cache_line_size p \<noteq> 0"
    using c(1) by (auto simp: traffic_ok_def)
  have len: "length (traffic_list p) < 2 ^ 32" using c(1) by (simp add: traffic_ok_def)
  show S: "unat (cur_traffic p + 1) = unat (cur_traffic p) + 1"
    using lt len by (simp add: unat_word_ariths)
  show le: "unat (cur_traffic p + 1) \<le> length (traffic_list p)" using S lt by simp
  show B: "bars p (unat (cur_traffic p + 1)) = bars p (unat (cur_traffic p)) + (if pt_barrier t then 1 else 0)"
    using S lt by (simp add: bars_def t_def take_Suc_conv_app_nth)
  show "K < B" if "pt_barrier t" "\<not> inr"
    using bars_mono [OF le, of p] B c(2,3) that by simp
qed

lemma advance_core:
  assumes core: "pe_core mem B K i False alive now p" and more: "\<not> no_more_traffic p" and now: "now \<le> now'"
    and eq: "cache_line_size p' = cache_line_size p" "traffic_list p' = traffic_list p" "cur_traffic p' = cur_traffic p + 1"
      "waitingResp_read p' = waitingResp_read p" "waitingResp_write p' = waitingResp_write p"
    and inr: "inr' = pt_barrier (traffic_list p ! unat (cur_traffic p))"
    and pk: "packets_ok mem inr' p'"
  shows "pe_core mem B K i inr' alive now' p'"
proof (rule pe_core_update [OF core eq(1,2)])
  note n = next_record [OF core more] and c = pe_coreD [OF core]
  show "bars p (unat (cur_traffic p')) = K + (if inr' then 1 else 0)"
    using n(7) c(3) inr by (simp add: eq)
  show "unat (cur_traffic p') \<le> length (traffic_list p)" using n(6) by (simp add: eq)
  show "resp_ok now' p'" using resp_ok_mono [OF c(5) now] by (simp add: resp_ok_def eq)
  show "packets_ok mem inr' p'" by (rule pk)
  show "\<not> alive \<longrightarrow> retired_ok p'" using n(1) by simp
qed

lemma operate_compute_ok:
  assumes inv: "config_inv mem B K (s, b)" and en: "enabled (Operate i) (s, b)" and more: "\<not> no_more_traffic (pes s ! i)"
    and ty: "pt_type (traffic_list (pes s ! i) ! unat (cur_traffic (pes s ! i))) = pt_COMPUTE"
  shows "unless_late (tick_of (Operate i) (s, b)) (perform mem (Operate i) (s, b)) (config_inv mem B K)"
proof -
  let ?p = "pes s ! i"
  obtain t where i: "i < length (pes s)" "curTick s \<le> t" and t: "operateNextEvent ?p = Some t"
    using en by (auto simp: due_iff)
  note f = operate_situation [OF inv i(1) t]
  define p' where "p' = ?p\<lparr>operateNextEvent := Some (t + getComputeTime), cur_traffic := cur_traffic ?p + 1\<rparr>"
  let ?s' = "s\<lparr>curTick := t, pes := (pes s)[i := p']\<rparr>"
  have "\<not> no_more_traffic (?p\<lparr>operateNextEvent := None\<rparr>)" using more by (simp add: no_more_traffic_def)
  then have run: "perform mem (Operate i) (s, b) = (if t \<le> t + getComputeTime then Inr (?s', b) else Inl past)"
    using i(1) t ty by (simp add: operateTraffic_def pe_access p'_def schedule_operate_def)
  have "config_inv mem B K (?s', b)"
  proof (rule config_inv_local [OF inv i(1)])
    have "pe_core mem B K i False (i \<in> alive_set s) t p'"
      by (rule advance_core [OF f(8) more i(2)])
        (use ty f(4,5) in \<open>simp_all add: p'_def pt_barrier_def transfer_def packets_ok_def\<close>)
    moreover have "phase i False (sync_full s) (i \<in> b) (i \<in> alive_set s) p'"
      using phase_of_operate(8) [OF f(7)] f by (simp add: phase_def p'_def)
    ultimately show "pe_inv mem B K i (i \<in> set (rdy_sync_list s)) (sync_full s) (i \<in> b) (i \<in> alive_set s) (curTick ?s') p'"
      using f(1) by (simp add: pe_inv_def)
  qed (use i(2) in \<open>simp_all add: p'_def getCoordinate_def\<close>)
  with run show ?thesis by (rule unless_lateI) (simp add: no_wrap_def t)
qed

lemma lines_event [simp]:
  "num_lines (p\<lparr>operateNextEvent := x\<rparr>) t = num_lines p t"
  "transfer_base (p\<lparr>operateNextEvent := x\<rparr>) t = transfer_base p t"
  by (simp_all add: num_lines_def transfer_base_def transfer_size_def Let_def)

lemma lines_ok_event [simp]: "lines_ok mem (p\<lparr>operateNextEvent := x\<rparr>) t = lines_ok mem p t"
  by (simp add: lines_ok_def)

text \<open>A transfer that is no broadcast: its packets are queued, and the sending event is scheduled.\<close>

lemma line_packets_ok:
  assumes "lines_ok mem p t"
  shows "\<forall>pk \<in> set (map (line_packet p t r) [0..<num_lines p t]).
     \<not> pk_freed pk \<and> mem (pk_addr pk) \<and> pk_read pk = (pt_type t = pt_READ) \<and> pk_broadcast pk = (pt_response t = pt_BROADCAST)"
    and "map (line_packet p t r) [0..<num_lines p t] \<noteq> []" and "num_lines p t < 2 ^ 31"
  using assms by (auto simp: lines_ok_def line_packet_def)

lemma operate_transfer_ok:
  assumes inv: "config_inv mem B K (s, b)" and en: "enabled (Operate i) (s, b)" and more: "\<not> no_more_traffic (pes s ! i)"
    and ty: "transfer (traffic_list (pes s ! i) ! unat (cur_traffic (pes s ! i)))"
      "pt_response (traffic_list (pes s ! i) ! unat (cur_traffic (pes s ! i))) \<noteq> pt_BROADCAST"
  shows "unless_late (tick_of (Operate i) (s, b)) (perform mem (Operate i) (s, b)) (config_inv mem B K)"
proof -
  let ?p = "pes s ! i"
  let ?t = "traffic_list ?p ! unat (cur_traffic ?p)" and ?q = "?p\<lparr>operateNextEvent := None\<rparr>"
  obtain t where i: "i < length (pes s)" "curTick s \<le> t" and t: "operateNextEvent ?p = Some t"
    using en by (auto simp: due_iff)
  note f = operate_situation [OF inv i(1) t] and n = next_record [OF operate_situation(8) [OF inv i(1) t] more]
  have lq: "lines_ok mem ?q ?t"
    using n(3) ty(1) by simp
  let ?pks = "map (line_packet ?q ?t (next_req s)) [0..<num_lines ?q ?t]"
  note lp = line_packets_ok(1,2) [OF lq, of "next_req s"] line_packets_ok(3) [OF lq]
  define p' where "p' = (queue_packets (pt_type ?t = pt_READ) ?pks ?q)
      \<lparr>scheduleReqEvent := Some (t + 1), cur_traffic := cur_traffic ?p + 1\<rparr>"
  let ?s0 = "s\<lparr>curTick := t, pes := (pes s)[i := ?q]\<rparr>"
  let ?s' = "s\<lparr>curTick := t, pes := (pes s)[i := p'], next_req := next_req s + num_lines ?q ?t\<rparr>"
  have iss: "issue_packets i ?t ?s0 =
     Inr (s\<lparr>curTick := t, pes := (pes s)[i := queue_packets (pt_type ?t = pt_READ) ?pks ?q],
             next_req := next_req s + num_lines ?q ?t\<rparr>)"
    using issue_packets_exact [of i ?s0 ?q ?t] i(1) n(4) lp(3) by simp
  have nm: "\<not> no_more_traffic ?q" using more by (simp add: no_more_traffic_def)
  have qs: "scheduleReqEvent (queue_packets r x ?q) = None" "cur_traffic (queue_packets r x ?q) = cur_traffic ?p" for r x
    using f(2) by (simp_all add: queue_packets_def)
  have "operateTraffic i ?s0 = (if t \<le> t + 1 then Inr ?s' else Inl past)"
    unfolding operateTraffic_def
    using i(1) nm ty iss qs by (simp add: pe_access Let_def transfer_def schedule_send_def p'_def)
  then have run: "perform mem (Operate i) (s, b) = (if t \<le> t + 1 then Inr (?s', b) else Inl past)"
    using i(1) t by (simp add: pe_access)
  have "config_inv mem B K (?s', b)"
  proof (rule config_inv_local [OF inv i(1)])
    have "packets_ok mem False p'"
      using lp(1) ty(2) f(4,5) by (cases "pt_type ?t = pt_READ") (simp_all add: packets_ok_def p'_def queue_packets_def)
    then have "pe_core mem B K i False (i \<in> alive_set s) t p'"
      by (rule advance_core [OF f(8) more i(2), rotated -1])
        (use ty in \<open>simp_all add: p'_def queue_packets_def pt_barrier_def transfer_def\<close>)
    moreover have "phase i False (sync_full s) (i \<in> b) (i \<in> alive_set s) p'"
      using phase_of_operate(9,10) [OF f(7)] f lp(2)
      by (cases "pt_type ?t = pt_READ") (simp_all add: phase_def p'_def queue_packets_def)
    ultimately show "pe_inv mem B K i (i \<in> set (rdy_sync_list s)) (sync_full s) (i \<in> b) (i \<in> alive_set s) (curTick ?s') p'"
      using f(1) by (simp add: pe_inv_def)
  qed (use i(2) in \<open>simp_all add: p'_def queue_packets_def getCoordinate_def\<close>)
  with run show ?thesis by (rule unless_lateI) (simp add: no_wrap_next t)
qed

text \<open>
  An element arrives at a barrier.  When it is the last one, the issuer of the broadcast, which
  is element 0, is woken.
\<close>

lemma phase_of_wake:
  assumes "phase_of z True False blk alive oper send rq wq rr rw todo"
  shows "phase_of z True True blk alive oper (z \<or> send) rq wq rr rw todo" "\<not> send"
  using assms unfolding phase_of_def by (auto split: if_splits)

lemma pe_inv_wake:
  assumes "pe_inv mem B K j True False blk alive now p"
  shows "pe_inv mem B K j True True blk alive now (if j = 0 then p\<lparr>scheduleReqEvent := Some u\<rparr> else p)"
  unfolding pe_inv_def
proof
  note c = pe_coreD [OF pe_invD(1) [OF assms]]
  show "pe_core mem B K j True alive now (if j = 0 then p\<lparr>scheduleReqEvent := Some u\<rparr> else p)"
    by (rule pe_core_events [OF pe_invD(1) [OF assms]]) auto
  show "phase j True True blk alive (if j = 0 then p\<lparr>scheduleReqEvent := Some u\<rparr> else p)"
    using phase_of_wake(1) [OF pe_invD(2) [OF assms, unfolded phase_def]]
    by (cases "j = 0") (simp_all add: phase_def no_more_traffic_def)
qed

lemma arrive_ok:
  assumes inv: "config_inv mem B K (s, b)" and i: "i < length (pes s)" "i \<notin> set (rdy_sync_list s)" and K: "K < B"
    and s': "pe_list s' = pe_list s" "sim_exit s' = sim_exit s" "rdy_sync_list s' = i # rdy_sync_list s"
      "broadcast_issuer s' = (if 0 \<in> set (rdy_sync_list s') then Some 0 else None)"
      "curTick s \<le> curTick s'" "length (pes s') = length (pes s)"
    and at: "\<And>j. j < length (pes s) \<Longrightarrow> pes s' ! j =
      (let q = (if j = i then p' else pes s ! j)
       in if sync_full s' then (if j = 0 then q\<lparr>scheduleReqEvent := Some u\<rparr> else q) else q)"
    and p': "pe_inv mem B K i True False (i \<in> b) True (curTick s') p'" "getCoordinate p' = getCoordinate (pes s ! i)"
  shows "config_inv mem B K (s', b)"
proof -
  note g = config_invD(2) [OF inv i(1)]
  have al: "alive_set s = {..<length (pes s)}" using globalsD(9) [OF g] K by auto
  have nf: "\<not> sync_full s" using full_alive [OF g] al i by auto
  have coord: "getCoordinate (pes s' ! j) = getCoordinate (pes s ! j)" if "j < length (pes s)" for j
    unfolding at [OF that] Let_def using p'(2) by (simp add: getCoordinate_def)
  have g': "globals_ok B K s'"
  proof (rule globals_update [OF g s'(1) _ s'(2)])
    show "map getCoordinate (pes s') = map getCoordinate (pes s)"
      using coord s'(6) by (simp add: list_eq_iff_nth_eq)
    show "distinct (rdy_sync_list s')" "set (rdy_sync_list s') \<subseteq> alive_set s"
      using globalsD(2,7) [OF g] i al by (auto simp: s'(3))
  qed (use s' al in auto)
  have "pe_inv mem B K j (j \<in> set (rdy_sync_list s')) (sync_full s') (j \<in> b) (j \<in> alive_set s') (curTick s') (pes s' ! j)"
    if j: "j < length (pes s)" for j
  proof -
    let ?q = "if j = i then p' else pes s ! j"
    have q: "pe_inv mem B K j (j \<in> set (rdy_sync_list s')) False (j \<in> b) True (curTick s') ?q"
      using p'(1) pe_inv_later [OF config_invD(1) [OF inv j] s'(5)] nf al j by (auto simp: s'(3))
    show ?thesis
    proof (cases "sync_full s'")
      case True
      then have "j \<in> set (rdy_sync_list s')" using full_alive [OF g'] al j by (simp add: s'(1))
      then show ?thesis
        using pe_inv_wake [of mem B K j "j \<in> b" True "curTick s'" ?q u] q at [OF j] True al j s'(1) by (simp add: Let_def)
    next
      case False
      then show ?thesis using q at [OF j] al j s'(1) by (simp add: Let_def)
    qed
  qed
  with g' show ?thesis using s'(6) by (simp add: config_inv_def)
qed

lemma operate_sync_ok:
  assumes inv: "config_inv mem B K (s, b)" and en: "enabled (Operate i) (s, b)" and more: "\<not> no_more_traffic (pes s ! i)"
    and ty: "pt_type (traffic_list (pes s ! i) ! unat (cur_traffic (pes s ! i))) = pt_SYNC"
  shows "unless_late (tick_of (Operate i) (s, b)) (perform mem (Operate i) (s, b)) (config_inv mem B K)"
proof -
  let ?p = "pes s ! i"
  let ?q = "?p\<lparr>operateNextEvent := None\<rparr>"
  obtain t where i: "i < length (pes s)" "curTick s \<le> t" and t: "operateNextEvent ?p = Some t"
    using en by (auto simp: due_iff)
  note f = operate_situation [OF inv i(1) t] and n = next_record [OF operate_situation(8) [OF inv i(1) t] more]
    and g = config_invD(2) [OF inv i(1)]
  have i0: "i \<noteq> 0" and K: "K < B" using n(2,8) ty by (simp_all add: wf_record_def pt_barrier_def)
  have al: "alive_set s = {..<length (pes s)}" using globalsD(9) [OF g] K by auto
  define p' where "p' = ?q\<lparr>cur_traffic := cur_traffic ?p + 1\<rparr>"
  define full where "full \<longleftrightarrow> Suc (length (rdy_sync_list s)) = length (pe_list s)"
  let ?l = "if full then (pes s)[i := ?q, 0 := (pes s ! 0)\<lparr>scheduleReqEvent := Some (t + 1)\<rparr>] else (pes s)[i := ?q]"
  let ?s' = "s\<lparr>curTick := t, rdy_sync_list := i # rdy_sync_list s, pes := ?l[i := p']\<rparr>"
  have wake: "broadcast_issuer s = Some 0" "scheduleReqEvent (pes s ! 0) = None" if full
  proof -
    have all: "set (i # rdy_sync_list s) = alive_set s"
      by (rule card_subset_eq) (use that globalsD(2,5,7) [OF g] f(1) al i(1) distinct_card [OF globalsD(5) [OF g]]
          in \<open>auto simp: full_def distinct_card\<close>)
    have "0 \<in> alive_set s" unfolding al using i(1) by auto
    then have r0: "0 \<in> set (rdy_sync_list s)" unfolding all [symmetric] using i0 by simp
    then show "broadcast_issuer s = Some 0" using globalsD(8) [OF g] by simp
    have "pe_inv mem B K 0 True False (0 \<in> b) (0 \<in> alive_set s) (curTick s) (pes s ! 0)"
      using config_invD(1) [OF inv, of 0] globalsD(11) [OF g] r0 that by (simp add: full_def)
    then show "scheduleReqEvent (pes s ! 0) = None"
      using phase_of_wake(2) [OF pe_invD(2) [unfolded phase_def]] by blast
  qed
  have nm: "\<not> no_more_traffic ?q" using more by (simp add: no_more_traffic_def)
  have run: "perform mem (Operate i) (s, b) = (if full \<longrightarrow> t \<le> t + 1 then Inr (?s', b) else Inl past)"
    using i(1) i0 t ty nm f(1) wake globalsD(11) [OF g]
    by (cases full) (simp_all add: operateTraffic_def pe_access Let_def p'_def full_def
        sendBroadcast_def schedule_send_def)
  have "config_inv mem B K (?s', b)"
  proof (rule arrive_ok [OF inv i(1) f(1) K])
    show "pes ?s' ! j = (let q = (if j = i then p' else pes s ! j)
       in if sync_full ?s' then (if j = 0 then q\<lparr>scheduleReqEvent := Some (t + 1)\<rparr> else q) else q)"
      if "j < length (pes s)" for j
      using that i(1) i0 globalsD(11) [OF g] by (simp add: full_def nth_list_update Let_def)
    have "pe_core mem B K i True (i \<in> alive_set s) t p'"
      by (rule advance_core [OF f(8) more i(2)])
        (use ty f(4,5) in \<open>simp_all add: p'_def pt_barrier_def packets_ok_def\<close>)
    moreover have "phase i True False (i \<in> b) True p'"
      using phase_of_operate(11) [OF f(7)] f i0 al i(1) by (simp add: phase_def p'_def)
    ultimately show "pe_inv mem B K i True False (i \<in> b) True (curTick ?s') p'"
      using al i(1) by (simp add: pe_inv_def)
  qed (use i(2) i0 globalsD(8) [OF g] in \<open>simp_all add: p'_def getCoordinate_def\<close>)
  with run show ?thesis by (rule unless_lateI) (simp add: no_wrap_next t)
qed

lemma operate_broadcast_ok:
  assumes inv: "config_inv mem B K (s, b)" and en: "enabled (Operate i) (s, b)" and more: "\<not> no_more_traffic (pes s ! i)"
    and ty: "transfer (traffic_list (pes s ! i) ! unat (cur_traffic (pes s ! i)))"
      "pt_response (traffic_list (pes s ! i) ! unat (cur_traffic (pes s ! i))) = pt_BROADCAST"
  shows "unless_late (tick_of (Operate i) (s, b)) (perform mem (Operate i) (s, b)) (config_inv mem B K)"
proof -
  let ?p = "pes s ! i"
  let ?t = "traffic_list ?p ! unat (cur_traffic ?p)" and ?q = "?p\<lparr>operateNextEvent := None\<rparr>"
  obtain t where i: "i < length (pes s)" "curTick s \<le> t" and t: "operateNextEvent ?p = Some t"
    using en by (auto simp: due_iff)
  note f = operate_situation [OF inv i(1) t] and n = next_record [OF operate_situation(8) [OF inv i(1) t] more]
    and g = config_invD(2) [OF inv i(1)]
  have i0: "i = 0" and rd: "pt_type ?t = pt_READ" using n(2) ty unfolding wf_record_def by blast+
  have K: "K < B" using n(8) ty by (simp add: pt_barrier_def)
  have al: "alive_set s = {..<length (pes s)}" using globalsD(9) [OF g] K by auto
  have lq: "lines_ok mem ?q ?t" using n(3) ty(1) by simp
  let ?pks = "map (line_packet ?q ?t (next_req s)) [0..<num_lines ?q ?t]"
  note lp = line_packets_ok(1,2) [OF lq, of "next_req s"] line_packets_ok(3) [OF lq]
  define full where "full \<longleftrightarrow> Suc (length (rdy_sync_list s)) = length (pe_list s)"
  define q' where "q' = ?q\<lparr>waitingSend_read := ?pks\<rparr>"
  define p' where "p' = q'\<lparr>cur_traffic := cur_traffic ?p + 1\<rparr>"
  let ?s0 = "s\<lparr>curTick := t, pes := (pes s)[i := ?q]\<rparr>"
  let ?s' = "s\<lparr>curTick := t, next_req := next_req s + num_lines ?q ?t, broadcast_issuer := Some i,
     rdy_sync_list := i # rdy_sync_list s,
     pes := (pes s)[i := if full then p'\<lparr>scheduleReqEvent := Some (t + 1)\<rparr> else p']\<rparr>"
  have iss: "issue_packets i ?t ?s0 =
     Inr (s\<lparr>curTick := t, pes := (pes s)[i := q'], next_req := next_req s + num_lines ?q ?t\<rparr>)"
    using issue_packets_exact [of i ?s0 ?q ?t] i(1) n(4) lp(3) rd f(4) by (simp add: queue_packets_def q'_def)
  have nm: "\<not> no_more_traffic ?q" using more by (simp add: no_more_traffic_def)
  have qs: "scheduleReqEvent q' = None" "cur_traffic q' = cur_traffic ?p"
    "q'\<lparr>cur_traffic := n, scheduleReqEvent := e\<rparr> = q'\<lparr>scheduleReqEvent := e, cur_traffic := n\<rparr>" for n e
    using f(2) by (simp_all add: q'_def)
  have "operateTraffic i ?s0 = (if full \<longrightarrow> t \<le> t + 1 then Inr ?s' else Inl past)"
    unfolding operateTraffic_def
    using i(1) nm ty iss qs(1,2) rd f(1)
    by (cases full) (simp_all add: pe_access Let_def waitSync_def sendBroadcast_def schedule_send_def p'_def full_def qs(3))
  then have run: "perform mem (Operate i) (s, b) = (if full \<longrightarrow> t \<le> t + 1 then Inr (?s', b) else Inl past)"
    using i(1) t by (simp add: pe_access)
  have "config_inv mem B K (?s', b)"
  proof (rule arrive_ok [OF inv i(1) f(1) K])
    show "pes ?s' ! j = (let q = (if j = i then p' else pes s ! j)
       in if sync_full ?s' then (if j = 0 then q\<lparr>scheduleReqEvent := Some (t + 1)\<rparr> else q) else q)"
      if "j < length (pes s)" for j
      using that i(1) i0 by (simp add: full_def nth_list_update Let_def)
    have "packets_ok mem True p'"
      using lp(1) ty(2) rd f(4,5) by (simp add: packets_ok_def p'_def q'_def)
    then have "pe_core mem B K i True (i \<in> alive_set s) t p'"
      by (rule advance_core [OF f(8) more i(2), rotated -1])
        (use ty in \<open>simp_all add: p'_def q'_def pt_barrier_def\<close>)
    moreover have "phase i True False (i \<in> b) True p'"
      using phase_of_operate(11) [OF f(7)] f i0 al i(1) lp(2) by (simp add: phase_def p'_def q'_def)
    ultimately show "pe_inv mem B K i True False (i \<in> b) True (curTick ?s') p'"
      using al i(1) by (simp add: pe_inv_def)
  qed (use i(2) i0 in \<open>simp_all add: p'_def q'_def getCoordinate_def\<close>)
  with run show ?thesis by (rule unless_lateI) (simp add: no_wrap_next t)
qed

section \<open>Safety\<close>

lemma operate_ok:
  assumes "config_inv mem B K (s, b)" and "enabled (Operate i) (s, b)"
  shows "unless_late (tick_of (Operate i) (s, b)) (perform mem (Operate i) (s, b)) (config_inv mem B K)"
proof (cases "no_more_traffic (pes s ! i)")
  case True
  then show ?thesis by (rule operate_end_ok [OF assms])
next
  case False
  let ?t = "traffic_list (pes s ! i) ! unat (cur_traffic (pes s ! i))"
  consider "pt_type ?t = pt_COMPUTE" | "pt_type ?t = pt_SYNC" | "transfer ?t" "pt_response ?t \<noteq> pt_BROADCAST"
    | "transfer ?t" "pt_response ?t = pt_BROADCAST"
    unfolding transfer_def by argo
  then show ?thesis
    by cases (rule operate_compute_ok [OF assms False] operate_sync_ok [OF assms False]
        operate_transfer_ok [OF assms False] operate_broadcast_ok [OF assms False]; assumption)+
qed

lemma accept_ok:
  assumes "config_inv mem B K (s, b)" and "enabled (Send i True) (s, b)"
  shows "unless_late (tick_of (Send i True) (s, b)) (perform mem (Send i True) (s, b)) (\<lambda>c. \<exists>K'. config_inv mem B K' c)"
proof (cases "i \<in> set (rdy_sync_list s)")
  case True
  then show ?thesis by (rule accept_broadcast_ok [OF assms])
next
  case False
  have "unless_late (tick_of (Send i True) (s, b)) (perform mem (Send i True) (s, b)) (config_inv mem B K)"
    by (cases "waitingSend_write (pes s ! i) = []")
      (rule accept_read_ok [OF assms _ False] accept_write_ok [OF assms]; assumption)+
  then show ?thesis by (rule unless_late_mono) blast
qed

lemma step_ok:
  assumes "config_inv mem B K c" and "enabled a c"
  shows "unless_late (tick_of a c) (perform mem a c) (\<lambda>c. \<exists>K'. config_inv mem B K' c)"
proof -
  obtain s b where c: "c = (s, b)" by (cases c)
  have weak: "unless_late t r (config_inv mem B K) \<Longrightarrow> unless_late t r (\<lambda>c. \<exists>K'. config_inv mem B K' c)" for t r
    by (erule unless_late_mono) blast
  show ?thesis
  proof (cases a)
    case (Operate i)
    then show ?thesis using assms weak operate_ok unfolding c by blast
  next
    case (Send i acc)
    show ?thesis
    proof (cases acc)
      case True
      then show ?thesis using assms accept_ok unfolding c Send by simp
    next
      case False
      then have acc: "acc = False" by simp
      show ?thesis using assms unfolding c Send acc by (intro weak unless_late_ok reject_ok)
    qed
  next
    case (Response i pkt t)
    then show ?thesis using assms weak response_ok unfolding c by simp
  next
    case (Retry i t)
    then show ?thesis using assms weak retry_ok unfolding c by simp
  qed
qed

end
