(* ===== verification/PE_Live.thy ===== *)
theory PE_Live
  imports PE_System
begin

text \<open>
  The system of elements makes progress: events never lie in the past, so that some action
  is possible as long as an element is listed.
\<close>

section \<open>Events are never in the past\<close>

definition timed_pe :: "tick \<Rightarrow> pe \<Rightarrow> bool" where
  "timed_pe T p \<longleftrightarrow> (\<forall>u. operateNextEvent p = Some u \<longrightarrow> T \<le> u) \<and> (\<forall>u. scheduleReqEvent p = Some u \<longrightarrow> T \<le> u)"

definition timed :: "nat \<Rightarrow> tick \<Rightarrow> pe_system \<Rightarrow> bool" where
  "timed n T s \<longleftrightarrow> length (pes s) = n \<and> curTick s = T \<and> (\<forall>p \<in> set (pes s). timed_pe T p)"

named_theorems timing

lemma timed_get [timing]:
  assumes "timed n T s" and "\<And>p. timed_pe T p \<Longrightarrow> Q p"
  shows "safeE (get_pe i s) Q"
  using assms by (auto simp: timed_def get_pe_def vec_at_def)

lemma timed_put [timing]: "timed n T s \<Longrightarrow> timed_pe T p \<Longrightarrow> timed n T (put_pe i p s)"
  by (auto simp: timed_def put_pe_def dest: subsetD [OF set_update_subset_insert])

lemma timed_globals [simp]:
  "timed n T (s\<lparr>pe_list := l\<rparr>) = timed n T s" "timed n T (s\<lparr>rdy_sync_list := r\<rparr>) = timed n T s"
  "timed n T (s\<lparr>broadcast_issuer := x\<rparr>) = timed n T s" "timed n T (s\<lparr>next_req := k\<rparr>) = timed n T s"
  "timed n T (s\<lparr>sim_exit := e\<rparr>) = timed n T s"
  by (simp_all add: timed_def)

lemma timed_now [simp]: "timed n T s \<Longrightarrow> curTick s = T"
  by (simp add: timed_def)

lemma timed_pe_fields [simp]:
  "timed_pe T (p\<lparr>stats := a\<rparr>) = timed_pe T p" "timed_pe T (p\<lparr>retryPktTick := b\<rparr>) = timed_pe T p"
  "timed_pe T (p\<lparr>waitingSend_read := q\<rparr>) = timed_pe T p" "timed_pe T (p\<lparr>waitingSend_write := q\<rparr>) = timed_pe T p"
  "timed_pe T (p\<lparr>waitingResp_read := r\<rparr>) = timed_pe T p" "timed_pe T (p\<lparr>waitingResp_write := r\<rparr>) = timed_pe T p"
  "timed_pe T (p\<lparr>cur_traffic := c\<rparr>) = timed_pe T p"
  "timed_pe T p \<Longrightarrow> timed_pe T (p\<lparr>operateNextEvent := None\<rparr>)"
  "timed_pe T p \<Longrightarrow> timed_pe T (p\<lparr>scheduleReqEvent := None\<rparr>)"
  "timed_pe T p \<Longrightarrow> T \<le> u \<Longrightarrow> timed_pe T (p\<lparr>operateNextEvent := Some u\<rparr>)"
  "timed_pe T p \<Longrightarrow> T \<le> u \<Longrightarrow> timed_pe T (p\<lparr>scheduleReqEvent := Some u\<rparr>)"
  by (auto simp: timed_pe_def)

lemma timed_pe_updates [simp]:
  "timed_pe T (clear_retry t p) = timed_pe T p" "timed_pe T (put_waitingSend r q p) = timed_pe T p"
  by (simp_all add: clear_retry_def put_waitingSend_def)

lemma timed_schedule [timing]:
  assumes "timed n T s"
  shows "safeE (schedule_operate i u s) (timed n T)" "safeE (schedule_send i u s) (timed n T)"
  using assms unfolding schedule_operate_def schedule_send_def
  by (auto intro!: timed_get [of n T] timed_put)

lemma timed_retry [timing]:
  assumes "timed n T s"
  shows "safeE (recvReqRetry i s) (timed n T)"
  using assms unfolding recvReqRetry_def retryReq_def
  by (auto intro!: timed_get [of n T] timed_put timed_schedule)

lemma timed_response [timing]:
  assumes "timed n T s"
  shows "safeE (recvTimingResp i pkt s) (timed n T)"
proof -
  have "safeE (account_response i pkt s) (timed n T)"
    using assms unfolding account_response_def
    by (auto intro!: timed_get [of n T] timed_put timed_schedule simp: Let_def split: option.split)
  then show ?thesis
    unfolding recvTimingResp_def safeE_bindE
    by (rule safeE_mono) (auto intro!: timed_get [of n T] simp: retire_def Let_def)
qed

lemma timed_record [timing]:
  assumes "timed n T s"
  shows "safeE (record_request i pkt s) (timed n T)"
proof (cases "pk_broadcast pkt")
  case True
  show ?thesis
    unfolding record_request_def if_P [OF True]
    by (rule safeE_foldE [where P = "timed n T", OF assms]) (auto intro!: timed_get [of n T] timed_put)
next
  case False
  then show ?thesis
    using assms unfolding record_request_def by (auto intro!: timed_get [of n T] timed_put)
qed

lemma timed_end_broadcast [simp]: "timed n T (end_broadcast i s) = timed n T s"
  by (simp add: end_broadcast_def)

lemma timed_send [timing]:
  assumes "timed n T s"
  shows "safeE (scheduleReq mem acc i s) (timed n T)"
proof -
  have sent: "safeE (sent_packet i r pkt s) (timed n T)" if "timed n T s" for r pkt s
    using that unfolding sent_packet_def
    by (auto intro!: timed_get [of n T] timed_put timed_schedule safeE_mono [OF timed_record [of n T]] simp: Let_def)
  have supp: "safeE (suppress_packet i r pkt s) (timed n T)" if "timed n T s" for r pkt s
    using that unfolding suppress_packet_def
    by (auto intro!: timed_get [of n T] timed_put timed_schedule safeE_mono [OF timed_schedule(1) [of n T]] simp: Let_def)
  show ?thesis
    using assms unfolding scheduleReq_def
    by (auto intro!: timed_get [of n T] timed_put sent supp simp: Let_def)
qed

lemma timed_operate [timing]:
  assumes "timed n T s"
  shows "safeE (operateTraffic i s) (timed n T)"
proof -
  have issue: "safeE (issue_packets i t s) (timed n T)" if "timed n T s" for t s
    using that unfolding issue_packets_def
    by (auto intro!: timed_get [of n T] timed_put safeE_foldE simp: getPacket_def)
  have wait: "safeE (waitSync i s) (timed n T)" if "timed n T s" for s
    using that unfolding waitSync_def sendBroadcast_def by (auto intro!: timed_schedule simp: Let_def)
  note after = safeE_mono [OF issue] safeE_mono [OF wait] safeE_mono [OF timed_schedule(1) [of n T]]
    safeE_mono [OF timed_schedule(2) [of n T]]
  show ?thesis
    using assms unfolding operateTraffic_def
    by (auto intro!: timed_get [of n T] timed_put after simp: retire_def Let_def sendBroadcast_def split: option.split)
qed

declare timed_now [simp del]

lemma due_timed: "due t s \<Longrightarrow> timed (length (pes s)) t (s\<lparr>curTick := t\<rparr>)"
  by (auto simp: due_iff timed_def timed_pe_def)

lemma timed_due: "timed n T s \<Longrightarrow> due T s"
  by (auto simp: due_iff timed_def timed_pe_def)

lemma step_timed:
  assumes "enabled a c" and n: "length (pes (fst c)) = n"
  shows "safeE (perform mem a c) (\<lambda>(s, b). \<exists>T. timed n T s)"
proof -
  obtain s b where c: "c = (s, b)" by (cases c)
  have due: "timed n t (s\<lparr>curTick := t\<rparr>)" if "due t s" for t
    using due_timed [OF that] n by (simp add: c)
  have live: "safeE (bindE m (\<lambda>s. Inr (s, b'))) (\<lambda>(s, b). \<exists>T. timed n T s)" if "safeE m (timed n T)" for m T and b' :: "pe_ptr set"
    using that by (auto elim: safeE_mono)
  have get: "get_pe i s = Inr (pes s ! i)" "timed_pe t (pes s ! i)" if "i < length (pes s)" "due t s" for i t
    using that by (auto simp: get_pe_def vec_at_def due_iff timed_pe_def)
  show ?thesis
  proof (cases a)
    case (Operate i)
    then obtain t where t: "i < length (pes s)" "operateNextEvent (pes s ! i) = Some t" "due t s" using assms c by auto
    show ?thesis
      unfolding c Operate perform.simps get(1) [OF t(1,3)] bindE.simps t(2) determinate_Some
      by (rule live, rule timed_operate, rule timed_put [OF due [OF t(3)]]) (simp add: get(2) [OF t(1,3)])
  next
    case (Send i acc)
    then obtain t where t: "i < length (pes s)" "scheduleReqEvent (pes s ! i) = Some t" "due t s" using assms c by auto
    show ?thesis
      unfolding c Send perform.simps get(1) [OF t(1,3)] bindE.simps t(2) determinate_Some
      by (rule live, rule timed_send, rule timed_put [OF due [OF t(3)]]) (simp add: get(2) [OF t(1,3)])
  next
    case (Response i pkt t)
    then have "due t s" using assms c by simp
    then show ?thesis
      unfolding c Response perform.simps by (rule live [OF timed_response [OF due]])
  next
    case (Retry i t)
    then have "due t s" using assms c by simp
    then show ?thesis
      unfolding c Retry perform.simps by (rule live [OF timed_retry [OF due]])
  qed
qed

section \<open>The system at the start\<close>

text \<open>
  All elements are listed, start at tick 1 and have well-formed traffic with the same number of
  barriers.
\<close>

definition idle_pe :: "pe \<Rightarrow> bool" where
  "idle_pe p \<longleftrightarrow> waitingSend_read p = [] \<and> waitingSend_write p = [] \<and> waitingResp_read p = [] \<and>
     waitingResp_write p = [] \<and> scheduleReqEvent p = None \<and> cur_traffic p = 0"

definition ready_system :: "(u64 \<Rightarrow> bool) \<Rightarrow> nat \<Rightarrow> pe_system \<Rightarrow> bool" where
  "ready_system mem B s \<longleftrightarrow> pes s \<noteq> [] \<and> distinct (map getCoordinate (pes s)) \<and>
     pe_list s = zip (map getCoordinate (pes s)) [0..<length (pes s)] \<and>
     rdy_sync_list s = [] \<and> broadcast_issuer s = None \<and> \<not> sim_exit s \<and>
     (\<forall>i < length (pes s). idle_pe (pes s ! i) \<and> traffic_ok mem i (pes s ! i) \<and>
        bars (pes s ! i) (length (traffic_list (pes s ! i))) = B \<and>
        (\<exists>t. operateNextEvent (pes s ! i) = Some t \<and> curTick s \<le> t))"

lemma ready_inv:
  assumes r: "ready_system mem B s"
  shows "config_inv mem B 0 (s, {})" "timed (length (pes s)) (curTick s) s"
proof -
  have pl: "pe_list s = zip (map getCoordinate (pes s)) [0..<length (pes s)]"
    and d: "distinct (map getCoordinate (pes s))" and ne: "pes s \<noteq> []"
    and gl: "rdy_sync_list s = []" "broadcast_issuer s = None" "\<not> sim_exit s"
    using r by (auto simp: ready_system_def)
  have fs: "map fst (pe_list s) = map getCoordinate (pes s)" "map snd (pe_list s) = [0..<length (pes s)]"
    by (simp_all add: pl)
  have al: "alive_set s = {..<length (pes s)}"
    unfolding set_map [symmetric] fs by (simp add: atLeast_upt)
  have "globals_ok B 0 s"
    unfolding globals_ok_def using ne d gl fs al by (auto simp: pl set_zip)
  moreover have "pe_inv mem B 0 i False (sync_full s) False True (curTick s) (pes s ! i)" if "i < length (pes s)" for i
  proof -
    have p: "idle_pe (pes s ! i)" "traffic_ok mem i (pes s ! i)"
      "bars (pes s ! i) (length (traffic_list (pes s ! i))) = B" "\<exists>t. operateNextEvent (pes s ! i) = Some t \<and> curTick s \<le> t"
      using r that unfolding ready_system_def by blast+
    then show ?thesis
      by (auto simp: pe_inv_def pe_core_def idle_pe_def bars_def resp_ok_def packets_ok_def phase_def phase_of_def)
  qed
  ultimately show "config_inv mem B 0 (s, {})" using gl al by (simp add: config_inv_def)
  show "timed (length (pes s)) (curTick s) s"
    using r by (fastforce simp: ready_system_def timed_def timed_pe_def idle_pe_def in_set_conv_nth)
qed

lemma reachable_inv:
  assumes r: "ready_system mem B s0" and "reachable mem (s0, {}) c"
  shows "(\<exists>K. config_inv mem B K c) \<and> (\<exists>T. timed (length (pes s0)) T (fst c))"
  using assms(2)
proof (induction rule: reachable.induct)
  case init
  then show ?case using ready_inv [OF r] by auto
next
  case (step c a c')
  from step.IH obtain K where K: "config_inv mem B K c" and n: "length (pes (fst c)) = length (pes s0)"
    by (auto simp: timed_def)
  from step_ok [OF K step.hyps(2)] step_timed [OF step.hyps(2) n, of mem] step.hyps(3)
  show ?case by (cases c') (auto simp: unless_late_def)
qed

section \<open>No deadlock\<close>

lemma response_enabled:
  assumes "timed n T s" and "i < length (pes s)" and "waitingResp_read (pes s ! i) \<noteq> [] \<or> waitingResp_write (pes s ! i) \<noteq> []"
  shows "\<exists>pkt. enabled (Response i pkt T) (s, b)"
proof -
  have some: "\<exists>r. map_of l r \<noteq> None" if "l \<noteq> []" for l :: "(req_ptr \<times> tick) list"
    using that by (cases l) (auto intro!: exI [of _ "fst (hd l)"])
  have "\<exists>rd r. map_of (if rd then waitingResp_read (pes s ! i) else waitingResp_write (pes s ! i)) r \<noteq> None"
  proof (cases "waitingResp_read (pes s ! i) = []")
    case True
    then show ?thesis using some [of "waitingResp_write (pes s ! i)"] assms(3) by (intro exI [of _ False]) simp
  next
    case False
    then show ?thesis using some by (intro exI [of _ True]) simp
  qed
  then obtain rd r where "map_of (if rd then waitingResp_read (pes s ! i) else waitingResp_write (pes s ! i)) r \<noteq> None" by blast
  then have "enabled (Response i \<lparr>pk_req = r, pk_addr = 0, pk_size = 0, pk_read = rd, pk_broadcast = False, pk_freed = False\<rparr> T) (s, b)"
    using timed_due [OF assms(1)] assms(2) by simp
  then show ?thesis ..
qed

text \<open>The earliest event is due.\<close>

definition event_ticks :: "pe_system \<Rightarrow> tick set" where
  "event_ticks s = (\<Union>p \<in> set (pes s). set_option (operateNextEvent p) \<union> set_option (scheduleReqEvent p))"

lemma event_enabled:
  assumes T: "timed n T s" and ne: "event_ticks s \<noteq> {}"
  shows "\<exists>i. enabled (Operate i) (s, b) \<or> (\<forall>acc. enabled (Send i acc) (s, b))"
proof -
  let ?t = "Min (event_ticks s)"
  have fin: "finite (event_ticks s)" by (simp add: event_ticks_def)
  have "?t \<in> event_ticks s" by (rule Min_in [OF fin ne])
  then obtain p where p: "p \<in> set (pes s)" "operateNextEvent p = Some ?t \<or> scheduleReqEvent p = Some ?t"
    by (auto simp: event_ticks_def)
  then obtain i where i: "i < length (pes s)" "pes s ! i = p" by (auto simp: in_set_conv_nth)
  have "curTick s \<le> ?t" using p T by (auto simp: timed_def timed_pe_def)
  moreover have "?t \<le> u" if "p \<in> set (pes s)" "operateNextEvent p = Some u \<or> scheduleReqEvent p = Some u" for p u
    using that by (intro Min_le [OF fin]) (force simp: event_ticks_def)
  ultimately have "due ?t s" by (auto simp: due_iff)
  then show ?thesis using i p(2) by (intro exI [of _ i]) auto
qed

lemma phase_of_quiet:
  assumes "phase_of z inr full blk alive oper send rq wq rr rw todo"
    and "\<not> oper" "\<not> send" "\<not> rr" "\<not> rw" "\<not> blk"
  shows "alive \<Longrightarrow> inr" "inr \<Longrightarrow> z \<Longrightarrow> \<not> full"
  using assms unfolding phase_of_def by (auto split: if_splits)

lemma inv_not_stuck:
  assumes inv: "config_inv mem B K (s, b)" and T: "timed n T s" and ne: "pe_list s \<noteq> []"
  shows "\<exists>a. enabled a (s, b)"
proof (rule ccontr)
  assume none: "\<nexists>a. enabled a (s, b)"
  have g: "globals_ok B K s" using inv by (simp add: config_inv_def)
  have "event_ticks s = {}" using event_enabled [OF T] none by blast
  then have ev: "operateNextEvent (pes s ! i) = None" "scheduleReqEvent (pes s ! i) = None" if "i < length (pes s)" for i
    using nth_mem [OF that] by (auto simp: event_ticks_def)
  have resp: "waitingResp_read (pes s ! i) = []" "waitingResp_write (pes s ! i) = []" if "i < length (pes s)" for i
    using response_enabled [OF T that] none by blast+
  have blk: "i \<notin> b" if "i < length (pes s)" for i
    using none timed_due [OF T] that by (metis enabled.simps(4))
  have quiet: "phase_of (i = 0) (i \<in> set (rdy_sync_list s)) (sync_full s) False (i \<in> alive_set s) False False
       (waitingSend_read (pes s ! i) \<noteq> []) (waitingSend_write (pes s ! i) \<noteq> []) False False (\<not> no_more_traffic (pes s ! i))"
    if "i < length (pes s)" for i
    using pe_invD(2) [OF config_invD(1) [OF inv that]] ev [OF that] resp [OF that] blk [OF that] by (simp add: phase_def)
  have sub: "alive_set s \<subseteq> set (rdy_sync_list s)"
    using phase_of_quiet(1) [OF quiet] globalsD(1) [OF g] by blast
  then have full: "sync_full s" using full_alive [OF g] globalsD(2) [OF g] by blast
  from ne obtain i where i: "i \<in> alive_set s" by (cases "pe_list s") auto
  then have bar: "alive_set s = {..<length (pes s)}"
    using barrier_situation(2) [OF inv] globalsD(1) [OF g] sub by blast
  have z: "0 < length (pes s)" using globalsD(11) [OF g] by simp
  then have "0 \<in> set (rdy_sync_list s)" using bar sub by auto
  then show False using phase_of_quiet(2) [OF quiet [OF z]] full by simp
qed

lemma inv_exit:
  assumes inv: "config_inv mem B K (s, b)" and ex: "sim_exit s" and i: "i < length (pes s)"
  shows "retired_ok (pes s ! i)"
proof -
  have "pe_list s = []" using globalsD(10) [OF config_invD(2) [OF inv i]] ex by simp
  then show ?thesis using pe_coreD(7) [OF pe_invD(1) [OF config_invD(1) [OF inv i]]] by simp
qed

end
