(* ===== verification/PE_Term.thy ===== *)
theory PE_Term
  imports PE_Live
begin

text \<open>
  The system of elements finishes: a measure of the work left that every action decreases, and the
  properties of the system of \<open>PE_System\<close> and \<open>PE_Live\<close> with a run of two elements.
\<close>

section \<open>Termination\<close>

text \<open>
  The work left: events, outstanding responses, queued packets and records.  A packet is worth
  the responses it may cause, at every one of the \<open>n\<close> elements, and a record is worth its
  packets.
\<close>

definition records_left :: "pe \<Rightarrow> pe_traffic list" where
  "records_left p = drop (unat (cur_traffic p)) (traffic_list p)"

definition pe_work :: "nat \<Rightarrow> pe \<Rightarrow> nat" where
  "pe_work n p = (if operateNextEvent p = None then 0 else 1) +
     2 * (length (waitingResp_read p) + length (waitingResp_write p)) +
     (2 * n + 2) * (length (waitingSend_read p) + length (waitingSend_write p)) +
     (\<Sum>t \<leftarrow> records_left p. 1 + (2 * n + 2) * num_lines p t)"

definition work :: "nat \<Rightarrow> pe_system \<Rightarrow> nat" where
  "work n s = (\<Sum>p \<leftarrow> pes s. pe_work n p)"

lemma sum_list_update_nat:
  "i < length xs \<Longrightarrow> (\<Sum>x \<leftarrow> xs[i := y]. f x) + f (xs ! i) = (\<Sum>x \<leftarrow> xs. f x) + (f y :: nat)"
  by (induction xs arbitrary: i) (auto split: nat.split)

lemma work_put:
  assumes "get_pe i s = Inr p"
  shows "work n (put_pe i p' s) + pe_work n p = work n s + pe_work n p'"
  using assms sum_list_update_nat [of i "pes s" "pe_work n" p']
  by (auto simp: work_def put_pe_def get_pe_def vec_at_def split: if_splits)

lemma get_put:
  assumes "get_pe i s = Inr p"
  shows "get_pe i (put_pe i p' s) = Inr p'"
  using assms by (auto simp: put_pe_def get_pe_def vec_at_def split: if_splits)

lemma work_globals [simp]:
  "work n (s\<lparr>pe_list := l\<rparr>) = work n s" "work n (s\<lparr>rdy_sync_list := r\<rparr>) = work n s"
  "work n (s\<lparr>broadcast_issuer := x\<rparr>) = work n s" "work n (s\<lparr>next_req := k\<rparr>) = work n s"
  "work n (s\<lparr>sim_exit := e\<rparr>) = work n s" "work n (s\<lparr>curTick := t\<rparr>) = work n s"
  by (simp_all add: work_def)

lemma get_globals [simp]:
  "get_pe i (s\<lparr>pe_list := l\<rparr>) = get_pe i s" "get_pe i (s\<lparr>rdy_sync_list := r\<rparr>) = get_pe i s"
  "get_pe i (s\<lparr>broadcast_issuer := x\<rparr>) = get_pe i s" "get_pe i (s\<lparr>next_req := k\<rparr>) = get_pe i s"
  "get_pe i (s\<lparr>sim_exit := e\<rparr>) = get_pe i s" "get_pe i (s\<lparr>curTick := t\<rparr>) = get_pe i s"
  by (simp_all add: get_pe_def)

lemma num_lines_cong: "cache_line_size p' = cache_line_size p \<Longrightarrow> num_lines p' t = num_lines p t"
  by (simp add: num_lines_def transfer_size_def Let_def)

lemma num_lines_fields [simp]:
  "num_lines (p\<lparr>stats := a\<rparr>) t = num_lines p t" "num_lines (p\<lparr>retryPktTick := b\<rparr>) t = num_lines p t"
  "num_lines (p\<lparr>waitingSend_read := q\<rparr>) t = num_lines p t" "num_lines (p\<lparr>waitingSend_write := q\<rparr>) t = num_lines p t"
  "num_lines (p\<lparr>waitingResp_read := r\<rparr>) t = num_lines p t" "num_lines (p\<lparr>waitingResp_write := r\<rparr>) t = num_lines p t"
  "num_lines (p\<lparr>cur_traffic := c\<rparr>) t = num_lines p t" "num_lines (p\<lparr>scheduleReqEvent := e\<rparr>) t = num_lines p t"
  by (rule num_lines_cong, simp)+

lemma schedule_work:
  "safeE (schedule_operate i u s) (\<lambda>s'. work n s' = work n s + 1)"
  "safeE (schedule_send i u s) (\<lambda>s'. work n s' = work n s)"
proof -
  have "safeE (bindE (get_pe i s) (\<lambda>p. bindE (guardE b a) (\<lambda>_. bindE (guardE (c p) e) (\<lambda>_.
      Inr (put_pe i (f p) s))))) (\<lambda>s'. work n s' = work n s + d)"
    if "\<And>p. c p \<Longrightarrow> pe_work n (f p) = pe_work n p + d" for a b c e f d
  proof (cases "get_pe i s")
    case (Inr p)
    then show ?thesis using that [of p] work_put [OF Inr, of n "f p"] by auto
  qed simp
  note r = this
  show "safeE (schedule_operate i u s) (\<lambda>s'. work n s' = work n s + 1)"
    unfolding schedule_operate_def by (rule r) (simp add: pe_work_def records_left_def)
  show "safeE (schedule_send i u s) (\<lambda>s'. work n s' = work n s)"
    unfolding schedule_send_def by (rule safeE_mono [OF r [where d = 0]]) (simp_all add: pe_work_def records_left_def)
qed

lemma delete_shorter:
  assumes "map_of l k \<noteq> None"
  shows "length (AList.delete k l) + 1 \<le> length l"
proof -
  have "k \<in> fst ` set l" using assms by (simp add: map_of_eq_None_iff)
  then have "length (filter (\<lambda>e. k \<noteq> fst e) l) < length l"
    by (auto intro!: length_filter_less)
  then show ?thesis by (simp add: AList.delete_eq case_prod_unfold)
qed

lemma response_work:
  "safeE (recvTimingResp i pkt s) (\<lambda>s'. work n s' < work n s)"
proof -
  have "safeE (account_response i pkt s) (\<lambda>s'. work n s' < work n s)"
  proof (cases "get_pe i s")
    case (Inr p)
    let ?q = "if pk_read pkt then waitingResp_read p else waitingResp_write p"
    show ?thesis
    proof (cases "map_of ?q (pk_req pkt)")
      case (Some sent)
      then have d: "length (AList.delete (pk_req pkt) ?q) + 1 \<le> length ?q" by (intro delete_shorter) simp
      have put: "work n (put_pe i p' s) + 2 \<le> work n s" if "pe_work n p' + 2 \<le> pe_work n p" for p'
        using work_put [OF Inr, of n p'] that by simp
      have op: "safeE (schedule_operate i u (put_pe i p' s)) (\<lambda>s'. work n s' < work n s)"
        "work n (put_pe i p' s) < work n s" if "pe_work n p' + 2 \<le> pe_work n p" for p' u
        by (rule safeE_mono [OF schedule_work(1) [of _ _ _ n]]) (use put [OF that] in simp_all)
      have w: "pe_work n (p\<lparr>stats := st, waitingResp_read := l\<rparr>) + 2 \<le> pe_work n p" if "length l + 1 \<le> length (waitingResp_read p)" for st l
        using that by (simp add: pe_work_def records_left_def)
      have w': "pe_work n (p\<lparr>stats := st, waitingResp_write := l\<rparr>) + 2 \<le> pe_work n p" if "length l + 1 \<le> length (waitingResp_write p)" for st l
        using that by (simp add: pe_work_def records_left_def)
      show ?thesis
        unfolding account_response_def using Inr Some d
        by (auto simp: Let_def intro!: op w w')
    qed (simp add: account_response_def Inr)
  qed (simp add: account_response_def)
  then show ?thesis
    unfolding recvTimingResp_def safeE_bindE
    by (rule safeE_mono) (auto simp: get_pe_def vec_at_def retire_def Let_def)
qed

lemma length_alist_update: "length (AList.update k v l) \<le> length l + 1"
  by (induction l) auto

lemma mark_work: "pe_work n (p\<lparr>waitingResp_read := AList.update r t (waitingResp_read p)\<rparr>) \<le> pe_work n p + 2"
  "pe_work n (p\<lparr>waitingResp_write := AList.update r t (waitingResp_write p)\<rparr>) \<le> pe_work n p + 2"
  using length_alist_update [of r t "waitingResp_read p"] length_alist_update [of r t "waitingResp_write p"]
  by (simp_all add: pe_work_def records_left_def)

lemma put_work_le:
  assumes "\<And>p. get_pe i s = Inr p \<Longrightarrow> pe_work n (f p) \<le> pe_work n p + d"
  shows "safeE (bindE (get_pe i s) (\<lambda>p. Inr (put_pe i (f p) s))) (\<lambda>s'. work n s' \<le> work n s + d)"
proof (cases "get_pe i s")
  case (Inr p)
  then show ?thesis using assms [OF Inr] work_put [OF Inr, of n "f p"] by simp
qed simp

lemma fold_work:
  assumes "\<And>x s. safeE (f x s) (\<lambda>s'. work n s' \<le> work n s + d)"
  shows "safeE (foldE f xs s) (\<lambda>s'. work n s' \<le> work n s + d * length xs)"
proof (induction xs arbitrary: s)
  case (Cons x xs)
  show ?case
    unfolding foldE.simps safeE_bindE
  proof (rule safeE_mono [OF assms])
    fix s1 assume le: "work n s1 \<le> work n s + d"
    show "safeE (foldE f xs s1) (\<lambda>s'. work n s' \<le> work n s + d * length (x # xs))"
      by (rule safeE_mono [OF Cons.IH]) (use le in \<open>simp add: algebra_simps\<close>)
  qed
qed simp

lemma record_work:
  assumes "length (pe_list s) \<le> n" and "1 \<le> n"
  shows "safeE (record_request i pkt s) (\<lambda>s'. work n s' \<le> work n s + 2 * n)"
proof (cases "pk_broadcast pkt")
  case True
  have "safeE (foldE (\<lambda>(_, j) s. bindE (get_pe j s) (\<lambda>q. Inr (put_pe j (q\<lparr>waitingResp_read :=
            AList.update (pk_req pkt) (curTick s) (waitingResp_read q)\<rparr>) s))) (pe_list s) s)
        (\<lambda>s'. work n s' \<le> work n s + 2 * length (pe_list s))"
    by (rule fold_work, unfold case_prod_unfold, rule put_work_le [OF mark_work(1)])
  then show ?thesis
    unfolding record_request_def if_P [OF True]
    by (rule safeE_mono) (use assms in simp)
next
  case False
  have "safeE (record_request i pkt s) (\<lambda>s'. work n s' \<le> work n s + 2)"
    unfolding record_request_def if_not_P [OF False] by (rule put_work_le) (simp add: mark_work [simplified])
  then show ?thesis by (rule safeE_mono) (use assms in simp)
qed

lemma clear_retry_work [simp]: "pe_work n (clear_retry t p) = pe_work n p"
  by (simp add: clear_retry_def pe_work_def records_left_def)

lemma end_broadcast_work [simp]: "work n (end_broadcast i s) = work n s"
  by (simp add: end_broadcast_def)

lemma pop_work:
  assumes "waitingSend p \<noteq> []"
  shows "pe_work n (put_waitingSend (waitingSend_write p = []) (tl (waitingSend p)) p) + (2 * n + 2) = pe_work n p"
  using assms
  by (cases "waitingSend_write p"; cases "waitingSend_read p")
    (auto simp: put_waitingSend_def waitingSend_def pe_work_def records_left_def)

lemma sent_work:
  assumes p: "get_pe i s = Inr p" "waitingSend p \<noteq> []" and n: "length (pe_list s) \<le> n" "1 \<le> n"
  shows "safeE (sent_packet i (waitingSend_write p = []) pkt s) (\<lambda>s'. work n s' < work n s)"
proof -
  let ?s1 = "put_pe i (put_waitingSend (waitingSend_write p = []) (tl (waitingSend p)) p) s"
  have s1: "work n ?s1 + (2 * n + 2) = work n s"
    using work_put [OF p(1), of n "put_waitingSend (waitingSend_write p = []) (tl (waitingSend p)) p"] pop_work [OF p(2), of n]
    by simp
  have "safeE (record_request i pkt ?s1) (\<lambda>s2. work n s2 \<le> work n ?s1 + 2 * n)"
    by (rule record_work) (use n in \<open>simp_all add: put_pe_def\<close>)
  then have rec: "safeE (record_request i pkt ?s1) (\<lambda>s2. work n s2 + 2 \<le> work n s)"
    by (rule safeE_mono) (use s1 in simp)
  have fin: "safeE (get_pe i s2) (\<lambda>q. safeE
      (let p = clear_retry (curTick s2) q; s = put_pe i p s2
       in if (if r then waitingSend_read p else waitingSend_write p) = [] then
            if waitingResp_read p = [] then schedule_operate i (curTick s + 1) s
            else Inr (end_broadcast i s)
          else schedule_send i (curTick s + 1) s) (\<lambda>s'. work n s' < work n s))" if le: "work n s2 + 2 \<le> work n s" for s2 r
  proof (cases "get_pe i s2")
    case (Inr q)
    have w: "work n (put_pe i (clear_retry (curTick s2) q) s2) = work n s2"
      using work_put [OF Inr, of n "clear_retry (curTick s2) q"] by simp
    have "safeE (schedule_operate i u (put_pe i (clear_retry (curTick s2) q) s2)) (\<lambda>s'. work n s' < work n s)"
      "safeE (schedule_send i u (put_pe i (clear_retry (curTick s2) q) s2)) (\<lambda>s'. work n s' < work n s)" for u
      by (rule safeE_mono [OF schedule_work(1) [of _ _ _ n]], use w le in simp)
        (rule safeE_mono [OF schedule_work(2) [of _ _ _ n]], use w le in simp)
    then show ?thesis using w le by (simp add: Inr Let_def)
  qed simp
  show ?thesis
    unfolding sent_packet_def p(1) bindE.simps safeE_bindE
    by (rule safeE_mono [OF rec fin])
qed

lemma send_work:
  assumes p: "get_pe i s = Inr p" "waitingSend p \<noteq> []" "mem (pk_addr (hd (waitingSend p)))"
    and n: "length (pe_list s) \<le> n" "1 \<le> n"
  shows "safeE (scheduleReq mem True i s) (\<lambda>s'. work n s' < work n s)"
proof -
  let ?p' = "p\<lparr>stats := (stats p)\<lparr>numPackets := numPackets (stats p) + 1\<rparr>\<rparr>"
  have w: "work n (put_pe i ?p' s) = work n s"
    using work_put [OF p(1), of n ?p'] by (simp add: pe_work_def records_left_def)
  have "safeE (sent_packet i (waitingSend_write ?p' = []) pkt (put_pe i ?p' s)) (\<lambda>s'. work n s' < work n s)" for pkt
    unfolding w [symmetric]
    by (rule sent_work [OF get_put [OF p(1)]]) (use p n in \<open>simp_all add: put_pe_def\<close>)
  then show ?thesis
    unfolding scheduleReq_def using p by (simp add: Let_def)
qed

text \<open>Scheduling and queueing leave the position in the traffic alone.\<close>

definition position :: "pe_ptr \<Rightarrow> pe \<Rightarrow> pe_system \<Rightarrow> bool" where
  "position i p s \<longleftrightarrow> (\<exists>q. get_pe i s = Inr q \<and> traffic_list q = traffic_list p \<and>
     cur_traffic q = cur_traffic p \<and> cache_line_size q = cache_line_size p)"

lemma position_globals [simp]:
  "position i p (s\<lparr>rdy_sync_list := r\<rparr>) = position i p s" "position i p (s\<lparr>broadcast_issuer := x\<rparr>) = position i p s"
  "position i p (s\<lparr>next_req := k\<rparr>) = position i p s"
  by (simp_all add: position_def)

lemma position_put:
  assumes "position i p s" and "get_pe j s = Inr q"
    and "traffic_list q' = traffic_list q" "cur_traffic q' = cur_traffic q" "cache_line_size q' = cache_line_size q"
  shows "position i p (put_pe j q' s)"
  using assms by (cases "i = j") (auto simp: position_def get_pe_def put_pe_def vec_at_def split: if_splits)

lemma position_schedule:
  assumes "position i p s"
  shows "safeE (schedule_operate j u s) (position i p)" "safeE (schedule_send j u s) (position i p)"
  unfolding schedule_operate_def schedule_send_def
  by (cases "get_pe j s"; auto intro!: position_put [OF assms])+

lemma advance_work:
  assumes pos: "position i p s" and cur: "unat (cur_traffic p + 1) = unat (cur_traffic p) + 1"
    and lt: "unat (cur_traffic p) < length (traffic_list p)"
    and le: "work n s \<le> w + 1 + (2 * n + 2) * num_lines p (traffic_list p ! unat (cur_traffic p))"
  shows "safeE (bindE (get_pe i s) (\<lambda>p. Inr (put_pe i (p\<lparr>cur_traffic := cur_traffic p + 1\<rparr>) s))) (\<lambda>s'. work n s' \<le> w)"
proof -
  obtain q where q: "get_pe i s = Inr q" "traffic_list q = traffic_list p" "cur_traffic q = cur_traffic p"
    "cache_line_size q = cache_line_size p" using pos by (auto simp: position_def)
  let ?t = "traffic_list p ! unat (cur_traffic p)"
  have "records_left q = ?t # records_left (q\<lparr>cur_traffic := cur_traffic q + 1\<rparr>)"
    using lt cur by (simp add: records_left_def q Cons_nth_drop_Suc)
  then have "pe_work n (q\<lparr>cur_traffic := cur_traffic q + 1\<rparr>) + (1 + (2 * n + 2) * num_lines p ?t) = pe_work n q"
    using num_lines_cong [OF q(4)] by (simp add: pe_work_def)
  then show ?thesis using work_put [OF q(1), of n "q\<lparr>cur_traffic := cur_traffic q + 1\<rparr>"] le q(1) by simp
qed

lemma issue_work:
  assumes i: "i < length (pes s)" and line: "cache_line_size (pes s ! i) \<noteq> 0" and n: "num_lines (pes s ! i) t < 2 ^ 31"
  shows "okE (issue_packets i t s) (\<lambda>s'. position i (pes s ! i) s' \<and>
     work n s' = work n s + (2 * n + 2) * num_lines (pes s ! i) t)"
proof -
  let ?p = "pes s ! i"
  let ?q = "queue_packets (pt_type t = pt_READ) (map (line_packet ?p t (next_req s)) [0..<num_lines ?p t]) ?p"
  have g: "get_pe i s = Inr ?p" using i by (simp add: get_pe_def vec_at_def)
  have "pe_work n ?q = pe_work n ?p + (2 * n + 2) * num_lines ?p t"
    by (simp add: queue_packets_def pe_work_def records_left_def algebra_simps)
  then have "work n (put_pe i ?q s) = work n s + (2 * n + 2) * num_lines ?p t"
    using work_put [OF g, of n ?q] by simp
  moreover have "position i ?p (put_pe i ?q s)"
    using i by (simp add: position_def get_pe_def put_pe_def vec_at_def queue_packets_def)
  ultimately have "okE (Inr ((put_pe i ?q s)\<lparr>next_req := next_req s + num_lines ?p t\<rparr>)) (\<lambda>s'. position i ?p s' \<and>
     work n s' = work n s + (2 * n + 2) * num_lines ?p t)" by simp
  then show ?thesis
    unfolding issue_packets_exact [OF i refl line n] by (simp only: put_pe_def)
qed

lemma safeE_conj: "safeE m P \<Longrightarrow> safeE m Q \<Longrightarrow> safeE m (\<lambda>x. P x \<and> Q x)"
  by (cases m) auto

definition within :: "pe_ptr \<Rightarrow> pe \<Rightarrow> nat \<Rightarrow> nat \<Rightarrow> pe_system \<Rightarrow> bool" where
  "within i p n w s \<longleftrightarrow> position i p s \<and> work n s \<le> w"

lemma within_globals [simp]:
  "within i p n w (s\<lparr>rdy_sync_list := r\<rparr>) = within i p n w s" "within i p n w (s\<lparr>broadcast_issuer := x\<rparr>) = within i p n w s"
  by (simp_all add: within_def)

lemma within_schedule:
  assumes "within i p n w s"
  shows "safeE (schedule_operate j u s) (within i p n (w + 1))" "safeE (schedule_send j u s) (within i p n w)"
proof -
  have s: "position i p s" "work n s \<le> w" using assms by (simp_all add: within_def)
  show "safeE (schedule_operate j u s) (within i p n (w + 1))"
    by (rule safeE_mono [OF safeE_conj [OF position_schedule(1) [OF s(1)] schedule_work(1) [of _ _ _ n]]])
      (use s in \<open>simp add: within_def\<close>)
  show "safeE (schedule_send j u s) (within i p n w)"
    by (rule safeE_mono [OF safeE_conj [OF position_schedule(2) [OF s(1)] schedule_work(2) [of _ _ _ n]]])
      (use s in \<open>simp add: within_def\<close>)
qed

lemma within_mono: "w \<le> w' \<Longrightarrow> within i p n w s \<Longrightarrow> within i p n w' s"
  by (simp add: within_def)

text \<open>The part of \<open>operateTraffic\<close> before \<open>cur_traffic++\<close>.\<close>

lemma body_work:
  assumes i: "i < length (pes s)" and w: "work n s + 1 \<le> W"
    and issue: "transfer t \<Longrightarrow> safeE (issue_packets i t s) (within i (pes s ! i) n W)"
  shows "safeE (if pt_type t = pt_COMPUTE then schedule_operate i (curTick s + getComputeTime) s
          else if pt_type t = pt_SYNC then
            let s = s\<lparr>rdy_sync_list := List.insert i (rdy_sync_list s)\<rparr>
            in if length (rdy_sync_list s) = length (pe_list s) then
                 case broadcast_issuer s of
                   None \<Rightarrow> Inl (AssertFail ''broadcast_issuer'')
                 | Some j \<Rightarrow> sendBroadcast j s
               else Inr s
          else
            bindE (issue_packets i t s) (\<lambda>s.
            if pt_response t = pt_BROADCAST then waitSync i s
            else schedule_send i (curTick s + 1) s)) (within i (pes s ! i) n W)"
proof -
  let ?W = "within i (pes s ! i) n W"
  have s: "within i (pes s ! i) n (work n s) s" using i by (simp add: within_def position_def get_pe_def vec_at_def)
  have s1: "?W s" by (rule within_mono [OF _ s]) (use w in simp)
  have op: "safeE (schedule_operate i u s) ?W" for u
    by (rule safeE_mono [OF within_schedule(1) [OF s]]) (rule within_mono [OF w])
  have wait: "safeE (waitSync i s') ?W" if "?W s'" for s'
    using that unfolding waitSync_def sendBroadcast_def by (simp add: Let_def within_schedule)
  have "safeE (bindE (issue_packets i t s) (\<lambda>s. if pt_response t = pt_BROADCAST then waitSync i s
            else schedule_send i (curTick s + 1) s)) ?W" if "transfer t"
    unfolding safeE_bindE by (rule safeE_mono [OF issue [OF that]]) (simp add: wait within_schedule)
  then show ?thesis
    using s1 op by (simp add: Let_def sendBroadcast_def transfer_def within_schedule split: option.split)
qed

lemma operate_work:
  assumes i: "i < length (pes s)" and core: "pe_core mem B K i False alive now (pes s ! i)"
  shows "safeE (operateTraffic i s) (\<lambda>s'. work n s' \<le> work n s)"
proof (cases "no_more_traffic (pes s ! i)")
  case True
  then show ?thesis using i by (simp add: operateTraffic_def get_pe_def vec_at_def retire_def Let_def)
next
  case False
  let ?p = "pes s ! i"
  let ?t = "traffic_list ?p ! unat (cur_traffic ?p)"
  let ?d = "(2 * n + 2) * num_lines ?p ?t"
  note r = next_record [OF core False]
  have lt: "unat (cur_traffic ?p) < length (traffic_list ?p)" using False by (simp add: no_more_traffic_def)
  have issue: "safeE (issue_packets i ?t s) (within i ?p n (work n s + 1 + ?d))" if "transfer ?t"
    using issue_work [OF i r(4), of ?t n] r(3) [OF that] by (auto simp: okE_iff safeE_iff lines_ok_def within_def)
  have adv: "safeE (bindE (get_pe i s') (\<lambda>p. Inr (put_pe i (p\<lparr>cur_traffic := cur_traffic p + 1\<rparr>) s'))) (\<lambda>s'. work n s' \<le> work n s)"
    if "within i ?p n (work n s + 1 + ?d) s'" for s'
    using that unfolding within_def by (intro advance_work [OF _ r(5) lt]) blast+
  have get: "get_pe i s = Inr ?p" using i by (simp add: get_pe_def vec_at_def)
  show ?thesis
    unfolding operateTraffic_def get bindE.simps if_not_P [OF False] Let_def [of ?t]
    unfolding safeE_bindE [of "if _ then _ else _"]
    by (rule safeE_mono [OF body_work [OF i le_add1 issue] adv])
qed

section \<open>Runs in which every packet is accepted\<close>

fun accepting :: "action \<Rightarrow> bool" where
  "accepting (Operate i) = True"
| "accepting (Send i acc) = acc"
| "accepting (Response i pkt t) = True"
| "accepting (Retry i t) = False"

inductive steps :: "(u64 \<Rightarrow> bool) \<Rightarrow> config \<Rightarrow> action list \<Rightarrow> config \<Rightarrow> bool" for mem c0 where
  nil: "steps mem c0 [] c0"
| snoc: "steps mem c0 as c \<Longrightarrow> enabled a c \<Longrightarrow> perform mem a c = Inr c' \<Longrightarrow> steps mem c0 (as @ [a]) c'"

lemma steps_reachable: "steps mem c0 as c \<Longrightarrow> reachable mem c0 c"
  by (induction rule: steps.induct) (auto intro: reachable.intros)

lemma pe_list_bound:
  assumes g: "globals_ok B K s"
  shows "length (pe_list s) \<le> length (pes s)" "1 \<le> length (pes s)"
proof -
  have "card (alive_set s) \<le> card {..<length (pes s)}"
    using globalsD(1) [OF g] by (intro card_mono) auto
  then show "length (pe_list s) \<le> length (pes s)"
    using distinct_card [OF globalsD(5) [OF g]] by simp
  show "1 \<le> length (pes s)" using globalsD(11) [OF g] by (cases "pes s") auto
qed

lemma action_work:
  assumes inv: "config_inv mem B K (s, b)" and en: "enabled a (s, b)" and acc: "accepting a"
    and run: "perform mem a (s, b) = Inr (s', b')"
  shows "work (length (pes s)) s' < work (length (pes s)) s \<and> b' = b"
proof -
  let ?n = "length (pes s)"
  have g: "globals_ok B K s" using inv by (simp add: config_inv_def)
  show ?thesis
  proof (cases a)
    case (Operate i)
    then obtain t where i: "i < length (pes s)" and t: "operateNextEvent (pes s ! i) = Some t" using en by auto
    let ?p = "pes s ! i" and ?s0 = "put_pe i ((pes s ! i)\<lparr>operateNextEvent := None\<rparr>) (s\<lparr>curTick := t\<rparr>)"
    have get: "get_pe i s = Inr ?p" using i by (simp add: get_pe_def vec_at_def)
    have "pe_work ?n (?p\<lparr>operateNextEvent := None\<rparr>) + 1 = pe_work ?n ?p"
      using t by (simp add: pe_work_def records_left_def)
    then have w0: "work ?n ?s0 + 1 = work ?n s"
      using work_put [of i "s\<lparr>curTick := t\<rparr>" ?p ?n "?p\<lparr>operateNextEvent := None\<rparr>"] get by simp
    have "pe_core mem B K i False (i \<in> alive_set s) (curTick s) (pes ?s0 ! i)"
      using pe_core_events [OF operate_situation(8) [OF inv i t] order_refl, of "?p\<lparr>operateNextEvent := None\<rparr>"] i
      by (simp add: put_pe_def)
    then have "safeE (operateTraffic i ?s0) (\<lambda>s'. work ?n s' \<le> work ?n ?s0)"
      using i by (intro operate_work) (simp_all add: put_pe_def)
    then show ?thesis
      using run get t w0 unfolding Operate by (cases "operateTraffic i ?s0") auto
  next
    case (Send i ac)
    then obtain t where i: "i < length (pes s)" and t: "scheduleReqEvent (pes s ! i) = Some t" using en by auto
    let ?p = "pes s ! i" and ?s0 = "put_pe i ((pes s ! i)\<lparr>scheduleReqEvent := None\<rparr>) (s\<lparr>curTick := t\<rparr>)"
    have get: "get_pe i s = Inr ?p" using i by (simp add: get_pe_def vec_at_def)
    have "pe_work ?n (?p\<lparr>scheduleReqEvent := None\<rparr>) = pe_work ?n ?p"
      by (simp add: pe_work_def records_left_def)
    then have w0: "work ?n ?s0 = work ?n s"
      using work_put [of i "s\<lparr>curTick := t\<rparr>" ?p ?n "?p\<lparr>scheduleReqEvent := None\<rparr>"] get by simp
    note pinv = config_invD(1) [OF inv i]
    have "phase_of (i = 0) (i \<in> set (rdy_sync_list s)) (sync_full s) (i \<in> b) (i \<in> alive_set s)
        (operateNextEvent ?p \<noteq> None) True (waitingSend_read ?p \<noteq> [])
        (waitingSend_write ?p \<noteq> []) (waitingResp_read ?p \<noteq> []) (waitingResp_write ?p \<noteq> []) (\<not> no_more_traffic ?p)"
      using pe_invD(2) [OF pinv] t by (simp add: phase_def)
    from phase_of_send(3) [OF this] have q: "waitingSend ?p \<noteq> []" by (auto simp: waitingSend_def)
    have "mem (pk_addr (hd (waitingSend ?p)))"
      using pe_coreD(6) [OF pe_invD(1) [OF pinv]] hd_in_set [OF q] by (auto simp: packets_ok_def waitingSend_def split: if_splits)
    then have "safeE (scheduleReq mem True i ?s0) (\<lambda>s'. work ?n s' < work ?n ?s0)"
      using pe_list_bound [OF g] get q
      by (intro send_work [OF get_put [of i "s\<lparr>curTick := t\<rparr>" ?p]]) (simp_all add: put_pe_def)
    then show ?thesis
      using run get t w0 acc unfolding Send by (cases "scheduleReq mem True i ?s0") auto
  next
    case (Response i pkt t)
    then show ?thesis
      using run response_work [of i pkt "s\<lparr>curTick := t\<rparr>" ?n] by (cases "recvTimingResp i pkt (s\<lparr>curTick := t\<rparr>)") auto
  qed (use acc in simp)
qed

lemma accepted_work:
  assumes r: "ready_system mem B s0" and "steps mem (s0, {}) as c" and "\<forall>a \<in> set as. accepting a"
  shows "length as + work (length (pes s0)) (fst c) \<le> work (length (pes s0)) s0 \<and> snd c = {}"
  using assms(2,3)
proof (induction rule: steps.induct)
  case (snoc as c a c')
  obtain s b s' b' where c: "c = (s, b)" "c' = (s', b')" by (cases c; cases c')
  obtain K T where K: "config_inv mem B K (s, b)" and n: "length (pes s) = length (pes s0)"
    using reachable_inv [OF r steps_reachable [OF snoc.hyps(1)]] by (auto simp: timed_def c)
  have "work (length (pes s0)) s' < work (length (pes s0)) s \<and> b' = b"
    using action_work [OF K] snoc.hyps(2,3) snoc.prems n by (simp add: c)
  then show ?case using snoc.IH snoc.prems by (simp add: c)
qed simp

lemma accepting_enabled:
  assumes inv: "config_inv mem B K (s, {})" and T: "timed n T s" and ne: "pe_list s \<noteq> []"
  shows "\<exists>a. accepting a \<and> enabled a (s, {})"
proof -
  obtain a where a: "enabled a (s, {})" using inv_not_stuck [OF inv T ne] ..
  have "accepting a \<or> (\<exists>i. a = Send i False)"
    using a by (cases a) auto
  then show ?thesis using a by (metis accepting.simps(2) enabled_event(2))
qed

section \<open>Properties of the system of processing elements\<close>

text \<open>
  C2. From a start in which every element is idle, has well-formed traffic and all elements have
  the same number of barriers, no handler ever fails: in every reachable configuration, every
  enabled action (an event firing in tick order, a packet accepted or rejected, a response to an
  outstanding request, a retry after a rejection) runs without a failed assertion, panic, double
  scheduling of an event, use of a freed packet or out-of-range access.  The one exception is an
  action within a compute time (100) of the last 64-bit tick: there the sum of the current tick and a
  delay may wrap, and the event queue's assertion on the scheduled tick fails.
\<close>

theorem pe_system_safe:
  assumes "ready_system mem B s0" and "reachable mem (s0, {}) c" and "enabled a c"
  shows "(\<exists>c'. perform mem a c = Inr c') \<or>
     2 ^ 64 \<le> unat (tick_of a c) + 100 \<and> perform mem a c = Inl (AssertFail ''when >= getCurTick()'')"
proof -
  obtain K where "config_inv mem B K c" using reachable_inv [OF assms(1,2)] by blast
  from step_ok [OF this assms(3)] show ?thesis
    by (auto simp: unless_late_def no_wrap_iff dest: okE_returns)
qed

text \<open>
  C4. The system never deadlocks: as long as some element is still listed, an event is due, a
  response is outstanding or a rejected packet can be retried.
\<close>

theorem pe_system_not_stuck:
  assumes "ready_system mem B s0" and "reachable mem (s0, {}) c" and "pe_list (fst c) \<noteq> []"
  shows "\<exists>a. enabled a c"
proof -
  obtain s b where c: "c = (s, b)" by (cases c)
  obtain K T where "config_inv mem B K c" "timed (length (pes s0)) T (fst c)" using reachable_inv [OF assms(1,2)] by blast
  then show ?thesis using inv_not_stuck assms(3) unfolding c by simp
qed

text \<open>
  C5. The simulation exits only when all work is done: every element has issued all its records,
  has sent every packet and has received every response.
\<close>

theorem pe_exit_complete:
  assumes "ready_system mem B s0" and "reachable mem (s0, {}) (s, b)" and "sim_exit s" and "p \<in> set (pes s)"
  shows "no_more_traffic p \<and> waitingSend_read p = [] \<and> waitingSend_write p = [] \<and>
     waitingResp_read p = [] \<and> waitingResp_write p = []"
proof -
  obtain K where inv: "config_inv mem B K (s, b)" using reachable_inv [OF assms(1,2)] by blast
  obtain i where "i < length (pes s)" "pes s ! i = p" using assms(4) by (auto simp: in_set_conv_nth)
  with inv_exit [OF inv assms(3)] show ?thesis by (auto simp: retired_ok_def)
qed


text \<open>A system of two elements: the first broadcasts a line, the second waits for it, computes and writes.\<close>

definition demo_record :: "int \<Rightarrow> u64 \<Rightarrow> u64 \<Rightarrow> int \<Rightarrow> pe_traffic" where
  "demo_record ty a sz resp =
     \<lparr>pt_type = ty, pt_src = (0, 0), pt_dest = (0, 0), pt_addr = a, pt_size = sz, pt_request = 0, pt_response = resp\<rparr>"

definition demo_element :: "u32 \<Rightarrow> pe_traffic list \<Rightarrow> pe" where
  "demo_element y l =
     \<lparr>pe_x = 0, pe_y = y, block_size = 64, cache_line_size = 64, global_mem_size = 2 ^ 30,
      local_mem_offset = 0, operateNextEvent = Some 1, scheduleReqEvent = None, waitingSend_read = [],
      waitingSend_write = [], retryPktTick = 0, waitingResp_read = [], waitingResp_write = [],
      stats = empty_stats, traffic_list = l, cur_traffic = 0\<rparr>"

definition demo_system :: pe_system where
  "demo_system =
     \<lparr>pes = [demo_element 0 [demo_record pt_READ 0 64 pt_BROADCAST],
             demo_element 1 [demo_record pt_SYNC 0 0 0, demo_record pt_COMPUTE 0 0 0, demo_record pt_WRITE 128 100 0]],
      pe_list = [(''0,0'', 0), (''0,1'', 1)], rdy_sync_list = [], broadcast_issuer = None, curTick = 0,
      next_req = 0, sim_exit = False\<rparr>"

lemma demo_lines:
  "num_lines (demo_element y l) (demo_record pt_READ 0 64 pt_BROADCAST) = 1"
  "num_lines (demo_element y l) (demo_record pt_WRITE 128 100 0) = 1"
  by (simp_all add: num_lines_def transfer_size_def demo_element_def demo_record_def)

lemma demo_coordinates: "map getCoordinate (pes demo_system) = [''0,0'', ''0,1'']"
  by (simp add: demo_system_def demo_element_def getCoordinate_def, code_simp)

lemma demo_ready: "ready_system (\<lambda>_. True) 1 demo_system"
proof -
  have pos: "i = 0 \<or> i = 1" if "i < length (pes demo_system)" for i
    using that by (auto simp: demo_system_def)
  have fields: "cache_line_size (demo_element y l) = 64" "traffic_list (demo_element y l) = l"
    "idle_pe (demo_element y l)" "operateNextEvent (demo_element y l) = Some 1" for y l
    by (simp_all add: demo_element_def idle_pe_def)
  have rec: "pt_type (demo_record ty a sz r) = ty" "pt_response (demo_record ty a sz r) = r" for ty a sz r
    by (simp_all add: demo_record_def)
  have "traffic_ok (\<lambda>_. True) i (pes demo_system ! i) \<and> bars (pes demo_system ! i) (length (traffic_list (pes demo_system ! i))) = 1 \<and>
      idle_pe (pes demo_system ! i) \<and> operateNextEvent (pes demo_system ! i) = Some 1" if "i < length (pes demo_system)" for i
    using pos [OF that]
    by (auto simp: demo_system_def traffic_ok_def wf_record_def lines_ok_def transfer_def bars_def pt_barrier_def
        fields rec demo_lines)
  then show ?thesis
    unfolding ready_system_def demo_coordinates
    by (auto simp: demo_system_def)
qed

fun run_actions :: "(u64 \<Rightarrow> bool) \<Rightarrow> action list \<Rightarrow> config \<Rightarrow> config option" where
  "run_actions mem [] c = Some c"
| "run_actions mem (a # as) c =
     (if enabled a c then case perform mem a c of Inl _ \<Rightarrow> None | Inr c' \<Rightarrow> run_actions mem as c' else None)"

lemma run_actions_steps:
  "run_actions mem as c = Some c' \<Longrightarrow> steps mem c0 bs c \<Longrightarrow> steps mem c0 (bs @ as) c'"
proof (induction as arbitrary: bs c)
  case (Cons a as)
  then obtain c1 where "enabled a c" "perform mem a c = Inr c1" "run_actions mem as c1 = Some c'"
    by (auto split: if_splits sum.splits)
  then show ?case using Cons.IH [of c1 "bs @ [a]"] Cons.prems(2) by (simp add: steps.snoc)
qed simp

definition demo_answer :: "req_ptr \<Rightarrow> bool \<Rightarrow> pe_packet" where
  "demo_answer r rd = \<lparr>pk_req = r, pk_addr = 0, pk_size = 64, pk_read = rd, pk_broadcast = False, pk_freed = False\<rparr>"

definition demo_run :: "action list" where
  "demo_run = [Operate 0, Operate 1, Send 0 True, Response 0 (demo_answer 0 True) 2, Response 1 (demo_answer 0 True) 3,
     Operate 0, Operate 1, Operate 1, Send 1 True, Operate 1, Response 1 (demo_answer 1 False) 200]"

lemma demo_exit: "\<exists>s. run_actions (\<lambda>_. True) demo_run (demo_system, {}) = Some (s, {}) \<and> sim_exit s \<and> pes s \<noteq> []"
proof -
  have "map_option (\<lambda>(s, b). (sim_exit s, pes s \<noteq> [], b \<subseteq> {})) (run_actions (\<lambda>_. True) demo_run (demo_system, {})) = Some (True, True, True)"
    by code_simp
  then show ?thesis by auto
qed

lemma demo_start: "enabled (Operate 0) (demo_system, {})" "pe_list demo_system \<noteq> []"
  by code_simp+

theorem pe_system_safe_witness: "\<exists>c'. perform (\<lambda>_. True) (Operate 0) (demo_system, {}) = Inr c'"
  using pe_system_safe [OF demo_ready reachable.init demo_start(1)]
  by (simp add: demo_system_def demo_element_def)

theorem pe_system_not_stuck_witness: "\<exists>a. enabled a (demo_system, {})"
  by (rule pe_system_not_stuck [OF demo_ready reachable.init]) (simp add: demo_start)

theorem pe_exit_complete_witness:
  "\<exists>s. reachable (\<lambda>_. True) (demo_system, {}) (s, {}) \<and> sim_exit s \<and> pes s \<noteq> [] \<and> no_more_traffic (hd (pes s)) \<and>
     waitingSend_read (hd (pes s)) = [] \<and> waitingSend_write (hd (pes s)) = [] \<and>
     waitingResp_read (hd (pes s)) = [] \<and> waitingResp_write (hd (pes s)) = []"
proof -
  obtain s where s: "run_actions (\<lambda>_. True) demo_run (demo_system, {}) = Some (s, {})" "sim_exit s" "pes s \<noteq> []"
    using demo_exit by blast
  have r: "reachable (\<lambda>_. True) (demo_system, {}) (s, {})"
    using run_actions_steps [OF s(1) steps.nil] by (rule steps_reachable)
  from pe_exit_complete [OF demo_ready r s(2) hd_in_set [OF s(3)]] r s(2,3) show ?thesis by blast
qed


end
