(* ===== verification/PE_Packets.thy ===== *)
theory PE_Packets
  imports PE_Term
begin

text \<open>
  The cache lines a transfer is cut into (\<open>PE::operateTraffic\<close>): which bytes the packets of one
  traffic record reach, at the widths of the code, and which bytes of the record they miss.
\<close>

section \<open>The range of a transfer\<close>

definition packet_bytes :: "pe_packet \<Rightarrow> nat set" where
  "packet_bytes pk = {unat (pk_addr pk) ..< unat (pk_addr pk) + unat (pk_size pk)}"

text \<open>A record that neither the 32-bit size nor the 64-bit address cuts off.\<close>

definition transfer_fits :: "pe \<Rightarrow> pe_traffic \<Rightarrow> bool" where
  "transfer_fits p t \<longleftrightarrow> cache_line_size p \<noteq> 0 \<and>
     max (unat (pt_size t)) (unat (cache_line_size p)) + unat (cache_line_size p) < 2 ^ 31 \<and>
     unat (pt_addr t) + max (unat (pt_size t)) (unat (cache_line_size p)) < 2 ^ 64"

lemma unat_ucast_small: "unat (x :: u64) < 2 ^ 32 \<Longrightarrow> unat (ucast x :: u32) = unat x"
  by (simp add: unsigned_ucast_eq take_bit_nat_eq_self)

lemma unat_ucast_wide: "unat (ucast (x :: u32) :: u64) = unat x"
  using unsigned_less [of x, where ?'a = nat] by (simp add: unsigned_ucast_eq take_bit_nat_eq_self)

lemma transfer_size_exact:
  assumes "transfer_fits p t"
  shows "unat (transfer_size p t) =
     max (unat (pt_size t)) (unat (cache_line_size p)) + unat (pt_addr t) mod unat (cache_line_size p)"
proof -
  let ?L = "unat (cache_line_size p)" and ?n = "unat (pt_size t)" and ?o = "unat (pt_addr t) mod unat (cache_line_size p)"
  have L: "0 < ?L" "max ?n ?L + ?L < 2 ^ 31" using assms by (simp_all add: transfer_fits_def unat_gt_0)
  have o: "?o < ?L" using L(1) by simp
  let ?sz = "(if pt_size t \<le> cache_line_size p then ucast (cache_line_size p) else ucast (pt_size t)) :: u32"
  have sz: "unat ?sz = max ?n ?L"
    using L(2) by (auto simp: unat_ucast_small word_le_nat_alt max_def)
  have om: "unat (ucast (pt_addr t mod cache_line_size p) :: u32) = ?o"
    using o L(2) by (subst unat_ucast_small) (auto simp: unat_mod_distrib)
  have sum: "unat (?sz + ucast (pt_addr t mod cache_line_size p)) = max ?n ?L + ?o"
    using sz om o L(2) by (subst unat_add_lem [THEN iffD1]) (auto simp del: max_less_iff_conj)
  have "?o = 0" if "pt_addr t mod cache_line_size p = 0"
    using that by (metis unat_0 unat_mod_distrib)
  then show ?thesis unfolding transfer_size_def Let_def using sum sz by (cases "pt_addr t mod cache_line_size p = 0") simp_all
qed

lemma transfer_base_exact:
  "unat (transfer_base p t) = unat (pt_addr t) - unat (pt_addr t) mod unat (cache_line_size p)"
  unfolding transfer_base_def
  by (subst unat_sub) (auto simp: unat_mod_distrib word_le_nat_alt)

lemma num_lines_exact:
  assumes "transfer_fits p t"
  shows "num_lines p t = (max (unat (pt_size t)) (unat (cache_line_size p)) + unat (pt_addr t) mod unat (cache_line_size p)) div unat (cache_line_size p)"
  using transfer_size_exact [OF assms] by (simp add: num_lines_def unat_div_distrib unat_ucast_wide)

section \<open>The packets\<close>

lemma lines_union: "(\<Union>k<m. {b + k * L ..< b + k * L + L}) = {b ..< b + m * (L :: nat)}"
proof (induction m)
  case (Suc m)
  have "(\<Union>k<Suc m. {b + k * L ..< b + k * L + L}) = {b ..< b + m * L} \<union> {b + m * L ..< b + m * L + L}"
    using Suc.IH by (simp add: lessThan_Suc Un_commute)
  also have "\<dots> = {b ..< b + m * L + L}" by (rule ivl_disj_un_two) simp_all
  finally show ?case by (simp add: algebra_simps)
qed simp

lemma line_packet_bytes:
  assumes "transfer_fits p t" and "k < num_lines p t"
  defines "L \<equiv> unat (cache_line_size p)" and "a \<equiv> unat (pt_addr t)"
  shows "packet_bytes (line_packet p t r k) = {a - a mod L + k * L ..< a - a mod L + k * L + L}"
proof -
  let ?n = "max (unat (pt_size t)) L"
  have L: "0 < L" "?n + L < 2 ^ 31" "a + ?n < 2 ^ 64"
    using assms(1) by (simp_all add: transfer_fits_def unat_gt_0 L_def a_def)
  have "k * L + L \<le> ?n + a mod L"
    using assms(2) num_lines_exact [OF assms(1)] L(1) by (simp add: L_def a_def less_eq_div_iff_mult_less_eq Suc_le_eq [symmetric] add.commute)
  moreover have "a mod L \<le> a" "a mod L < L" using L(1) by simp_all
  moreover have "k \<le> k * L" using L(1) by simp
  ultimately have "a - a mod L + k * L < 2 ^ 64" "k * L < 2 ^ 64" "k < 2 ^ 64" using L by linarith+
  then have "unat (transfer_base p t + of_nat k * cache_line_size p) = a - a mod L + k * L"
    using L(1) by (simp add: transfer_base_exact unat_word_ariths L_def a_def unat_of_nat)
  then show ?thesis using L(2) by (simp add: packet_bytes_def line_packet_def unat_ucast_small L_def)
qed

lemma ivl_line:
  assumes "{x ..< x + l} = {y ..< y + L}" and "0 < (L :: nat)"
  shows "x = y \<and> l = L"
proof -
  have "y \<in> {x ..< x + l}" using assms by simp
  then have "0 < l" by simp
  then show ?thesis using assms by (simp add: atLeastLessThan_eq_iff)
qed

lemma base_dvd: "(L :: nat) dvd a - a mod L + k * L"
  by (rule dvd_add [OF dvd_minus_mod dvd_triv_right])

lemma covered_iff:
  assumes "0 < (L :: nat)"
  shows "{a ..< a + n} \<subseteq> {a - a mod L ..< a - a mod L + (max n L + a mod L) div L * L} \<longleftrightarrow>
     a mod L + n \<le> L \<or> L < n \<and> L dvd a + n"
proof -
  let ?o = "a mod L"
  have o: "?o < L" "?o \<le> a" using assms by simp_all
  have "{a ..< a + n} \<subseteq> {a - ?o ..< a - ?o + (max n L + ?o) div L * L} \<longleftrightarrow> n = 0 \<or> n + ?o \<le> (max n L + ?o) div L * L"
    using o(2) by (auto simp: ivl_subset)
  also have "\<dots> \<longleftrightarrow> ?o + n \<le> L \<or> L < n \<and> L dvd a + n"
  proof (cases "L < n")
    case True
    have "n + ?o \<le> (n + ?o) div L * L \<longleftrightarrow> L dvd n + ?o"
      by (metis div_times_less_eq_dividend dvd_div_mult_self dvd_triv_right le_antisym order_refl)
    moreover have "L dvd n + ?o \<longleftrightarrow> L dvd a + n" by (simp add: dvd_eq_mod_eq_0 mod_add_right_eq add.commute)
    ultimately show ?thesis using True by (auto simp: max_def)
  next
    case False
    have "(L + ?o) div L = 1" using o(1) assms by (simp add: div_add_self1)
    then show ?thesis using False o(1) by (auto simp: max_def)
  qed
  finally show ?thesis .
qed

text \<open>
  C38. A transfer becomes packets of one cache line each, aligned to lines, which cover
  exactly the lines from the one of the first byte on; the whole record is covered exactly when it lies within
  one line, or is longer than a line and ends at the end of a line.  Otherwise the last bytes are never
  transferred.
\<close>

theorem packets_cover:
  assumes "i < length (pes s)" and "transfer_fits (pes s ! i) t"
  shows "\<exists>pks s'. issue_packets i t s = Inr s' \<and> pes s' = (pes s)[i := queue_packets (pt_type t = pt_READ) pks (pes s ! i)] \<and>
     (let L = unat (cache_line_size (pes s ! i)); a = unat (pt_addr t); n = unat (pt_size t);
          covered = (\<Union>pk \<in> set pks. packet_bytes pk)
      in (\<forall>pk \<in> set pks. L dvd unat (pk_addr pk) \<and> unat (pk_size pk) = L) \<and>
         covered = {a - a mod L ..< a - a mod L + (max n L + a mod L) div L * L} \<and>
         ({a ..< a + n} \<subseteq> covered \<longleftrightarrow> a mod L + n \<le> L \<or> L < n \<and> L dvd a + n))"
proof -
  let ?p = "pes s ! i"
  define L where "L = unat (cache_line_size ?p)"
  define a where "a = unat (pt_addr t)"
  define n where "n = unat (pt_size t)"
  define m where "m = (max n L + a mod L) div L"
  let ?pks = "map (line_packet ?p t (next_req s)) [0..<m]"
  have L: "0 < L" "max n L + L < 2 ^ 31" using assms(2) by (simp_all add: transfer_fits_def unat_gt_0 L_def n_def)
  have m: "num_lines ?p t = m" using num_lines_exact [OF assms(2)] by (simp add: m_def L_def a_def n_def)
  have "m \<le> max n L + a mod L" by (simp add: m_def)
  moreover have "a mod L < L" using L(1) by simp
  ultimately have "m < 2 ^ 31" using L(2) by linarith
  then have iss: "issue_packets i t s = Inr (s\<lparr>pes := (pes s)[i := queue_packets (pt_type t = pt_READ) ?pks ?p], next_req := next_req s + m\<rparr>)"
    using issue_packets_exact [OF assms(1) refl, of t] assms(2) by (simp add: m transfer_fits_def)
  have bytes: "packet_bytes (line_packet ?p t r k) = {a - a mod L + k * L ..< a - a mod L + k * L + L}" if "k < m" for r k
    using line_packet_bytes [OF assms(2)] that m by (simp add: L_def a_def)
  then have "(\<Union>pk \<in> set ?pks. packet_bytes pk) = (\<Union>k<m. {a - a mod L + k * L ..< a - a mod L + k * L + L})"
    by (simp add: atLeast0LessThan)
  then have cov: "(\<Union>pk \<in> set ?pks. packet_bytes pk) = {a - a mod L ..< a - a mod L + m * L}"
    by (simp only: lines_union)
  have al: "L dvd unat (pk_addr pk) \<and> unat (pk_size pk) = L" if pk: "pk \<in> set ?pks" for pk
  proof -
    obtain k where "k < m" "pk = line_packet ?p t (next_req s) k" using pk by auto
    then have "unat (pk_addr pk) = a - a mod L + k * L \<and> unat (pk_size pk) = L"
      using bytes [of k "next_req s"] by (intro ivl_line [OF _ L(1)]) (simp add: packet_bytes_def)
    then show ?thesis using base_dvd [of L a k] by metis
  qed
  have all: "{a ..< a + n} \<subseteq> (\<Union>pk \<in> set ?pks. packet_bytes pk) \<longleftrightarrow> a mod L + n \<le> L \<or> L < n \<and> L dvd a + n"
    unfolding cov by (rule covered_iff [OF L(1), of a n, folded m_def])
  show ?thesis
    unfolding Let_def L_def [symmetric] a_def [symmetric] n_def [symmetric] m_def [symmetric]
  proof (intro exI conjI)
    show "issue_packets i t s = Inr (s\<lparr>pes := (pes s)[i := queue_packets (pt_type t = pt_READ) ?pks ?p], next_req := next_req s + m\<rparr>)"
      by (rule iss)
  qed (simp, use al in blast, rule cov, rule all)
qed

text \<open>A transfer of 100 bytes from address 70 with lines of 64 bytes: one packet is sent and 42 bytes are missed.\<close>

theorem packets_cover_witness:
  "\<exists>pks s'. issue_packets 1 (demo_record pt_WRITE 70 100 0) demo_system = Inr s' \<and>
     (\<Union>pk \<in> set pks. packet_bytes pk) = {64 ..< 128} \<and> \<not> {70 ..< 170} \<subseteq> {64 ..< 128 :: nat}"
proof -
  have i: "1 < length (pes demo_system)" by (simp add: demo_system_def)
  have f: "transfer_fits (pes demo_system ! 1) (demo_record pt_WRITE 70 100 0)"
    by (simp add: transfer_fits_def demo_system_def demo_element_def demo_record_def)
  have v: "unat (cache_line_size (pes demo_system ! 1)) = 64" "unat (pt_addr (demo_record pt_WRITE 70 100 0)) = 70"
    "unat (pt_size (demo_record pt_WRITE 70 100 0)) = 100"
    by (simp_all add: demo_system_def demo_element_def demo_record_def)
  show ?thesis using packets_cover [OF i f, unfolded Let_def v] by (elim exE conjE) (intro exI conjI, assumption, simp_all)
qed

end
