(* ===== verification/Pipeline.thy ===== *)
theory Pipeline
  imports Top PE_Packets
begin

text \<open>
  From the traffic generator to the simulator: the generator writes its records to a file (\<open>top.cpp\<close>), the
  simulation script creates the processing elements, lets one of them read the file and starts them
  (\<open>configs/lab447/util/buildSystem.py\<close>, \<open>pe_tile.py\<close>).  Every element gets exactly its records in order, and the
  system is ready to run.
\<close>

section \<open>The file\<close>

text \<open>
  The value that the parser yields for a value that was written: a number without a sign is unsigned.
\<close>

fun as_read :: "json \<Rightarrow> json" where
  "as_read (JInteger i) = (if i < 0 then JInteger i else JUnsigned (of_int i))"
| "as_read (JArray xs) = JArray (map as_read xs)"
| "as_read (JObject m) = JObject (map (\<lambda>(k, v). (k, as_read v)) m)"
| "as_read j = j"

section \<open>The simulation script\<close>

definition empty_system :: pe_system where
  "empty_system = \<lparr>pes = [], pe_list = [], rdy_sync_list = [], broadcast_issuer = None, curTick = 0, next_req = 0, sim_exit = False\<rparr>"

definition create_cores :: "nat \<Rightarrow> u64 \<Rightarrow> u64 \<Rightarrow> u64 \<Rightarrow> u64 \<Rightarrow> u64 \<Rightarrow> pe_system \<Rightarrow> pe_system res" where
  "create_cores num_cores blk line gmem loff width s = foldE (\<lambda>_. new_PE blk line gmem loff width) [0..<num_cores] s"

definition start_traffic :: "nat \<Rightarrow> pe_system \<Rightarrow> pe_system res" where
  "start_traffic num_cores s = foldE start [0..<num_cores] s"

text \<open>\<open>line\<close> is the cache line size of the system, \<open>gmem\<close> the size of its memory; \<open>start_traffic\<close> is always that of the first tile.\<close>

definition buildType1 :: "nat \<Rightarrow> nat \<Rightarrow> u64 \<Rightarrow> u64 \<Rightarrow> json \<Rightarrow> pe_system res" where
  "buildType1 numTiles pePerTile line gmem data =
     bindE (foldE (\<lambda>_. create_cores pePerTile 64 line gmem 0 (of_nat pePerTile)) [0..<numTiles] empty_system) (\<lambda>s.
     bindE (parseTraffic 0 data s) (\<lambda>s.
     foldE (\<lambda>_. start_traffic pePerTile) [0..<numTiles] s))"

definition buildType2 :: "nat \<Rightarrow> nat \<Rightarrow> u64 \<Rightarrow> u64 \<Rightarrow> json \<Rightarrow> pe_system res" where
  "buildType2 numTiles pePerTile line gmem data =
     bindE (create_cores (pePerTile * numTiles) 64 line gmem 0 (of_nat pePerTile) empty_system) (\<lambda>s.
     bindE (parseTraffic 0 data s) (\<lambda>s.
     start_traffic (pePerTile * numTiles) s))"

section \<open>Coordinates\<close>

definition dec_value :: "string \<Rightarrow> nat" where
  "dec_value = foldl (\<lambda>a c. 10 * a + (of_char c - 48)) 0"

lemma digit_value: "d < 10 \<Longrightarrow> (of_char (digit_char d) :: nat) = 48 + d"
  by (simp add: digit_char_def of_char_of)

lemma dec_value_dec_nat: "dec_value (dec_nat n) = n"
proof (induction n rule: dec_nat.induct)
  case (1 n)
  then show ?case by (subst dec_nat.simps) (simp add: dec_value_def digit_value)
qed

lemma dec_nat_inj: "dec_nat m = dec_nat n \<Longrightarrow> m = n"
  by (metis dec_value_dec_nat)

lemma dec_nat_nonempty: "dec_nat n \<noteq> []"
  by (subst dec_nat.simps) simp

lemma dec_nat_0: "dec_nat 0 = ''0''"
  by (subst dec_nat.simps) (simp add: digit_char_def, code_simp)

definition key :: "nat \<Rightarrow> string" where
  "key i = ''0,'' @ dec_nat i"

lemma key_inj: "key i = key j \<longleftrightarrow> i = j"
  by (auto simp: key_def dest: dec_nat_inj)

lemma coordinate_key: "coordinate (0, int i) = key i"
  by (simp add: coordinate_def key_def dec_int_def dec_nat_0)

section \<open>The elements\<close>

definition element :: "u64 \<Rightarrow> u64 \<Rightarrow> nat \<Rightarrow> pe" where
  "element line gmem i =
     \<lparr>pe_x = 0, pe_y = of_nat i, block_size = 64, cache_line_size = line, global_mem_size = gmem, local_mem_offset = 0,
      operateNextEvent = None, scheduleReqEvent = None, waitingSend_read = [], waitingSend_write = [], retryPktTick = 0,
      waitingResp_read = [], waitingResp_write = [], stats = empty_stats, traffic_list = [], cur_traffic = 0\<rparr>"

definition grid :: "u64 \<Rightarrow> u64 \<Rightarrow> nat \<Rightarrow> pe_system" where
  "grid line gmem n = empty_system\<lparr>pes := map (element line gmem) [0..<n], pe_list := map (\<lambda>i. (key i, i)) [0..<n]\<rparr>"

lemma getCoordinate_element: "i < 2 ^ 32 \<Longrightarrow> getCoordinate (element line gmem i) = key i"
  by (simp add: getCoordinate_def element_def key_def dec_nat_0 unat_of_nat)

lemma map_of_keys: "map_of (map (\<lambda>i. (key i, i)) [0..<n]) (key j) = (if j < n then Some j else None)"
  by (induction n) (auto simp: map_of_append key_inj map_add_def less_Suc_eq map_of_eq_None_iff)

lemma ucast_small: "n < 2 ^ 32 \<Longrightarrow> ucast (of_nat n :: u64) = (of_nat n :: u32)"
  by (simp add: word_unat_eq_iff unsigned_ucast_eq unat_of_nat take_bit_nat_def)

lemma create_cores_grid:
  assumes "n \<le> N" and "N < 2 ^ 32"
  shows "create_cores n 64 line gmem 0 (of_nat N) empty_system = Inr (grid line gmem n)"
  using assms(1) unfolding create_cores_def
proof (induction n)
  case 0
  then show ?case by (simp add: grid_def empty_system_def)
next
  case (Suc n)
  have n: "n < N" "n < 2 ^ 32" "N < 2 ^ 64" using Suc.prems assms(2) by simp_all
  have u: "unat (of_nat n :: u64) = n" "unat (of_nat N :: u64) = N" using n by (simp_all add: unat_of_nat)
  have "(of_nat N :: u64) \<noteq> 0" using u(2) n(1) by (metis gr_implies_not0 unat_0)
  moreover have "(of_nat n :: u64) div of_nat N = 0" "(of_nat n :: u64) mod of_nat N = of_nat n"
    using n(1) u by (simp_all add: word_arith_nat_div word_arith_nat_mod)
  ultimately have "new_PE 64 line gmem 0 (of_nat N) (grid line gmem n) = Inr (grid line gmem (Suc n))"
    using n(2) getCoordinate_element [OF n(2), of line gmem]
    by (simp add: new_PE_def grid_def empty_system_def Let_def ucast_small map_of_keys element_def [symmetric])
  then show ?case using Suc by (simp add: foldE_append)
qed

section \<open>Writing and reading a record\<close>

definition traffic_obj :: "traffic \<Rightarrow> json" where
  "traffic_obj t = JObject (map_put ''response'' (JInteger (traffic_value (tr_response t)))
     (map_put ''request'' (JInteger (traffic_value (tr_request t))) (map_put ''size'' (JUnsigned (tr_size t))
     (map_put ''addr'' (JUnsigned (tr_addr t)) (map_put ''dest'' (JString (coordinate (tr_dest t)))
     (map_put ''src'' (JString (coordinate (tr_src t))) (map_put ''type'' (JInteger (type_value (tr_type t))) [])))))))"

lemma traffic_json_obj: "traffic_json t = Inr (traffic_obj t)"
  by (simp add: traffic_json_def traffic_obj_def json_assign_def del: map_put.simps)

lemma traffic_pattern_objs: "traffic_pattern l = Inr (JArray (map traffic_obj l))"
proof -
  have "foldE (\<lambda>i arr. bindE (traffic_json i) (\<lambda>obj. json_push_back obj arr)) l (JArray xs) = Inr (JArray (xs @ map traffic_obj l))" for xs
    by (induction l arbitrary: xs) (simp_all add: traffic_json_obj json_push_back_def)
  then show ?thesis by (simp add: traffic_pattern_def)
qed

text \<open>The digit that is read as the column of an element.\<close>

definition column :: "nat \<Rightarrow> int" where
  "column i = (case char_digit (key i) 2 of Inr d \<Rightarrow> d | Inl _ \<Rightarrow> 0)"

definition received :: "traffic \<Rightarrow> pe_traffic" where
  "received t =
     \<lparr>pt_type = type_value (tr_type t), pt_src = (0, column (nat (snd (tr_src t)))), pt_dest = (1, 0), pt_addr = tr_addr t,
      pt_size = tr_size t, pt_request = 0, pt_response = traffic_value (tr_response t)\<rparr>"

lemma read_key: "read_pair (key i) = Inr (0, column i)"
proof -
  have "2 < length (key i)" using dec_nat_nonempty [of i] by (cases "dec_nat i") (auto simp: key_def)
  then have "\<exists>d. char_digit (key i) 2 = Inr d" by (simp add: char_digit_def Let_def)
  moreover have "char_digit (key i) 0 = Inr 0" by (simp add: char_digit_def key_def)
  ultimately show ?thesis by (auto simp: read_pair_def column_def)
qed

lemma memory_coordinate: "coordinate (1, 0) = ''1,0''" "read_pair ''1,0'' = Inr (1, 0)"
  by code_simp+

lemma to_int_values [simp]:
  "to_int (as_read (JInteger (type_value ty))) = Inr (type_value ty)"
  "to_int (as_read (JInteger (traffic_value tt))) = Inr (traffic_value tt)"
  by (cases ty; simp add: to_int_def) (cases tt; simp add: to_int_def)

lemma parse_record_obj:
  assumes "well_formed_traffic (int N) t" and "i < length (pes s)" and "tr_src t = (0, int i)" and "map_of (pe_list s) (key i) = Some i"
  shows "parse_record gmem 0 (as_read (traffic_obj t)) s =
     Inr (put_pe i ((pes s ! i)\<lparr>traffic_list := traffic_list (pes s ! i) @ [received t]\<rparr>) s)"
proof -
  have t: "tr_dest t = (1, 0)" "tr_request t = UNICAST" using assms(1) by (simp_all add: well_formed_traffic_def)
  have m: "json_member_const k (as_read (JObject m)) = (case map_of m k of None \<Rightarrow> Inl (AssertFail ''it != m_data.m_value.object->end()'') | Some v \<Rightarrow> Inr (as_read v))" for k m
    by (induction m) (auto simp: json_member_const_def)
  show ?thesis
    unfolding parse_record_def traffic_obj_def m
    using assms(2-4) t memory_coordinate to_int_values(2) [of UNICAST]
    by (simp add: map_of_map_put coordinate_key read_key to_uint64_def received_def get_pe_def vec_at_def del: as_read.simps(1))
qed

section \<open>Delivery\<close>

definition records :: "nat \<Rightarrow> traffic list \<Rightarrow> pe_traffic list" where
  "records i l = map received (filter (\<lambda>t. tr_src t = (0, int i)) l)"

definition loaded :: "u64 \<Rightarrow> u64 \<Rightarrow> nat \<Rightarrow> traffic list \<Rightarrow> pe_system" where
  "loaded line gmem n l =
     (grid line gmem n)\<lparr>pes := map (\<lambda>i. (element line gmem i)\<lparr>traffic_list := records i l\<rparr>) [0..<n]\<rparr>"

lemma loaded_fields [simp]:
  "length (pes (loaded line gmem n l)) = n" "pe_list (loaded line gmem n l) = map (\<lambda>i. (key i, i)) [0..<n]"
  "i < n \<Longrightarrow> pes (loaded line gmem n l) ! i = (element line gmem i)\<lparr>traffic_list := records i l\<rparr>"
  by (simp_all add: loaded_def grid_def)

lemma loaded_snoc:
  assumes "i < n" and "tr_src t = (0, int i)"
  shows "put_pe i ((pes (loaded line gmem n l) ! i)\<lparr>traffic_list := traffic_list (pes (loaded line gmem n l) ! i) @ [received t]\<rparr>) (loaded line gmem n l) =
     loaded line gmem n (l @ [t])"
proof -
  have "(pes (loaded line gmem n l))[i := (element line gmem i)\<lparr>traffic_list := records i l @ [received t]\<rparr>] =
      map (\<lambda>i. (element line gmem i)\<lparr>traffic_list := records i (l @ [t])\<rparr>) [0..<n]"
    using assms by (intro nth_equalityI) (auto simp: nth_list_update records_def)
  then show ?thesis using assms by (simp add: put_pe_def loaded_def grid_def)
qed

lemma parseTraffic_loaded:
  assumes "list_all (well_formed_traffic (int n)) l" and "0 < n"
  shows "parseTraffic 0 (as_read (JArray (map traffic_obj l))) (grid line gmem n) = Inr (loaded line gmem n l)"
proof -
  have "foldE (parse_record gmem 0) (map (\<lambda>t. as_read (traffic_obj t)) l) (loaded line gmem n []) = Inr (loaded line gmem n l)"
    using assms(1)
  proof (induction l rule: rev_induct)
    case (snoc t l)
    obtain i where i: "i < n" "tr_src t = (0, int i)"
      using snoc.prems by (cases "tr_src t") (auto simp: well_formed_traffic_def dest: zero_le_imp_eq_int)
    have "parse_record gmem 0 (as_read (traffic_obj t)) (loaded line gmem n l) = Inr (loaded line gmem n (l @ [t]))"
      using parse_record_obj [of n t i "loaded line gmem n l" gmem] loaded_snoc [OF i, of line gmem l] snoc.prems i
      by (simp add: map_of_keys)
    then show ?case using snoc by (simp add: foldE_append)
  qed simp
  moreover have "loaded line gmem n [] = grid line gmem n"
    by (simp add: loaded_def grid_def records_def element_def)
  ultimately show ?thesis using assms(2)
    by (simp add: parseTraffic_def json_values_def get_pe_def vec_at_def grid_def element_def comp_def)
qed

section \<open>Start\<close>

definition started :: "u64 \<Rightarrow> u64 \<Rightarrow> nat \<Rightarrow> traffic list \<Rightarrow> pe_system" where
  "started line gmem n l =
     (loaded line gmem n l)\<lparr>pes := map (\<lambda>i. (element line gmem i)\<lparr>operateNextEvent := Some 1, traffic_list := records i l\<rparr>) [0..<n]\<rparr>"

lemma start_traffic_started: "start_traffic n (loaded line gmem n l) = Inr (started line gmem n l)"
proof -
  let ?p = "\<lambda>m i. if i < m then (element line gmem i)\<lparr>operateNextEvent := Some 1, traffic_list := records i l\<rparr> else (element line gmem i)\<lparr>traffic_list := records i l\<rparr>"
  let ?s = "\<lambda>m. (loaded line gmem n l)\<lparr>pes := map (?p m) [0..<n]\<rparr>"
  have "foldE start [0..<m] (loaded line gmem n l) = Inr (?s m)" if "m \<le> n" for m
    using that
  proof (induction m)
    case 0
    then show ?case by (simp add: loaded_def grid_def)
  next
    case (Suc m)
    have "(map (?p m) [0..<n])[m := ?p (Suc m) m] = map (?p (Suc m)) [0..<n]"
      using Suc.prems by (intro nth_equalityI) (auto simp: nth_list_update)
    then have "start m (?s m) = Inr (?s (Suc m))"
      using Suc.prems by (simp add: start_def schedule_operate_def get_pe_def put_pe_def vec_at_def element_def loaded_def grid_def empty_system_def)
    then show ?case using Suc by (simp add: foldE_append)
  qed
  from this [of n] show ?thesis by (simp add: start_traffic_def started_def cong: map_cong)
qed

lemma buildType1_started:
  assumes "list_all (well_formed_traffic (int n)) l" and "0 < n" and "n < 2 ^ 32"
  shows "buildType1 1 n line gmem (as_read (JArray (map traffic_obj l))) = Inr (started line gmem n l)"
  using create_cores_grid [of n n line gmem] parseTraffic_loaded [OF assms(1,2)] assms(3)
  by (simp add: buildType1_def start_traffic_started del: as_read.simps)

section \<open>The system is ready\<close>

lemma pt_barrier_received:
  assumes "well_formed_traffic N t"
  shows "pt_barrier (received t) = is_barrier t"
  using assms by (cases "tr_type t"; cases "tr_response t")
    (auto simp: pt_barrier_def transfer_def received_def is_barrier_def well_formed_traffic_def split: if_splits)

lemma wf_record_received:
  assumes "well_formed_traffic N t" and "tr_src t = (0, int i)"
  shows "wf_record i (received t)"
  using assms by (cases "tr_type t"; cases "tr_response t")
    (auto simp: wf_record_def transfer_def received_def is_barrier_def well_formed_traffic_def split: if_splits)

lemma bars_records:
  assumes "list_all (well_formed_traffic N) l"
  shows "length (filter pt_barrier (records i l)) = barriers (int i) l"
  using assms by (induction l) (auto simp: records_def barriers_def pt_barrier_received)

lemma balancedD:
  assumes "balanced (int n) l"
  shows "list_all (well_formed_traffic (int n)) l" "i < n \<Longrightarrow> barriers (int i) l = barriers 0 l"
proof -
  note b = assms [unfolded balanced_def]
  show "list_all (well_formed_traffic (int n)) l" using b by (rule conjunct1)
  show "barriers (int i) l = barriers 0 l" if "i < n" by (rule b [THEN conjunct2, THEN spec, THEN mp]) (use that in simp)
qed

text \<open>The transfers of a list of records are memory accesses that the elements can make.\<close>

definition transfers_ok :: "(u64 \<Rightarrow> bool) \<Rightarrow> u64 \<Rightarrow> traffic list \<Rightarrow> bool" where
  "transfers_ok mem line l = list_all (\<lambda>t. tr_type t \<in> {READ, WRITE} \<longrightarrow> lines_ok mem (element line 0 0) (received t)) l"

lemma lines_ok_line: "cache_line_size p = cache_line_size q \<Longrightarrow> lines_ok mem p t = lines_ok mem q t"
  by (simp add: lines_ok_def num_lines_cong [of p q] transfer_base_def)

lemma started_ready:
  assumes "balanced (int n) l" and "0 < n" and "n < 2 ^ 32" and "line \<noteq> 0" and "length l < 2 ^ 32" and "transfers_ok mem line l"
  shows "ready_system mem (barriers 0 l) (started line gmem n l)"
proof -
  note wf = balancedD(1) [OF assms(1)] and bal = balancedD(2) [OF assms(1)]
  let ?p = "\<lambda>i. (element line gmem i)\<lparr>operateNextEvent := Some 1, traffic_list := records i l\<rparr>"
  have pes: "pes (started line gmem n l) = map ?p [0..<n]" by (simp add: started_def)
  have co: "map getCoordinate (map ?p [0..<n]) = map key [0..<n]"
    using assms(3) getCoordinate_element [of _ line gmem] by (auto simp: getCoordinate_def)
  have traffic: "traffic_ok mem i (?p i)" if "i < n" for i
  proof -
    have "wf_record i r \<and> (transfer r \<longrightarrow> lines_ok mem (?p i) r)" if "r \<in> set (records i l)" for r
    proof -
      obtain t where t: "t \<in> set l" "tr_src t = (0, int i)" "r = received t" using \<open>r \<in> set (records i l)\<close> by (auto simp: records_def)
      have "tr_type t \<in> {READ, WRITE}" if "transfer r" using that t(3) by (cases "tr_type t") (auto simp: transfer_def received_def)
      then have "transfer r \<longrightarrow> lines_ok mem (element line 0 0) r" using assms(6) t by (auto simp: transfers_ok_def list_all_iff)
      moreover have "lines_ok mem (?p i) r = lines_ok mem (element line 0 0) r" by (rule lines_ok_line) (simp add: element_def)
      ultimately show ?thesis using wf_record_received [OF _ t(2)] wf t by (auto simp: list_all_iff)
    qed
    moreover have "length (records i l) \<le> length l" by (simp add: records_def)
    ultimately show ?thesis using assms(4,5) by (auto simp: traffic_ok_def element_def)
  qed
  have f: "pe_list (started line gmem n l) = zip (map key [0..<n]) [0..<n]" "rdy_sync_list (started line gmem n l) = []"
    "broadcast_issuer (started line gmem n l) = None" "\<not> sim_exit (started line gmem n l)" "curTick (started line gmem n l) = 0"
    by (simp_all add: started_def loaded_def grid_def empty_system_def zip_map1 zip_same_conv_map)
  have d: "distinct (map key [0..<n])" by (simp add: distinct_map inj_on_def key_inj)
  have p: "idle_pe (?p i)" "bars (?p i) (length (traffic_list (?p i))) = barriers 0 l" "\<exists>t. operateNextEvent (?p i) = Some t \<and> 0 \<le> t"
    if "i < n" for i
    using bars_records [OF wf, of i] bal [OF that] by (simp_all add: idle_pe_def element_def bars_def)
  show ?thesis unfolding ready_system_def pes co using f d p traffic assms(2)
    by (simp del: map_map)
qed

text \<open>If every address is memory, a transfer that fits its types is one the elements can make.\<close>

lemma lines_ok_fits:
  assumes "transfer_fits p t"
  shows "lines_ok (\<lambda>_. True) p t"
proof -
  let ?L = "unat (cache_line_size p)" and ?n = "max (unat (pt_size t)) (unat (cache_line_size p))"
  let ?o = "unat (pt_addr t) mod unat (cache_line_size p)"
  have L: "0 < ?L" "?n + ?L < 2 ^ 31" using assms by (auto simp: transfer_fits_def unat_gt_0)
  have o: "?o < ?L" using L(1) by simp
  have "0 < (?n + ?o) div ?L" using L(1) by (subst div_greater_zero_iff) auto
  moreover have "(?n + ?o) div ?L \<le> ?n + ?o" by (rule div_le_dividend)
  ultimately have "0 < num_lines p t" "num_lines p t < 2 ^ 31" unfolding num_lines_exact [OF assms] using L(2) o by linarith+
  then show ?thesis by (simp add: lines_ok_def)
qed

text \<open>What holds of a ready system in every configuration it reaches.\<close>

lemma ready_run:
  assumes "ready_system mem B s" and "reachable mem (s, {}) c"
  shows "(\<forall>a. enabled a c \<and> unat (tick_of a c) + 100 < 2 ^ 64 \<longrightarrow> (\<exists>c'. perform mem a c = Inr c')) \<and> (pe_list (fst c) \<noteq> [] \<longrightarrow> (\<exists>a. enabled a c)) \<and>
     (sim_exit (fst c) \<longrightarrow> (\<forall>p \<in> set (pes (fst c)). no_more_traffic p))"
proof -
  obtain u b where c: "c = (u, b)" by (cases c)
  obtain K T where inv: "config_inv mem B K c" "timed (length (pes s)) T u" using reachable_inv [OF assms] c by auto
  have "\<exists>c'. perform mem a c = Inr c'" if "enabled a c \<and> unat (tick_of a c) + 100 < 2 ^ 64" for a
    using unless_late_returns [OF step_ok [OF inv(1)]] that by blast
  moreover have "\<exists>a. enabled a c" if "pe_list u \<noteq> []" using inv_not_stuck [OF inv(1) [unfolded c] inv(2) that] c by simp
  moreover have "no_more_traffic p" if e: "sim_exit u" "p \<in> set (pes u)" for p
  proof -
    obtain i where "i < length (pes u)" "pes u ! i = p" using e(2) by (auto simp: in_set_conv_nth)
    then show ?thesis using inv_exit [OF inv(1) [unfolded c] e(1)] by (auto simp: retired_ok_def)
  qed
  ultimately show ?thesis by (simp add: c)
qed

section \<open>Example\<close>

text \<open>Two elements and a convolution with two groups of kernels.\<close>

definition run_tensor :: "u64 \<Rightarrow> tensor" where
  "run_tensor a = \<lparr>t_name = [], t_shape = [1, 1, 1, 1], t_data_type = 1, t_size = Some 64, t_address = Some a, t_original_size = None\<rparr>"

definition run_gen :: tgen where
  "run_gen = \<lparr>tg_list = [], tg_numSubgraph = 6, tg_split_node = demo_node 3, tg_base_node = demo_node 3, tg_numPE = 2,
      tg_round = 3, tg_remainder = 0, tg_strategy = \<lparr>splitSize = [], mappingStrategy = []\<rparr>,
      tg_heap = map run_tensor [0, 4096, 8192, 12288]\<rparr>"

definition run_strategy :: strategy where
  "run_strategy = \<lparr>splitSize = [[1, 1, 1, 1], [2]], mappingStrategy = []\<rparr>"

definition conv_run :: "tgen res" where
  "conv_run = generate_traffic_conv_weight_stationary (init_strategy run_strategy run_gen)"

lemma run_gen_new: "new_TrafficGenerator (map run_tensor [0, 4096, 8192, 12288]) (int 2) 6 (demo_node 3) (demo_node 3) = Inr run_gen"
  by (simp add: new_TrafficGenerator_def run_gen_def ceil_div_nonneg in_i32_def)

lemma conv_run_small:
  "case conv_run of Inl _ \<Rightarrow> False
   | Inr g' \<Rightarrow> length (tg_list g') < 20 \<and> list_all (\<lambda>t. tr_size t < 1048576 \<and> tr_addr t < 1048576) (tg_list g')"
  by code_simp

lemma small_transfers_ok:
  assumes "list_all (\<lambda>t. tr_size t < 1048576 \<and> tr_addr t < 1048576) l"
  shows "transfers_ok (\<lambda>_. True) 64 l"
proof -
  have "transfer_fits (element 64 0 0) (received t)" if "tr_size t < 1048576" "tr_addr t < 1048576" for t
  proof -
    have "unat (tr_size t) < 1048576" "unat (tr_addr t) < 1048576" using that by (simp_all add: word_less_nat_alt)
    then show ?thesis by (simp add: transfer_fits_def element_def received_def)
  qed
  then show ?thesis using assms by (auto simp: transfers_ok_def list_all_iff intro: lines_ok_fits)
qed

section \<open>More than one tile\<close>

text \<open>With two tiles of the first kind the elements of the first tile are started twice.\<close>

lemma second_tile_start: "buildType1 2 1 64 (2 ^ 30) (JArray []) = Inl (AssertFail ''!event->scheduled()'')"
  by code_simp

text \<open>
  In a mesh the elements of the second tile are in the second row, while the generator numbers all elements in one
  row: the record of an element of the second tile finds no element.
\<close>

lemma second_row_missing:
  "buildType2 2 1 64 (2 ^ 30) (as_read (JArray [traffic_obj (new_Traffic READ (0, 1) (1, 0) 0 64 UNICAST UNICAST)])) =
     Inl (Panic ''Can't find pe'')"
  by code_simp

end
