(* ===== verification/Event_Queue.thy ===== *)
theory Event_Queue
  imports Prelude "HOL-Library.Product_Lexorder"
begin

text \<open>
  The event queue of the simulator (\<open>gem5/src/sim/eventq.hh\<close>, \<open>eventq.cc\<close>): a linked list of
  linked lists.  Events are objects of a store; \<open>nextBin\<close> leads to the next bin, which is all
  events of one time and priority, and \<open>nextInBin\<close> to the next event of a bin.  Only the top
  event of a bin has a valid \<open>nextBin\<close>.  The state is that of one queue; locks are left out, the
  action of an event is an argument.
\<close>

section \<open>Events\<close>

type_synonym ev_ptr = nat

record event =
  nextBin :: "ev_ptr option"
  nextInBin :: "ev_ptr option"
  ev_when :: u64
  ev_priority :: int
  ev_queue :: "nat option"
  ev_initialized :: bool
  ev_Scheduled :: bool
  ev_Squashed :: bool
  ev_Managed :: bool
  ev_IsExitEvent :: bool
  ev_IsMainQueue :: bool
  ev_freed :: bool      \<comment> \<open>deleted\<close>

text \<open>The constructor; \<open>f\<close> are the flags \<open>Managed\<close> and \<open>IsExitEvent\<close>.\<close>

definition new_Event :: "int \<Rightarrow> bool \<Rightarrow> bool \<Rightarrow> event" where
  "new_Event p managed exit =
     \<lparr>nextBin = None, nextInBin = None, ev_when = 0, ev_priority = p, ev_queue = None, ev_initialized = True,
      ev_Scheduled = False, ev_Squashed = False, ev_Managed = managed, ev_IsExitEvent = exit,
      ev_IsMainQueue = False, ev_freed = False\<rparr>"

text \<open>\<open>operator<\<close>, \<open>operator<=\<close> and \<open>operator==\<close>.\<close>

definition ev_less :: "event \<Rightarrow> event \<Rightarrow> bool" where
  "ev_less l r \<longleftrightarrow> ev_when l < ev_when r \<or> (ev_when l = ev_when r \<and> ev_priority l < ev_priority r)"

definition ev_le :: "event \<Rightarrow> event \<Rightarrow> bool" where
  "ev_le l r \<longleftrightarrow> ev_when l < ev_when r \<or> (ev_when l = ev_when r \<and> ev_priority l \<le> ev_priority r)"

definition ev_eq :: "event \<Rightarrow> event \<Rightarrow> bool" where
  "ev_eq l r \<longleftrightarrow> ev_when l = ev_when r \<and> ev_priority l = ev_priority r"

text \<open>\<open>operator>\<close>, \<open>operator>=\<close> and \<open>operator!=\<close>.\<close>

definition ev_gt :: "event \<Rightarrow> event \<Rightarrow> bool" where
  "ev_gt l r \<longleftrightarrow> ev_when l > ev_when r \<or> (ev_when l = ev_when r \<and> ev_priority l > ev_priority r)"

definition ev_ge :: "event \<Rightarrow> event \<Rightarrow> bool" where
  "ev_ge l r \<longleftrightarrow> ev_when l > ev_when r \<or> (ev_when l = ev_when r \<and> ev_priority l \<ge> ev_priority r)"

definition ev_ne :: "event \<Rightarrow> event \<Rightarrow> bool" where
  "ev_ne l r \<longleftrightarrow> ev_when l \<noteq> ev_when r \<or> ev_priority l \<noteq> ev_priority r"

definition squash :: "event \<Rightarrow> event" where
  "squash e = e\<lparr>ev_Squashed := True\<rparr>"

text \<open>
  A checkpoint of an event: time, priority and the flags \<open>Squashed\<close>, \<open>Scheduled\<close>, \<open>Managed\<close>,
  \<open>IsExitEvent\<close>, \<open>IsMainQueue\<close>.  Restoring sets the \<open>Initialized\<close> bits again.
\<close>

type_synonym ev_checkpoint = "u64 \<times> int \<times> bool \<times> bool \<times> bool \<times> bool \<times> bool"

definition ev_serialize :: "event \<Rightarrow> ev_checkpoint" where
  "ev_serialize e =
     (ev_when e, ev_priority e, ev_Squashed e, ev_Scheduled e, ev_Managed e, ev_IsExitEvent e, ev_IsMainQueue e)"

definition ev_unserialize :: "ev_checkpoint \<Rightarrow> event \<Rightarrow> event res" where
  "ev_unserialize cp e =
     (case cp of (when, priority, squashed, scheduled, managed, exit, main) \<Rightarrow>
      bindE (guardE (\<not> ev_Scheduled e) (AssertFail ''!scheduled()'')) (\<lambda>_.
      bindE (guardE (ev_initialized e) (AssertFail ''initialized()'')) (\<lambda>_.
      let e = e\<lparr>ev_when := when, ev_priority := priority, ev_initialized := True, ev_Scheduled := scheduled,
                ev_Squashed := squashed, ev_Managed := managed, ev_IsExitEvent := exit, ev_IsMainQueue := main\<rparr>
      in Inr (if ev_Scheduled e \<and> \<not> ev_Squashed e then e\<lparr>ev_Scheduled := False, ev_Squashed := False\<rparr> else e))))"

type_synonym ev_store = "ev_ptr \<Rightarrow> event"

definition insertBefore :: "ev_ptr \<Rightarrow> ev_ptr option \<Rightarrow> ev_store \<Rightarrow> ev_store" where
  "insertBefore event cur st =
     (case cur of
        None \<Rightarrow> st(event := (st event)\<lparr>nextBin := None, nextInBin := None\<rparr>)
      | Some c \<Rightarrow>
          if ev_less (st event) (st c)
          then st(event := (st event)\<lparr>nextBin := Some c, nextInBin := None\<rparr>)
          else st(event := (st event)\<lparr>nextBin := nextBin (st c), nextInBin := Some c\<rparr>))"

section \<open>The queue\<close>

record eventq =
  events :: ev_store
  eq_this :: nat
  eq_head :: "ev_ptr option"
  eq_curTick :: u64
  async_queue :: "ev_ptr list"
  eq_current :: nat             \<comment> \<open>\<open>curEventQueue()\<close>\<close>
  inParallelMode :: bool

definition new_EventQueue :: "ev_store \<Rightarrow> nat \<Rightarrow> eventq" where
  "new_EventQueue st n =
     \<lparr>events = st, eq_this = n, eq_head = None, eq_curTick = 0, async_queue = [], eq_current = n, inParallelMode = False\<rparr>"

abbreviation set_event :: "ev_ptr \<Rightarrow> (event \<Rightarrow> event) \<Rightarrow> eventq \<Rightarrow> eventq" where
  "set_event e f q \<equiv> q\<lparr>events := (events q)(e := f (events q e))\<rparr>"

text \<open>\<open>while (curr && *curr < *event) { prev = curr; curr = curr->nextBin; }\<close>\<close>

partial_function (option) find_bin ::
    "ev_store \<Rightarrow> event \<Rightarrow> ev_ptr \<Rightarrow> ev_ptr option \<Rightarrow> (ev_ptr \<times> ev_ptr option) option" where
  "find_bin st e prev cur =
     (case cur of
        None \<Rightarrow> Some (prev, None)
      | Some c \<Rightarrow> if ev_less (st c) e then find_bin st e c (nextBin (st c)) else Some (prev, Some c))"

declare find_bin.simps [code]

definition eq_insert :: "ev_ptr \<Rightarrow> eventq \<Rightarrow> eventq res" where
  "eq_insert event q =
     (let st = events q in
      case eq_head q of
        None \<Rightarrow> Inr (q\<lparr>events := insertBefore event None st, eq_head := Some event\<rparr>)
      | Some h \<Rightarrow>
          if ev_le (st event) (st h) then
            Inr (q\<lparr>events := insertBefore event (Some h) st, eq_head := Some event\<rparr>)
          else
            bindE (loopE (find_bin st (st event) h (nextBin (st h)))) (\<lambda>(prev, cur).
            let st = insertBefore event cur st
            in Inr (q\<lparr>events := st(prev := (st prev)\<lparr>nextBin := Some event\<rparr>)\<rparr>)))"

text \<open>\<open>while (event != next) { if (!next) panic(...); curr = next; next = next->nextInBin; }\<close>\<close>

partial_function (option) find_item :: "ev_store \<Rightarrow> ev_ptr \<Rightarrow> ev_ptr \<Rightarrow> ev_ptr option \<Rightarrow> ev_ptr res option" where
  "find_item st event cur next =
     (if next = Some event then Some (Inr cur)
      else case next of
             None \<Rightarrow> Some (Inl (Panic ''event not found!''))
           | Some n \<Rightarrow> find_item st event n (nextInBin (st n)))"

declare find_item.simps [code]

definition removeItem :: "ev_ptr \<Rightarrow> ev_ptr \<Rightarrow> ev_store \<Rightarrow> (ev_ptr option \<times> ev_store) res" where
  "removeItem event tp st =
     (if event = tp then
        case nextInBin (st tp) of
          None \<Rightarrow> Inr (nextBin (st tp), st)
        | Some n \<Rightarrow> Inr (Some n, st(n := (st n)\<lparr>nextBin := nextBin (st tp)\<rparr>))
      else
        bindE (loopE (find_item st event tp (nextInBin (st tp)))) (\<lambda>r.
        bindE r (\<lambda>cur.
        Inr (Some tp, st(cur := (st cur)\<lparr>nextInBin := nextInBin (st event)\<rparr>)))))"

definition eq_remove :: "ev_ptr \<Rightarrow> eventq \<Rightarrow> eventq res" where
  "eq_remove event q =
     (let st = events q in
      case eq_head q of
        None \<Rightarrow> Inl (Panic ''event not found!'')
      | Some h \<Rightarrow>
          bindE (guardE (ev_queue (st event) = Some (eq_this q)) (AssertFail ''event->queue == this'')) (\<lambda>_.
          if ev_eq (st h) (st event) then
            bindE (removeItem event h st) (\<lambda>(h, st). Inr (q\<lparr>events := st, eq_head := h\<rparr>))
          else
            bindE (loopE (find_bin st (st event) h (nextBin (st h)))) (\<lambda>(prev, cur).
            case cur of
              None \<Rightarrow> Inl (Panic ''event not found!'')
            | Some c \<Rightarrow>
                if \<not> ev_eq (st c) (st event) then Inl (Panic ''event not found!'')
                else bindE (removeItem event c st) (\<lambda>(n, st).
                     Inr (q\<lparr>events := st(prev := (st prev)\<lparr>nextBin := n\<rparr>)\<rparr>)))))"

section \<open>Scheduling\<close>

definition setWhen :: "ev_ptr \<Rightarrow> u64 \<Rightarrow> eventq \<Rightarrow> eventq" where
  "setWhen event when q = set_event event (\<lambda>e. e\<lparr>ev_when := when, ev_queue := Some (eq_this q)\<rparr>) q"

text \<open>\<open>release\<close> with the default \<open>releaseImpl\<close>; \<open>acquireImpl\<close> does nothing by default.\<close>

definition ev_release :: "ev_ptr \<Rightarrow> eventq \<Rightarrow> eventq" where
  "ev_release event q =
     set_event event (\<lambda>e. if ev_Managed e \<and> \<not> ev_Scheduled e then e\<lparr>ev_freed := True\<rparr> else e) q"

definition asyncInsert :: "ev_ptr \<Rightarrow> eventq \<Rightarrow> eventq" where
  "asyncInsert event q = q\<lparr>async_queue := async_queue q @ [event]\<rparr>"

definition eq_schedule :: "ev_ptr \<Rightarrow> u64 \<Rightarrow> bool \<Rightarrow> eventq \<Rightarrow> eventq res" where
  "eq_schedule event when global q =
     bindE (guardE (\<not> ev_freed (events q event)) UseAfterFree) (\<lambda>_.
     bindE (guardE (eq_curTick q \<le> when) (AssertFail ''when >= getCurTick()'')) (\<lambda>_.
     bindE (guardE (\<not> ev_Scheduled (events q event)) (AssertFail ''!event->scheduled()'')) (\<lambda>_.
     bindE (guardE (ev_initialized (events q event)) (AssertFail ''event->initialized()'')) (\<lambda>_.
     let q = setWhen event when q in
     bindE (if inParallelMode q \<and> (eq_this q \<noteq> eq_current q \<or> global) then Inr (asyncInsert event q)
            else eq_insert event q) (\<lambda>q.
     Inr (set_event event (\<lambda>e. e\<lparr>ev_Scheduled := True\<rparr>) q))))))"

definition eq_deschedule :: "ev_ptr \<Rightarrow> eventq \<Rightarrow> eventq res" where
  "eq_deschedule event q =
     bindE (guardE (\<not> ev_freed (events q event)) UseAfterFree) (\<lambda>_.
     bindE (guardE (ev_Scheduled (events q event)) (AssertFail ''event->scheduled()'')) (\<lambda>_.
     bindE (guardE (ev_initialized (events q event)) (AssertFail ''event->initialized()'')) (\<lambda>_.
     bindE (guardE (\<not> inParallelMode q \<or> eq_this q = eq_current q) (AssertFail ''this == curEventQueue()'')) (\<lambda>_.
     bindE (eq_remove event q) (\<lambda>q.
     Inr (ev_release event (set_event event (\<lambda>e. e\<lparr>ev_Squashed := False, ev_Scheduled := False\<rparr>) q)))))))"

definition eq_reschedule :: "ev_ptr \<Rightarrow> u64 \<Rightarrow> bool \<Rightarrow> eventq \<Rightarrow> eventq res" where
  "eq_reschedule event when always q =
     bindE (guardE (\<not> ev_freed (events q event)) UseAfterFree) (\<lambda>_.
     bindE (guardE (eq_curTick q \<le> when) (AssertFail ''when >= getCurTick()'')) (\<lambda>_.
     bindE (guardE (always \<or> ev_Scheduled (events q event)) (AssertFail ''always || event->scheduled()'')) (\<lambda>_.
     bindE (guardE (ev_initialized (events q event)) (AssertFail ''event->initialized()'')) (\<lambda>_.
     bindE (guardE (\<not> inParallelMode q \<or> eq_this q = eq_current q) (AssertFail ''this == curEventQueue()'')) (\<lambda>_.
     bindE (if ev_Scheduled (events q event) then eq_remove event q else Inr q) (\<lambda>q.
     bindE (eq_insert event (setWhen event when q)) (\<lambda>q.
     Inr (set_event event (\<lambda>e. e\<lparr>ev_Squashed := False, ev_Scheduled := True\<rparr>) q))))))))"

definition handleAsyncInsertions :: "eventq \<Rightarrow> eventq res" where
  "handleAsyncInsertions q =
     bindE (guardE (eq_this q = eq_current q) (AssertFail ''this == curEventQueue()'')) (\<lambda>_.
     mapE (\<lambda>q. q\<lparr>async_queue := []\<rparr>) (foldE eq_insert (async_queue q) q))"

definition checkpointReschedule :: "ev_ptr \<Rightarrow> eventq \<Rightarrow> eventq res" where
  "checkpointReschedule event q = (if ev_Scheduled (events q event) then eq_insert event q else Inr q)"

text \<open>\<open>UNSERIALIZE_EVENT\<close>.\<close>

definition unserialize_event :: "ev_checkpoint \<Rightarrow> ev_ptr \<Rightarrow> eventq \<Rightarrow> eventq res" where
  "unserialize_event cp event q =
     bindE (ev_unserialize cp (events q event)) (\<lambda>e. checkpointReschedule event (set_event event (\<lambda>_. e) q))"

definition replaceHead :: "ev_ptr option \<Rightarrow> eventq \<Rightarrow> ev_ptr option \<times> eventq" where
  "replaceHead s q = (eq_head q, q\<lparr>eq_head := s\<rparr>)"

text \<open>The destructor: \<open>while (!empty()) deschedule(getHead());\<close>\<close>

partial_function (option) destroy_EventQueue :: "eventq \<Rightarrow> eventq res option" where
  "destroy_EventQueue q =
     (case eq_head q of
        None \<Rightarrow> Some (Inr q)
      | Some h \<Rightarrow> (case eq_deschedule h q of Inl e \<Rightarrow> Some (Inl e) | Inr q \<Rightarrow> destroy_EventQueue q))"

declare destroy_EventQueue.simps [code]

section \<open>Servicing\<close>

text \<open>Taking the head: the next event of its bin becomes the top and gets its \<open>nextBin\<close>.\<close>

definition pop_head :: "ev_ptr \<Rightarrow> eventq \<Rightarrow> eventq" where
  "pop_head h q =
     (case nextInBin (events q h) of
        Some n \<Rightarrow> (set_event n (\<lambda>e. e\<lparr>nextBin := nextBin (events q h)\<rparr>) q)\<lparr>eq_head := Some n\<rparr>
      | None \<Rightarrow> q\<lparr>eq_head := nextBin (events q h)\<rparr>)"

text \<open>The result is the exit event, if the event is one.\<close>

definition serviceOne :: "(ev_ptr \<Rightarrow> eventq \<Rightarrow> eventq res) \<Rightarrow> eventq \<Rightarrow> (eventq \<times> ev_ptr option) res" where
  "serviceOne process q =
     (case eq_head q of
        None \<Rightarrow> Inl NullDeref
      | Some h \<Rightarrow>
          let q = pop_head h (set_event h (\<lambda>e. e\<lparr>ev_Scheduled := False\<rparr>) q) in
          if \<not> ev_Squashed (events q h) then
            bindE (process h (q\<lparr>eq_curTick := ev_when (events q h)\<rparr>)) (\<lambda>q.
            if ev_IsExitEvent (events q h) then
              bindE (guardE (\<not> ev_Managed (events q h) \<or> \<not> ev_IsMainQueue (events q h))
                       (AssertFail ''!Managed || !IsMainQueue'')) (\<lambda>_.
              Inr (q, Some h))
            else Inr (ev_release h q, None))
          else Inr (ev_release h (set_event h (\<lambda>e. e\<lparr>ev_Squashed := False\<rparr>) q), None))"

partial_function (option) service_loop ::
    "(ev_ptr \<Rightarrow> eventq \<Rightarrow> eventq res) \<Rightarrow> u64 \<Rightarrow> eventq \<Rightarrow> eventq res option" where
  "service_loop process when q =
     (case eq_head q of
        None \<Rightarrow> Some (Inr q)
      | Some h \<Rightarrow>
          if when < ev_when (events q h) then Some (Inr q)
          else (case serviceOne process q of
                  Inl e \<Rightarrow> Some (Inl e)
                | Inr (q, _) \<Rightarrow> service_loop process when q))"

declare service_loop.simps [code]

definition serviceEvents :: "(ev_ptr \<Rightarrow> eventq \<Rightarrow> eventq res) \<Rightarrow> u64 \<Rightarrow> eventq \<Rightarrow> eventq res" where
  "serviceEvents process when q =
     bindE (loopE (service_loop process when q)) (\<lambda>r. mapE (\<lambda>q. q\<lparr>eq_curTick := when\<rparr>) r)"

section \<open>Verification at run time\<close>

text \<open>The inner loop of \<open>debugVerify\<close>: \<open>None\<close> if it reports an error, else time, priority and the seen events.\<close>

partial_function (option) verify_bin ::
    "ev_store \<Rightarrow> ev_ptr option \<Rightarrow> u64 \<times> int \<times> ev_ptr list \<Rightarrow> (u64 \<times> int \<times> ev_ptr list) option option" where
  "verify_bin st p acc =
     (case p of
        None \<Rightarrow> Some (Some acc)
      | Some e \<Rightarrow>
          (case acc of (time, priority, seen) \<Rightarrow>
             if ev_when (st e) < time then Some None
             else if ev_when (st e) = time \<and> ev_priority (st e) < priority then Some None
             else if e \<in> set seen then Some None
             else verify_bin st (nextInBin (st e)) (ev_when (st e), ev_priority (st e), e # seen)))"

declare verify_bin.simps [code]

partial_function (option) verify_bins ::
    "ev_store \<Rightarrow> ev_ptr option \<Rightarrow> u64 \<times> int \<times> ev_ptr list \<Rightarrow> bool option" where
  "verify_bins st p acc =
     (case p of
        None \<Rightarrow> Some True
      | Some e \<Rightarrow>
          (case verify_bin st (Some e) acc of
             None \<Rightarrow> None
           | Some None \<Rightarrow> Some False
           | Some (Some acc) \<Rightarrow> verify_bins st (nextBin (st e)) acc))"

declare verify_bins.simps [code]

definition debugVerify :: "eventq \<Rightarrow> bool res" where
  "debugVerify q = loopE (verify_bins (events q) (eq_head q) (0, 0, []))"

section \<open>The main queues\<close>

text \<open>\<open>getEventQueue\<close>: the names of the queues, a new one being named after \<open>index\<close>.\<close>

definition getEventQueue :: "nat \<Rightarrow> nat list \<Rightarrow> nat list" where
  "getEventQueue index names = names @ replicate (Suc index - length names) index"

end
