(* ===== verification/Event_Queue_Refine.thy ===== *)
theory Event_Queue_Refine
  imports Event_Queue
begin

text \<open>
  The linked bins of the event queue represent a list of events, ordered by time and priority
  with the latest insertion first among equals.  Every operation ends and does to the list what
  its specification says.
\<close>

section \<open>Keys\<close>

definition ev_key :: "event \<Rightarrow> u64 \<times> int" where
  "ev_key e = (ev_when e, ev_priority e)"

lemma ev_order:
  "ev_less l r \<longleftrightarrow> ev_key l < ev_key r" "ev_le l r \<longleftrightarrow> ev_key l \<le> ev_key r" "ev_eq l r \<longleftrightarrow> ev_key l = ev_key r"
  by (auto simp: ev_less_def ev_le_def ev_eq_def ev_key_def less_prod_def' less_eq_prod_def)

lemma ev_key_fields [simp]:
  "ev_key (e\<lparr>nextBin := a\<rparr>) = ev_key e" "ev_key (e\<lparr>nextInBin := b\<rparr>) = ev_key e"
  "ev_key (e\<lparr>ev_Scheduled := c\<rparr>) = ev_key e" "ev_key (e\<lparr>ev_Squashed := c\<rparr>) = ev_key e"
  "ev_key (e\<lparr>ev_freed := c\<rparr>) = ev_key e" "ev_key (e\<lparr>ev_queue := d\<rparr>) = ev_key e"
  by (simp_all add: ev_key_def)

section \<open>Linked bins\<close>

primrec in_bin :: "ev_store \<Rightarrow> ev_ptr option \<Rightarrow> ev_ptr list \<Rightarrow> bool" where
  "in_bin st p [] \<longleftrightarrow> p = None"
| "in_bin st p (x # xs) \<longleftrightarrow> p = Some x \<and> in_bin st (nextInBin (st x)) xs"

primrec path :: "ev_store \<Rightarrow> ev_ptr option \<Rightarrow> ev_ptr list list \<Rightarrow> ev_ptr option \<Rightarrow> bool" where
  "path st p [] r \<longleftrightarrow> p = r"
| "path st p (b # bs) r \<longleftrightarrow> b \<noteq> [] \<and> in_bin st p b \<and> path st (nextBin (st (hd b))) bs r"

lemma in_bin_head: "in_bin st p b \<Longrightarrow> b \<noteq> [] \<Longrightarrow> p = Some (hd b)"
  by (cases b) auto

lemma path_append: "path st p (xs @ ys) r \<longleftrightarrow> (\<exists>q. path st p xs q \<and> path st q ys r)"
  by (induction xs arbitrary: p) auto

lemma in_bin_cong: "(\<And>x. x \<in> set b \<Longrightarrow> nextInBin (st' x) = nextInBin (st x)) \<Longrightarrow> in_bin st' p b = in_bin st p b"
  by (induction b arbitrary: p) auto

lemma path_cong:
  assumes "\<And>x. x \<in> set (concat bs) \<Longrightarrow> nextInBin (st' x) = nextInBin (st x) \<and> nextBin (st' x) = nextBin (st x)"
  shows "path st' p bs r = path st p bs r"
  using assms
proof (induction bs arbitrary: p)
  case (Cons b bs)
  have i: "in_bin st' p b = in_bin st p b" using Cons.prems by (intro in_bin_cong) auto
  show ?case
  proof (cases "b = []")
    case False
    then have "nextBin (st' (hd b)) = nextBin (st (hd b))" using Cons.prems by auto
    then show ?thesis using Cons.IH Cons.prems i by simp
  qed simp
qed simp

lemma in_bin_fun_upd: "x \<notin> set b \<Longrightarrow> in_bin (st(x := e)) p b = in_bin st p b"
  by (rule in_bin_cong) auto

lemma path_fun_upd: "x \<notin> set (concat bs) \<Longrightarrow> path (st(x := e)) p bs r = path st p bs r"
  by (rule path_cong) (auto simp: fun_upd_def)

text \<open>Redirecting the end of a path changes only the top of its last bin.\<close>

lemma path_redirect:
  assumes "path st p (xs @ [c]) r" and "distinct (concat (xs @ [c]))"
  shows "path (st(hd c := (st (hd c))\<lparr>nextBin := r'\<rparr>)) p (xs @ [c]) r'"
proof -
  let ?st = "st(hd c := (st (hd c))\<lparr>nextBin := r'\<rparr>)"
  obtain q where q: "path st p xs q" "c \<noteq> []" "in_bin st q c" using assms(1) by (auto simp: path_append)
  have "path ?st p xs q"
  proof (rule iffD2 [OF path_cong q(1)])
    fix x assume "x \<in> set (concat xs)"
    then have "x \<noteq> hd c" using assms(2) q(2) by auto
    then show "nextInBin (?st x) = nextInBin (st x) \<and> nextBin (?st x) = nextBin (st x)" by simp
  qed
  moreover have "in_bin ?st q c" using q(3) by (subst in_bin_cong) auto
  ultimately show ?thesis using q(2) by (auto simp: path_append)
qed

section \<open>The representation\<close>

definition bins_ok :: "(ev_ptr \<Rightarrow> u64 \<times> int) \<Rightarrow> ev_ptr list list \<Rightarrow> bool" where
  "bins_ok key bs \<longleftrightarrow> distinct (concat bs) \<and> (\<forall>b \<in> set bs. b \<noteq> [] \<and> (\<forall>x \<in> set b. key x = key (hd b))) \<and>
     sorted_wrt (\<lambda>b c. key (hd b) < key (hd c)) bs"

abbreviation key_of :: "eventq \<Rightarrow> ev_ptr \<Rightarrow> u64 \<times> int" where
  "key_of q x \<equiv> ev_key (events q x)"

definition represents :: "eventq \<Rightarrow> ev_ptr list list \<Rightarrow> bool" where
  "represents q bs \<longleftrightarrow> path (events q) (eq_head q) bs None \<and> bins_ok (key_of q) bs"

text \<open>An insertion at the level of bins, and of the events in their order.\<close>

fun ins_bins :: "(ev_ptr \<Rightarrow> u64 \<times> int) \<Rightarrow> ev_ptr \<Rightarrow> ev_ptr list list \<Rightarrow> ev_ptr list list" where
  "ins_bins key x [] = [[x]]"
| "ins_bins key x (b # bs) =
     (if key x < key (hd b) then [x] # b # bs
      else if key x = key (hd b) then (x # b) # bs
      else b # ins_bins key x bs)"

definition ins_event :: "(ev_ptr \<Rightarrow> u64 \<times> int) \<Rightarrow> ev_ptr \<Rightarrow> ev_ptr list \<Rightarrow> ev_ptr list" where
  "ins_event key x xs = takeWhile (\<lambda>y. key y < key x) xs @ x # dropWhile (\<lambda>y. key y < key x) xs"

lemma bins_ok_Cons:
  "bins_ok key (b # bs) \<longleftrightarrow> b \<noteq> [] \<and> distinct b \<and> set b \<inter> set (concat bs) = {} \<and> (\<forall>x \<in> set b. key x = key (hd b)) \<and>
     (\<forall>c \<in> set bs. key (hd b) < key (hd c)) \<and> bins_ok key bs"
  unfolding bins_ok_def concat.simps distinct_append list.set ball_simps sorted_wrt.simps by blast

lemma bin_key:
  assumes "bins_ok key bs" and "b \<in> set bs"
  obtains k where "\<And>x. x \<in> set b \<Longrightarrow> key x = k" "key (hd b) = k" "b \<noteq> []"
proof -
  have "b \<noteq> []" "\<forall>x \<in> set b. key x = key (hd b)" using assms unfolding bins_ok_def by blast+
  then show ?thesis using that [of "key (hd b)"] by blast
qed

lemma ins_bins_concat:
  "bins_ok key bs \<Longrightarrow> concat (ins_bins key x bs) = ins_event key x (concat bs)"
proof (induction bs)
  case (Cons b bs)
  obtain k where b: "\<And>x. x \<in> set b \<Longrightarrow> key x = k" "key (hd b) = k" "b \<noteq> []"
    using bin_key [OF Cons.prems] by (metis list.set_intros(1))
  have ok: "bins_ok key bs" using Cons.prems unfolding bins_ok_Cons by blast
  show ?case
  proof (cases "k < key x")
    case True
    then have "\<forall>y \<in> set b. key y < key x" using b by simp
    then have "takeWhile (\<lambda>y. key y < key x) (b @ ys) = b @ takeWhile (\<lambda>y. key y < key x) ys"
      "dropWhile (\<lambda>y. key y < key x) (b @ ys) = dropWhile (\<lambda>y. key y < key x) ys" for ys
      by (simp_all add: takeWhile_append2 dropWhile_append2)
    then show ?thesis using True Cons.IH [OF ok] b(2) by (auto simp: ins_event_def)
  next
    case False
    obtain y ys where y: "b = y # ys" using b(3) by (cases b) auto
    then have "\<not> key y < key x" using False b(1) by simp
    then show ?thesis using False y b(2) by (auto simp: ins_event_def)
  qed
qed (simp add: ins_event_def)

lemma ins_event_set: "set (ins_event key x xs) = insert x (set xs)"
  unfolding ins_event_def by (metis Un_insert_right set_append list.simps(15) takeWhile_dropWhile_id)

lemma ins_event_sorted:
  assumes "sorted (map key xs)"
  shows "sorted (map key (ins_event key x xs))"
proof -
  have "\<forall>y \<in> set (takeWhile (\<lambda>y. key y < key x) xs). key y < key x"
    by (auto dest: set_takeWhileD)
  moreover have "\<forall>y \<in> set (dropWhile (\<lambda>y. key y < key x) xs). key x \<le> key y"
    using assms
  proof (induction xs)
    case (Cons a xs)
    then show ?case by (auto simp: not_less intro: order_trans)
  qed simp
  moreover have "sorted (map key (takeWhile (\<lambda>y. key y < key x) xs))" "sorted (map key (dropWhile (\<lambda>y. key y < key x) xs))"
    using assms by (metis map_append sorted_append takeWhile_dropWhile_id)+
  ultimately show ?thesis by (force simp: ins_event_def sorted_append)
qed

lemma bins_sorted: "bins_ok key bs \<Longrightarrow> sorted (map key (concat bs))"
proof (induction bs)
  case (Cons b bs)
  obtain k where b: "\<And>x. x \<in> set b \<Longrightarrow> key x = k" "key (hd b) = k"
    using bin_key [OF Cons.prems] by (metis list.set_intros(1))
  have lt: "\<forall>c \<in> set bs. key (hd b) < key (hd c)" and ok: "bins_ok key bs"
    using Cons.prems unfolding bins_ok_Cons by blast+
  have "k \<le> key y" if "y \<in> set (concat bs)" for y
  proof -
    from that obtain c where c: "c \<in> set bs" "y \<in> set c" by auto
    then have "key y = key (hd c)" using ok unfolding bins_ok_def by blast
    then show ?thesis using lt c(1) b(2) by (simp add: less_imp_le)
  qed
  moreover have "map key b = map (\<lambda>_. k) b" using b by simp
  then have "sorted (map key b)" by (simp add: map_replicate_const)
  ultimately show ?case using Cons.IH [OF ok] b(1) by (auto simp: sorted_append)
qed simp

section \<open>Insertion\<close>

definition head_of :: "ev_ptr list list \<Rightarrow> ev_ptr option" where
  "head_of bs = (case bs of [] \<Rightarrow> None | b # _ \<Rightarrow> Some (hd b))"

lemma path_head: "path st p bs None \<Longrightarrow> p = head_of bs"
  by (cases bs) (auto simp: head_of_def dest: in_bin_head)

lemma ins_bins_set: "set (concat (ins_bins key x bs)) = insert x (set (concat bs))"
  by (induction bs) auto

lemma ins_bins_members:
  "d \<in> set (ins_bins key x bs) \<Longrightarrow> d = [x] \<or> d \<in> set bs \<or> (\<exists>b \<in> set bs. d = x # b \<and> key x = key (hd b))"
  by (induction bs) (auto split: if_splits)

lemma ins_bins_ok:
  assumes "bins_ok key bs" and "x \<notin> set (concat bs)"
  shows "bins_ok key (ins_bins key x bs)"
  using assms
proof (induction bs)
  case Nil
  then show ?case by (simp add: bins_ok_def)
next
  case (Cons b bs)
  obtain k where k: "\<And>y. y \<in> set b \<Longrightarrow> key y = k" "key (hd b) = k" "b \<noteq> []"
    using bin_key [OF Cons.prems(1)] by (metis list.set_intros(1))
  have b: "distinct b" "set b \<inter> set (concat bs) = {}" "\<forall>c \<in> set bs. key (hd b) < key (hd c)" and ok: "bins_ok key bs"
    using Cons.prems(1) unfolding bins_ok_Cons by blast+
  have x: "x \<notin> set b" "x \<notin> set (concat bs)" using Cons.prems(2) by simp_all
  consider "key x < k" | "key x = k" | "k < key x" by force
  then show ?case
  proof cases
    case 1
    then have "\<forall>c \<in> set (b # bs). key x < key (hd c)" using b(3) k(2) by (auto intro: order.strict_trans)
    then have "bins_ok key ([x] # b # bs)"
      using Cons.prems by (subst bins_ok_Cons) auto
    then show ?thesis using 1 k(2) by simp
  next
    case 2
    then have "bins_ok key ((x # b) # bs)"
      using b x ok k by (subst bins_ok_Cons) simp
    then show ?thesis using 2 k(2) by simp
  next
    case 3
    have "k < key (hd c)" if "c \<in> set (ins_bins key x bs)" for c
      using ins_bins_members [OF that] 3 b(3) k(2) by auto
    then have "bins_ok key (b # ins_bins key x bs)"
      using Cons.IH [OF ok x(2)] b(1,2) x k by (subst bins_ok_Cons) (simp add: ins_bins_set del: set_concat)
    then show ?thesis using 3 k(2) by auto
  qed
qed

lemma ins_bins_skip:
  "\<forall>d \<in> set xs. key (hd d) < key x \<Longrightarrow> ins_bins key x (xs @ ys) = xs @ ins_bins key x ys"
  by (induction xs) auto

lemma insertBefore_path:
  assumes p: "path st p ys None" and ge: "\<forall>d \<in> set ys. ev_key (st x) \<le> ev_key (st (hd d))" and x: "x \<notin> set (concat ys)"
  shows "path (insertBefore x p st) (Some x) (ins_bins (\<lambda>y. ev_key (st y)) x ys) None"
proof (cases ys)
  case Nil
  then show ?thesis using p by (simp add: insertBefore_def)
next
  case (Cons d ds)
  then have pd: "p = Some (hd d)" "d \<noteq> []" "in_bin st p d" "path st (nextBin (st (hd d))) ds None"
    using p in_bin_head by auto
  have d: "hd d \<noteq> x" using x pd(2) Cons by auto
  have xd: "x \<notin> set d" "x \<notin> set (concat ds)" using x Cons by simp_all
  show ?thesis
  proof (cases "ev_key (st x) < ev_key (st (hd d))")
    case True
    then show ?thesis
      using pd xd Cons d by (simp add: insertBefore_def ev_order path_fun_upd in_bin_fun_upd)
  next
    case False
    then have "ev_key (st x) = ev_key (st (hd d))" using ge Cons by (simp add: not_less order_antisym)
    then show ?thesis
      using pd xd Cons d by (simp add: insertBefore_def ev_order path_fun_upd in_bin_fun_upd)
  qed
qed

lemma find_bin_spec:
  assumes "path st (Some p) (b # bs) None" and "bins_ok (\<lambda>y. ev_key (st y)) (b # bs)" and "ev_key (st p) < ev_key e"
  shows "\<exists>xs c ys. b # bs = xs @ c # ys \<and> find_bin st e p (nextBin (st p)) = Some (hd c, head_of ys) \<and>
     (\<forall>d \<in> set (xs @ [c]). ev_key (st (hd d)) < ev_key e) \<and> (\<forall>d \<in> set ys. ev_key e \<le> ev_key (st (hd d)))"
  using assms
proof (induction bs arbitrary: p b)
  case Nil
  then have p: "p = hd b" "nextBin (st p) = None" using in_bin_head by fastforce+
  have "find_bin st e p (nextBin (st p)) = Some (p, None)"
    by (subst find_bin.simps) (simp add: p(2))
  then show ?case
    using p Nil.prems(3) by (intro exI [of _ "[]"] exI [of _ b]) (simp add: head_of_def)
next
  case (Cons d bs)
  have p: "p = hd b" and next_d: "nextBin (st p) = Some (hd d)" and pd: "path st (Some (hd d)) (d # bs) None"
    using Cons.prems(1) in_bin_head [of st _ d] in_bin_head [of st "Some p" b] by fastforce+
  have ok: "bins_ok (\<lambda>y. ev_key (st y)) (d # bs)" and lt: "\<forall>c \<in> set bs. ev_key (st (hd d)) < ev_key (st (hd c))"
    using Cons.prems(2) unfolding bins_ok_Cons by blast+
  show ?case
  proof (cases "ev_key (st (hd d)) < ev_key e")
    case True
    from Cons.IH [OF pd ok True] obtain xs c ys where h: "d # bs = xs @ c # ys"
      "find_bin st e (hd d) (nextBin (st (hd d))) = Some (hd c, head_of ys)"
      "\<forall>d \<in> set (xs @ [c]). ev_key (st (hd d)) < ev_key e" "\<forall>d \<in> set ys. ev_key e \<le> ev_key (st (hd d))" by blast
    have "find_bin st e p (nextBin (st p)) = Some (hd c, head_of ys)"
      using True h(2) by (subst find_bin.simps) (simp add: next_d ev_order)
    then show ?thesis
      using h Cons.prems(3) p by (intro exI [of _ "b # xs"] exI [of _ c] exI [of _ ys]) simp
  next
    case False
    have "find_bin st e p (nextBin (st p)) = Some (p, Some (hd d))"
      using False by (subst find_bin.simps) (simp add: next_d ev_order)
    moreover have "\<forall>c \<in> set (d # bs). ev_key e \<le> ev_key (st (hd c))"
      using False lt by (auto simp: not_less intro: order_trans less_imp_le)
    ultimately show ?thesis
      using Cons.prems(3) p by (intro exI [of _ "[]"] exI [of _ b] exI [of _ "d # bs"]) (simp add: head_of_def)
  qed
qed

text \<open>Operations change links and the head only.\<close>

definition relinked :: "eventq \<Rightarrow> eventq \<Rightarrow> bool" where
  "relinked q q' \<longleftrightarrow> (\<forall>y. \<exists>a b. events q' y = (events q y)\<lparr>nextBin := a, nextInBin := b\<rparr>) \<and>
     q' = q\<lparr>events := events q', eq_head := eq_head q'\<rparr>"

lemma relinked_key: "relinked q q' \<Longrightarrow> key_of q' y = key_of q y"
  unfolding relinked_def by (metis ev_key_fields(1,2))

lemma insertBefore_links: "\<exists>a b. insertBefore x p st y = (st y)\<lparr>nextBin := a, nextInBin := b\<rparr>"
proof -
  have self: "\<exists>a b. st y = (st y)\<lparr>nextBin := a, nextInBin := b\<rparr>"
    by (rule exI [of _ "nextBin (st y)"], rule exI [of _ "nextInBin (st y)"]) simp
  show ?thesis using self by (cases "y = x") (auto simp: insertBefore_def split: option.split)
qed

lemma links_nextBin:
  assumes "\<And>y. \<exists>a b. st' y = (st y)\<lparr>nextBin := a, nextInBin := b\<rparr>"
  shows "\<exists>a b. (st'(z := (st' z)\<lparr>nextBin := r\<rparr>)) y = (st y)\<lparr>nextBin := a, nextInBin := b\<rparr>"
proof (cases "y = z")
  case True
  obtain a b where "st' z = (st z)\<lparr>nextBin := a, nextInBin := b\<rparr>" using assms by blast
  then have "(st'(z := (st' z)\<lparr>nextBin := r\<rparr>)) y = (st y)\<lparr>nextBin := r, nextInBin := b\<rparr>"
    using True by simp
  then show ?thesis by blast
qed (use assms in simp)

lemma relinkedI:
  assumes "\<And>y. \<exists>a b. st' y = (events q y)\<lparr>nextBin := a, nextInBin := b\<rparr>"
    and "q' = q\<lparr>events := st'\<rparr> \<or> q' = q\<lparr>events := st', eq_head := h\<rparr>"
  shows "relinked q q'"
  using assms by (auto simp: relinked_def)

lemma eq_insert_refines:
  assumes r: "represents q bs" and x: "x \<notin> set (concat bs)"
  shows "okE (eq_insert x q) (\<lambda>q'. represents q' (ins_bins (key_of q) x bs) \<and> relinked q q')"
proof -
  let ?st = "events q" and ?key = "key_of q"
  have p: "path ?st (eq_head q) bs None" and ok: "bins_ok ?key bs" using r by (simp_all add: represents_def)
  have head: "eq_head q = head_of bs" by (rule path_head [OF p])
  show ?thesis
  proof (cases "\<forall>d \<in> set bs. ?key x \<le> ?key (hd d)")
    case True
    let ?q' = "q\<lparr>events := insertBefore x (eq_head q) ?st, eq_head := Some x\<rparr>"
    have run: "eq_insert x q = Inr ?q'"
      using True head by (cases bs) (auto simp: eq_insert_def head_of_def Let_def ev_order)
    have rel: "relinked q ?q'" by (rule relinkedI [of "insertBefore x (eq_head q) ?st" _ _ "Some x"], rule insertBefore_links) simp
    have "path (events ?q') (eq_head ?q') (ins_bins ?key x bs) None"
      using insertBefore_path [OF p _ x] True by simp
    then show ?thesis
      unfolding run okE_Inr represents_def using rel ins_bins_ok [OF ok x] by (simp only: relinked_key [OF rel] simp_thms)
  next
    case False
    then obtain b bs' where bs: "bs = b # bs'" by (cases bs) auto
    then have h: "eq_head q = Some (hd b)" using head by (simp add: head_of_def)
    have "\<forall>c \<in> set bs'. ?key (hd b) < ?key (hd c)" using ok unfolding bs bins_ok_Cons by blast
    then have lt: "?key (hd b) < ?key x"
      using False unfolding bs by (auto simp: not_le intro: order.strict_trans)
    obtain xs c ys where f: "bs = xs @ c # ys" "find_bin ?st (?st x) (hd b) (nextBin (?st (hd b))) = Some (hd c, head_of ys)"
      "\<forall>d \<in> set (xs @ [c]). ?key (hd d) < ?key x" "\<forall>d \<in> set ys. ?key x \<le> ?key (hd d)"
      using find_bin_spec [OF p [unfolded bs h [unfolded bs]] ok [unfolded bs] lt] unfolding bs by blast
    let ?st1 = "insertBefore x (head_of ys) ?st"
    let ?q' = "q\<lparr>events := ?st1(hd c := (?st1 (hd c))\<lparr>nextBin := Some x\<rparr>)\<rparr>"
    have run: "eq_insert x q = Inr ?q'"
      using h lt f(2) by (simp add: eq_insert_def ev_order Let_def)
    have rel: "relinked q ?q'"
      by (rule relinkedI [of "?st1(hd c := (?st1 (hd c))\<lparr>nextBin := Some x\<rparr>)"], rule links_nextBin, rule insertBefore_links) simp
    have d: "distinct (concat (xs @ c # ys))" "c \<noteq> []" using ok unfolding f(1) bins_ok_def by (blast, simp)
    have st1: "?st1 y = ?st y" if "y \<noteq> x" for y using that by (simp add: insertBefore_def split: option.split)
    obtain r where pr: "path ?st (eq_head q) (xs @ [c]) r" "path ?st r ys None"
      using p path_append [of ?st "eq_head q" "xs @ [c]" ys None] unfolding f(1) by auto
    have r: "r = head_of ys" by (rule path_head [OF pr(2)])
    have same: "?st1 y = ?st y" if "y \<in> set (concat (xs @ [c]))" for y
    proof -
      have "y \<noteq> x" using that x unfolding f(1) by auto
      then show ?thesis by (rule st1)
    qed
    have "path ?st1 (eq_head q) (xs @ [c]) r"
      by (rule iffD2 [OF path_cong pr(1)]) (simp only: same)
    moreover have "distinct (concat (xs @ [c]))" using d(1) by auto
    ultimately have 1: "path (events ?q') (eq_head q) (xs @ [c]) (Some x)"
      using path_redirect [of ?st1 "eq_head q" xs c r "Some x"] by simp
    have "path ?st1 (Some x) (ins_bins ?key x ys) None"
      using insertBefore_path [OF pr(2) f(4)] x unfolding f(1) r by simp
    moreover have "hd c \<notin> set (concat (ins_bins ?key x ys))"
    proof -
      have "set c \<inter> set (concat ys) = {}" "x \<notin> set c" using d(1) x f(1) by auto
      then show ?thesis using hd_in_set [OF d(2)] unfolding ins_bins_set by blast
    qed
    ultimately have 2: "path (events ?q') (Some x) (ins_bins ?key x ys) None"
      by (simp add: path_fun_upd)
    have "path (events ?q') (eq_head ?q') (ins_bins ?key x bs) None"
      using 1 2 path_append [of "events ?q'" "eq_head q" "xs @ [c]" "ins_bins ?key x ys" None]
        ins_bins_skip [OF f(3), of ys] unfolding f(1) by auto
    then show ?thesis
      unfolding run okE_Inr represents_def using rel ins_bins_ok [OF ok x] by (simp only: relinked_key [OF rel] simp_thms)
  qed
qed

section \<open>Removal\<close>

definition rem_bins :: "ev_ptr \<Rightarrow> ev_ptr list list \<Rightarrow> ev_ptr list list" where
  "rem_bins x bs = filter (\<lambda>b. b \<noteq> []) (map (remove1 x) bs)"

lemma rem_bins_absent: "x \<notin> set (concat bs) \<Longrightarrow> [] \<notin> set bs \<Longrightarrow> rem_bins x bs = bs"
proof (induction bs)
  case (Cons b bs)
  then have "remove1 x b = b" "b \<noteq> []" by (auto simp: remove1_idem)
  then show ?case using Cons by (simp add: rem_bins_def)
qed (simp add: rem_bins_def)

lemma rem_bins_at:
  assumes "x \<in> set c" and "distinct (concat (xs @ c # ys))" and "[] \<notin> set (xs @ c # ys)"
  shows "rem_bins x (xs @ c # ys) = xs @ (if remove1 x c = [] then [] else [remove1 x c]) @ ys"
proof -
  have "x \<notin> set (concat xs)" "x \<notin> set (concat ys)" using assms(1,2) by auto
  then have "rem_bins x xs = xs" "rem_bins x ys = ys" using assms(3) by (auto intro!: rem_bins_absent)
  then show ?thesis by (simp add: rem_bins_def)
qed

lemma concat_rem_bins: "distinct (concat bs) \<Longrightarrow> concat (rem_bins x bs) = remove1 x (concat bs)"
proof (induction bs)
  case (Cons b bs)
  show ?case
  proof (cases "x \<in> set b")
    case True
    then have "x \<notin> set (concat bs)" using Cons.prems by auto
    then have "concat (rem_bins x bs) = concat bs" using Cons by (simp add: remove1_idem)
    then show ?thesis using True by (auto simp: rem_bins_def remove1_append)
  next
    case False
    then show ?thesis using Cons by (auto simp: rem_bins_def remove1_append remove1_idem)
  qed
qed (simp add: rem_bins_def)

lemma bins_ok_append:
  "bins_ok key (xs @ ys) \<longleftrightarrow> bins_ok key xs \<and> bins_ok key ys \<and> set (concat xs) \<inter> set (concat ys) = {} \<and>
     (\<forall>b \<in> set xs. \<forall>c \<in> set ys. key (hd b) < key (hd c))"
  unfolding bins_ok_def concat_append distinct_append set_append sorted_wrt_append by blast

lemma bin_shrink:
  assumes ok: "bins_ok key (xs @ c # ys)" and c': "set c' \<subseteq> set c" "distinct c'"
  shows "bins_ok key (xs @ (if c' = [] then [] else [c']) @ ys)"
proof -
  have o: "bins_ok key xs" "bins_ok key ys" "set (concat xs) \<inter> set (concat (c # ys)) = {}"
    "\<forall>b \<in> set xs. \<forall>d \<in> set (c # ys). key (hd b) < key (hd d)" "set c \<inter> set (concat ys) = {}"
    "\<forall>d \<in> set ys. key (hd c) < key (hd d)"
    using ok unfolding bins_ok_append bins_ok_Cons [of key c] by blast+
  show ?thesis
  proof (cases "c' = []")
    case True
    have "bins_ok key (xs @ ys)" unfolding bins_ok_append using o by auto
    then show ?thesis using True by simp
  next
    case False
    obtain k where k: "\<And>y. y \<in> set c \<Longrightarrow> key y = k" "key (hd c) = k" "c \<noteq> []"
      using bin_key [OF ok] by (metis in_set_conv_decomp)
    have kc: "\<And>y. y \<in> set c' \<Longrightarrow> key y = k" using k(1) c'(1) by blast
    then have hd: "key (hd c') = k" using False by simp
    have "bins_ok key (c' # ys)"
      using o(2,5,6) False c' kc hd k(2) by (subst bins_ok_Cons) auto
    moreover have "set (concat xs) \<inter> set (concat (c' # ys)) = {}" using o(3) c'(1) by auto
    moreover have "\<forall>b \<in> set xs. \<forall>d \<in> set (c' # ys). key (hd b) < key (hd d)" using o(4) hd k(2) by simp
    ultimately have "bins_ok key (xs @ c' # ys)" unfolding bins_ok_append [of key xs] using o(1) by blast
    then show ?thesis using False by simp
  qed
qed

lemma in_bin_unlink:
  "in_bin st p (u @ v # x # w) \<Longrightarrow> distinct (u @ v # x # w) \<Longrightarrow>
   in_bin (st(v := (st v)\<lparr>nextInBin := nextInBin (st x)\<rparr>)) p (u @ v # w)"
  by (induction u arbitrary: p) (simp_all add: in_bin_fun_upd)

lemma find_item_spec:
  assumes "in_bin st (Some a) (a # c)" and "x \<in> set c" and "x \<noteq> a"
  shows "\<exists>u v w. a # c = u @ v # x # w \<and> find_item st x a (nextInBin (st a)) = Some (Inr v)"
  using assms
proof (induction c arbitrary: a)
  case (Cons b c)
  have n: "nextInBin (st a) = Some b" "in_bin st (Some b) (b # c)" using Cons.prems(1) by auto
  show ?case
  proof (cases "b = x")
    case True
    then have "find_item st x a (nextInBin (st a)) = Some (Inr a)"
      by (subst find_item.simps) (simp add: n(1))
    then show ?thesis using True by (intro exI [of _ "[]"] exI [of _ a] exI [of _ c]) simp
  next
    case False
    then obtain u v w where h: "b # c = u @ v # x # w" "find_item st x b (nextInBin (st b)) = Some (Inr v)"
      using Cons.IH [OF n(2)] Cons.prems(2) by auto
    have "find_item st x a (nextInBin (st a)) = Some (Inr v)"
      using False h(2) by (subst find_item.simps) (simp add: n(1))
    then show ?thesis using h(1) by (intro exI [of _ "a # u"] exI [of _ v] exI [of _ w]) simp
  qed
qed simp

definition removed_item :: "ev_store \<Rightarrow> ev_ptr list \<Rightarrow> ev_ptr option \<Rightarrow> ev_ptr option \<Rightarrow> ev_store \<Rightarrow> bool" where
  "removed_item st c' r n st' \<longleftrightarrow> (c' = [] \<longrightarrow> n = r) \<and> (c' \<noteq> [] \<longrightarrow> in_bin st' n c' \<and> nextBin (st' (hd c')) = r) \<and>
     (\<forall>y. y \<notin> set c' \<longrightarrow> st' y = st y) \<and> (\<forall>y. \<exists>a b. st' y = (st y)\<lparr>nextBin := a, nextInBin := b\<rparr>)"

lemma same_links: "\<exists>a b. st y = (st y :: event)\<lparr>nextBin := a, nextInBin := b\<rparr>"
  by (rule exI [of _ "nextBin (st y)"], rule exI [of _ "nextInBin (st y)"]) simp

lemma links_nextInBin:
  assumes "\<And>y. \<exists>a b. st' y = (st y)\<lparr>nextBin := a, nextInBin := b\<rparr>"
  shows "\<exists>a b. (st'(z := (st' z)\<lparr>nextInBin := r\<rparr>)) y = (st y)\<lparr>nextBin := a, nextInBin := b\<rparr>"
proof (cases "y = z")
  case True
  obtain a b where "st' z = (st z)\<lparr>nextBin := a, nextInBin := b\<rparr>" using assms by blast
  then have "(st'(z := (st' z)\<lparr>nextInBin := r\<rparr>)) y = (st y)\<lparr>nextBin := a, nextInBin := r\<rparr>"
    using True by simp
  then show ?thesis by blast
qed (use assms in simp)

lemma removeItem_spec:
  assumes b: "in_bin st (Some (hd c)) c" "c \<noteq> []" "distinct c" and x: "x \<in> set c"
  shows "okE (removeItem x (hd c) st) (\<lambda>(n, st'). removed_item st (remove1 x c) (nextBin (st (hd c))) n st')"
proof -
  obtain a cs where c: "c = a # cs" using b(2) by (cases c) auto
  show ?thesis
  proof (cases "x = a")
    case True
    show ?thesis
    proof (cases cs)
      case Nil
      then show ?thesis using b(1) True c by (simp add: removeItem_def removed_item_def same_links)
    next
      case (Cons d ds)
      have "\<exists>a b. (st(d := (st d)\<lparr>nextBin := r\<rparr>)) y = (st y)\<lparr>nextBin := a, nextInBin := b\<rparr>" for r y
        by (rule links_nextBin) (rule same_links)
      then show ?thesis
        using b(1,3) True c Cons by (auto simp: removeItem_def removed_item_def in_bin_fun_upd)
    qed
  next
    case False
    then obtain u v w where h: "c = u @ v # x # w" "find_item st x a (nextInBin (st a)) = Some (Inr v)"
      using find_item_spec [of st a cs x] b(1) x c by auto
    have rem: "remove1 x c = u @ v # w" using b(3) unfolding h(1) by (simp add: remove1_append)
    let ?st' = "st(v := (st v)\<lparr>nextInBin := nextInBin (st x)\<rparr>)"
    have hd: "hd (u @ v # w) = a" using h(1) c by (cases u) auto
    have "in_bin ?st' (Some a) (u @ v # w)"
      by (rule in_bin_unlink) (use b(1,3) c in \<open>simp_all flip: h(1)\<close>)
    moreover have "\<exists>a b. ?st' y = (st y)\<lparr>nextBin := a, nextInBin := b\<rparr>" for y
      by (rule links_nextInBin) (rule same_links)
    ultimately have "removed_item st (remove1 x c) (nextBin (st a)) (Some a) ?st'"
      unfolding rem removed_item_def hd by auto
    then show ?thesis using False h(2) c by (simp add: removeItem_def)
  qed
qed

lemma path_removed:
  assumes p: "path st p (c # ys) None" and d: "set c \<inter> set (concat ys) = {}"
    and r: "removed_item st c' (nextBin (st (hd c))) n st'" and c': "set c' \<subseteq> set c"
  shows "path st' n ((if c' = [] then [] else [c']) @ ys) None"
proof -
  have "st' y = st y" if "y \<in> set (concat ys)" for y
    using that d c' r unfolding removed_item_def by blast
  then have "path st' (nextBin (st (hd c))) ys None"
    using p by (subst path_cong [of _ _ st]) simp_all
  then show ?thesis using r by (auto simp: removed_item_def)
qed

lemma bins_okD: "bins_ok key bs \<Longrightarrow> distinct (concat bs)" "bins_ok key bs \<Longrightarrow> [] \<notin> set bs"
  unfolding bins_ok_def by blast+

lemma bin_of:
  assumes ok: "bins_ok key bs" and x: "x \<in> set (concat bs)"
  obtains xs c ys where "bs = xs @ c # ys" "x \<in> set c" "key (hd c) = key x" "distinct c" "c \<noteq> []"
proof -
  obtain c where c: "c \<in> set bs" "x \<in> set c" using x by auto
  then obtain xs ys where "bs = xs @ c # ys" by (meson split_list)
  moreover have "key x = key (hd c)" using ok c unfolding bins_ok_def by blast
  moreover have "distinct c" using ok c(1) unfolding bins_ok_def by (auto simp: distinct_concat_iff)
  moreover have "c \<noteq> []" using c(2) by auto
  ultimately show ?thesis using that [of xs c ys] c(2) by simp
qed

lemma rem_bins_ok:
  assumes "bins_ok key bs"
  shows "bins_ok key (rem_bins x bs)"
proof (cases "x \<in> set (concat bs)")
  case True
  then obtain xs c ys where c: "bs = xs @ c # ys" "x \<in> set c" "distinct c" using bin_of [OF assms] by metis
  have d: "distinct (concat bs)" "[] \<notin> set bs" using assms unfolding bins_ok_def by blast+
  show ?thesis
    using bin_shrink [OF assms [unfolded c(1)], of "remove1 x c"] rem_bins_at [OF c(2) d [unfolded c(1)]] c(3) set_remove1_subset
    by (simp add: c(1))
next
  case False
  have "[] \<notin> set bs" using assms unfolding bins_ok_def by blast
  then show ?thesis using rem_bins_absent [OF False] assms by simp
qed

lemma eq_remove_first:
  assumes r: "represents q (c # ys)" and x: "x \<in> set c" and qx: "ev_queue (events q x) = Some (eq_this q)"
  shows "okE (eq_remove x q) (\<lambda>q'. represents q' (rem_bins x (c # ys)) \<and> relinked q q')"
proof -
  let ?st = "events q"
  have p: "path ?st (eq_head q) (c # ys) None" and ok: "bins_ok (key_of q) (c # ys)" using r by (simp_all add: represents_def)
  have c: "c \<noteq> []" "distinct c" "set c \<inter> set (concat ys) = {}" and k: "key_of q x = key_of q (hd c)"
    using ok x unfolding bins_ok_Cons by blast+
  have h: "eq_head q = Some (hd c)" "in_bin ?st (Some (hd c)) c" using p in_bin_head by auto
  obtain n st' where run: "removeItem x (hd c) ?st = Inr (n, st')" and rem: "removed_item ?st (remove1 x c) (nextBin (?st (hd c))) n st'"
    using removeItem_spec [OF h(2) c(1,2) x] by (auto simp: okE_iff)
  let ?q' = "q\<lparr>events := st', eq_head := n\<rparr>"
  have run': "eq_remove x q = Inr ?q'"
    using h(1) qx k run by (simp add: eq_remove_def ev_order)
  have rel: "relinked q ?q'"
    by (rule relinkedI [of st' _ _ n]) (use rem in \<open>simp_all add: removed_item_def\<close>)
  have "rem_bins x (c # ys) = (if remove1 x c = [] then [] else [remove1 x c]) @ ys"
    using rem_bins_at [of x c "[]" ys] x bins_okD [OF ok] by simp
  then have "path (events ?q') (eq_head ?q') (rem_bins x (c # ys)) None"
    using path_removed [OF p c(3) rem set_remove1_subset] by simp
  then show ?thesis
    unfolding run' okE_Inr represents_def using rel rem_bins_ok [OF ok, of x] by (simp only: relinked_key [OF rel] simp_thms)
qed

lemma find_bin_hit:
  assumes p: "path st (Some p) (b # bs) None" and ok: "bins_ok (\<lambda>y. ev_key (st y)) (b # bs)"
    and lt: "ev_key (st p) < ev_key (st x)" and x: "x \<in> set (concat (b # bs))"
  obtains xs a c ys where "b # bs = xs @ a # c # ys" "x \<in> set c" "ev_key (st (hd c)) = ev_key (st x)"
    "find_bin st (st x) p (nextBin (st p)) = Some (hd a, Some (hd c))"
proof -
  obtain us a vs where f: "b # bs = us @ a # vs" "find_bin st (st x) p (nextBin (st p)) = Some (hd a, head_of vs)"
    "\<forall>d \<in> set (us @ [a]). ev_key (st (hd d)) < ev_key (st x)" "\<forall>d \<in> set vs. ev_key (st x) \<le> ev_key (st (hd d))"
    using find_bin_spec [OF p ok lt] by blast
  obtain c where c: "c \<in> set (b # bs)" "x \<in> set c" "ev_key (st (hd c)) = ev_key (st x)"
    using bin_of [OF ok x] by (metis in_set_conv_decomp)
  have "c \<notin> set (us @ [a])" using f(3) c(3) by auto
  then have cv: "c \<in> set vs" using c(1) unfolding f(1) by auto
  then obtain d ds where vs: "vs = d # ds" by (cases vs) auto
  have lt_d: "\<forall>e \<in> set ds. ev_key (st (hd d)) < ev_key (st (hd e))"
    using ok unfolding f(1) vs bins_ok_append bins_ok_Cons by blast
  have "c = d"
  proof (rule ccontr)
    assume "c \<noteq> d"
    then have "ev_key (st (hd d)) < ev_key (st x)" using lt_d cv c(3) vs by auto
    then show False using f(4) vs by auto
  qed
  then show ?thesis using that [of us a c ds] f(1,2) c vs by (simp add: head_of_def)
qed

lemma eq_remove_later:
  assumes r: "represents q (b # bs)" and x: "x \<in> set (concat bs)" and qx: "ev_queue (events q x) = Some (eq_this q)"
  shows "okE (eq_remove x q) (\<lambda>q'. represents q' (rem_bins x (b # bs)) \<and> relinked q q')"
proof -
  let ?st = "events q"
  have p: "path ?st (eq_head q) (b # bs) None" and ok: "bins_ok (key_of q) (b # bs)" using r by (simp_all add: represents_def)
  have h: "eq_head q = Some (hd b)" using p in_bin_head by auto
  have lt: "key_of q (hd b) < key_of q x"
  proof -
    have "bins_ok (key_of q) bs" "\<forall>c \<in> set bs. key_of q (hd b) < key_of q (hd c)" using ok unfolding bins_ok_Cons by blast+
    then show ?thesis using bin_of [of "key_of q" bs x] x by (metis in_set_conv_decomp)
  qed
  obtain xs a c ys where f: "b # bs = xs @ a # c # ys" "x \<in> set c" "key_of q (hd c) = key_of q x"
    "find_bin ?st (?st x) (hd b) (nextBin (?st (hd b))) = Some (hd a, Some (hd c))"
    by (rule find_bin_hit [OF p [unfolded h] ok lt]) (use x in simp)
  have o: "bins_ok (key_of q) (xs @ [a])" "bins_ok (key_of q) (c # ys)" "set (concat (xs @ [a])) \<inter> set (concat (c # ys)) = {}"
    using ok bins_ok_append [of "key_of q" "xs @ [a]" "c # ys"] unfolding f(1) by simp_all
  have c: "c \<noteq> []" "distinct c" "set c \<inter> set (concat ys) = {}" using o(2) unfolding bins_ok_Cons by blast+
  have a: "a \<noteq> []" "distinct (concat (xs @ [a]))" using bins_okD [OF o(1)] by auto
  obtain m where m: "path ?st (eq_head q) (xs @ [a]) m" "path ?st m (c # ys) None"
    using p path_append [of ?st "eq_head q" "xs @ [a]" "c # ys" None] unfolding f(1) by auto
  have mc: "in_bin ?st (Some (hd c)) c" using m(2) in_bin_head by auto
  obtain n st' where run: "removeItem x (hd c) ?st = Inr (n, st')" and rem: "removed_item ?st (remove1 x c) (nextBin (?st (hd c))) n st'"
    using removeItem_spec [OF mc c(1,2) f(2)] by (auto simp: okE_iff)
  let ?q' = "q\<lparr>events := st'(hd a := (st' (hd a))\<lparr>nextBin := n\<rparr>)\<rparr>"
  let ?tail = "(if remove1 x c = [] then [] else [remove1 x c]) @ ys"
  have run': "eq_remove x q = Inr ?q'"
    using h qx lt f(3,4) run by (simp add: eq_remove_def ev_order Let_def less_le)
  have links: "\<exists>a b. st' y = (?st y)\<lparr>nextBin := a, nextInBin := b\<rparr>" for y using rem by (simp add: removed_item_def)
  have rel: "relinked q ?q'"
    by (rule relinkedI [of "st'(hd a := (st' (hd a))\<lparr>nextBin := n\<rparr>)"], rule links_nextBin, rule links) simp
  have front: "st' y = ?st y" if "y \<in> set (concat (xs @ [a]))" for y
    using that o(3) rem set_remove1_subset [of x c] unfolding removed_item_def by auto
  have "path st' (eq_head q) (xs @ [a]) m" by (rule iffD2 [OF path_cong m(1)]) (simp only: front)
  then have 1: "path (events ?q') (eq_head q) (xs @ [a]) n" using path_redirect a(2) by simp
  have "set (concat ?tail) \<subseteq> set (concat (c # ys))" using set_remove1_subset [of x c] by auto
  moreover have "hd a \<in> set (concat (xs @ [a]))" using hd_in_set [OF a(1)] by simp
  ultimately have "hd a \<notin> set (concat ?tail)" using o(3) by blast
  then have 2: "path (events ?q') n ?tail None"
    using path_removed [OF m(2) c(3) rem set_remove1_subset] by (simp add: path_fun_upd)
  have "rem_bins x (b # bs) = (xs @ [a]) @ ?tail"
    using rem_bins_at [of x c "xs @ [a]" ys] f(2) bins_okD [OF ok] unfolding f(1) by simp
  then have "path (events ?q') (eq_head ?q') (rem_bins x (b # bs)) None"
    using 1 2 path_append [of "events ?q'" "eq_head q" "xs @ [a]" ?tail None] by auto
  then show ?thesis
    unfolding run' okE_Inr represents_def using rel rem_bins_ok [OF ok, of x] by (simp only: relinked_key [OF rel] simp_thms)
qed

lemma eq_remove_refines:
  assumes r: "represents q bs" and x: "x \<in> set (concat bs)" and qx: "ev_queue (events q x) = Some (eq_this q)"
  shows "okE (eq_remove x q) (\<lambda>q'. represents q' (rem_bins x bs) \<and> relinked q q')"
proof (cases bs)
  case (Cons b bs')
  then show ?thesis using eq_remove_first [of q b bs' x] eq_remove_later [of q b bs' x] assms by auto
qed (use x in simp)

section \<open>Scheduling refines the specification\<close>

lemma bins_ok_weaken:
  assumes "bins_ok key bs" and eq: "\<And>x. x \<in> set (concat bs) \<Longrightarrow> key' x = key x"
  shows "bins_ok key' bs"
  using assms
proof (induction bs)
  case (Cons b bs)
  obtain k where k: "\<And>x. x \<in> set b \<Longrightarrow> key x = k" "key (hd b) = k" "b \<noteq> []"
    using bin_key [OF Cons.prems(1)] by (metis list.set_intros(1))
  have b: "distinct b" "set b \<inter> set (concat bs) = {}" "\<forall>c \<in> set bs. key (hd b) < key (hd c)" and ok: "bins_ok key bs"
    using Cons.prems(1) unfolding bins_ok_Cons by blast+
  have hd: "hd c \<in> set (concat bs)" if "c \<in> set bs" for c
  proof -
    have "c \<noteq> []" using bins_okD(2) [OF ok] that by blast
    then show ?thesis using that by (auto intro!: bexI [of _ c])
  qed
  have eqb: "key' x = k" if "x \<in> set b" for x using Cons.prems(2) [of x] k(1) that by simp
  have "k < key' (hd c)" if "c \<in> set bs" for c
    using b(3) k(2) Cons.prems(2) [of "hd c"] hd [OF that] that by simp
  moreover have "bins_ok key' bs" by (rule Cons.IH [OF ok]) (use Cons.prems(2) in simp)
  ultimately show ?case
    using b(1,2) k(3) eqb by (subst bins_ok_Cons) simp
qed (simp add: bins_ok_def)

lemma represents_cong:
  assumes r: "represents q bs" and "eq_head q' = eq_head q"
    and eq: "\<And>x. x \<in> set (concat bs) \<Longrightarrow> nextBin (events q' x) = nextBin (events q x) \<and>
      nextInBin (events q' x) = nextInBin (events q x) \<and> key_of q' x = key_of q x"
  shows "represents q' bs"
  unfolding represents_def
proof
  have p: "path (events q) (eq_head q) bs None" "bins_ok (key_of q) bs" using r by (simp_all add: represents_def)
  show "path (events q') (eq_head q') bs None"
    unfolding assms(2) by (rule iffD2 [OF path_cong p(1)], drule eq) blast
  show "bins_ok (key_of q') bs"
    by (rule bins_ok_weaken [OF p(2)], drule eq) blast
qed

text \<open>
  The invariant: the queue represents the agenda \<open>xs\<close>, whose events are exactly those marked as
  scheduled, belong to this queue and are not in the past.
\<close>

definition on_agenda :: "eventq \<Rightarrow> ev_ptr \<Rightarrow> bool" where
  "on_agenda q x \<longleftrightarrow> ev_Scheduled (events q x) \<and> ev_queue (events q x) = Some (eq_this q) \<and>
     ev_initialized (events q x) \<and> \<not> ev_freed (events q x) \<and> eq_curTick q \<le> ev_when (events q x)"

definition agenda :: "eventq \<Rightarrow> ev_ptr list \<Rightarrow> bool" where
  "agenda q xs \<longleftrightarrow> (\<exists>bs. represents q bs \<and> xs = concat bs) \<and> (\<forall>x. ev_Scheduled (events q x) \<longleftrightarrow> x \<in> set xs) \<and>
     (\<forall>x \<in> set xs. on_agenda q x)"

definition local_call :: "bool \<Rightarrow> eventq \<Rightarrow> bool" where
  "local_call global q \<longleftrightarrow> inParallelMode q \<longrightarrow> eq_this q = eq_current q \<and> \<not> global"

lemma agenda_sorted: "agenda q xs \<Longrightarrow> sorted (map (key_of q) xs) \<and> distinct xs"
  unfolding agenda_def represents_def using bins_sorted bins_okD(1) by blast

lemma relinked_fields:
  assumes "relinked q q'"
  shows "on_agenda q' x = on_agenda q x" "ev_Scheduled (events q' x) = ev_Scheduled (events q x)"
    "eq_curTick q' = eq_curTick q" "eq_this q' = eq_this q" "ev_when (events q' x) = ev_when (events q x)"
    "ev_priority (events q' x) = ev_priority (events q x)" "ev_Managed (events q' x) = ev_Managed (events q x)"
    "ev_Squashed (events q' x) = ev_Squashed (events q x)"
    "inParallelMode q' = inParallelMode q" "eq_current q' = eq_current q"
    "ev_queue (events q' x) = ev_queue (events q x)" "ev_initialized (events q' x) = ev_initialized (events q x)"
    "ev_freed (events q' x) = ev_freed (events q x)"
proof -
  obtain a b where e: "events q' x = (events q x)\<lparr>nextBin := a, nextInBin := b\<rparr>" and q: "q' = q\<lparr>events := events q', eq_head := eq_head q'\<rparr>"
    using assms unfolding relinked_def by blast
  have f: "eq_curTick q' = eq_curTick q" "eq_this q' = eq_this q" "inParallelMode q' = inParallelMode q" "eq_current q' = eq_current q"
    by (subst q, simp)+
  then show "eq_curTick q' = eq_curTick q" "eq_this q' = eq_this q" "inParallelMode q' = inParallelMode q" "eq_current q' = eq_current q"
    by blast+
  show "on_agenda q' x = on_agenda q x" "ev_Scheduled (events q' x) = ev_Scheduled (events q x)"
    "ev_when (events q' x) = ev_when (events q x)" "ev_priority (events q' x) = ev_priority (events q x)"
    "ev_Managed (events q' x) = ev_Managed (events q x)" "ev_Squashed (events q' x) = ev_Squashed (events q x)"
    "ev_queue (events q' x) = ev_queue (events q x)" "ev_initialized (events q' x) = ev_initialized (events q x)"
    "ev_freed (events q' x) = ev_freed (events q x)"
    by (simp_all add: on_agenda_def e f)
qed

lemma ins_event_cong:
  assumes "\<And>y. y \<in> set xs \<Longrightarrow> key' y = key y" and "key' x = key x"
  shows "ins_event key' x xs = ins_event key x xs"
proof -
  have "takeWhile (\<lambda>y. key' y < key' x) xs = takeWhile (\<lambda>y. key y < key x) xs"
    by (rule takeWhile_cong) (simp_all add: assms)
  moreover have "dropWhile (\<lambda>y. key' y < key' x) xs = dropWhile (\<lambda>y. key y < key x) xs"
    by (rule dropWhile_cong) (simp_all add: assms)
  ultimately show ?thesis by (simp add: ins_event_def)
qed

lemma insert_agenda:
  assumes r: "represents q bs" and x: "x \<notin> set (concat bs)"
    and others: "\<And>y. y \<in> set (concat bs) \<Longrightarrow> on_agenda q y"
    and ev: "ev_queue (events q x) = Some (eq_this q)" "ev_initialized (events q x)" "\<not> ev_freed (events q x)"
      "eq_curTick q \<le> ev_when (events q x)"
    and sch: "\<And>y. y \<noteq> x \<Longrightarrow> ev_Scheduled (events q y) \<longleftrightarrow> y \<in> set (concat bs)"
    and f: "\<And>e. nextBin (f e) = nextBin e \<and> nextInBin (f e) = nextInBin e \<and> ev_key (f e) = ev_key e \<and>
      ev_queue (f e) = ev_queue e \<and> ev_initialized (f e) = ev_initialized e \<and> ev_freed (f e) = ev_freed e \<and>
      ev_when (f e) = ev_when e \<and> ev_Scheduled (f e)"
  shows "okE (eq_insert x q) (\<lambda>q'. agenda (set_event x f q') (ins_event (key_of q) x (concat bs)) \<and> relinked q q')"
proof (rule okE_mono [OF eq_insert_refines [OF r x]])
  fix q' assume q': "represents q' (ins_bins (key_of q) x bs) \<and> relinked q q'"
  note rf = relinked_fields [OF conjunct2 [OF q']]
  have ok: "bins_ok (key_of q) bs" using r by (simp add: represents_def)
  have xs: "concat (ins_bins (key_of q) x bs) = ins_event (key_of q) x (concat bs)" by (rule ins_bins_concat [OF ok])
  let ?q = "set_event x f q'"
  have "represents ?q (ins_bins (key_of q) x bs)"
    by (rule represents_cong [OF conjunct1 [OF q']]) (use f in \<open>auto simp: fun_upd_def\<close>)
  moreover have "on_agenda ?q y" if "y \<in> set (ins_event (key_of q) x (concat bs))" for y
    using that others [of y] ev f rf unfolding ins_event_set by (cases "y = x") (auto simp: on_agenda_def)
  moreover have "ev_Scheduled (events ?q y) \<longleftrightarrow> y \<in> set (ins_event (key_of q) x (concat bs))" for y
    using sch [of y] f rf unfolding ins_event_set by (cases "y = x") auto
  ultimately show "agenda ?q (ins_event (key_of q) x (concat bs)) \<and> relinked q q'"
    unfolding agenda_def using q' xs by metis
qed

lemma agendaD:
  assumes "agenda q xs"
  shows "\<exists>bs. represents q bs \<and> xs = concat bs" "ev_Scheduled (events q x) \<longleftrightarrow> x \<in> set xs"
    "x \<in> set xs \<Longrightarrow> on_agenda q x"
  using assms unfolding agenda_def by blast+

lemma setWhen_represents:
  assumes "represents q bs" and "x \<notin> set (concat bs)"
  shows "represents (setWhen x w q) bs"
proof (rule represents_cong [OF assms(1)])
  fix y assume "y \<in> set (concat bs)"
  then have "y \<noteq> x" using assms(2) by blast
  then show "nextBin (events (setWhen x w q) y) = nextBin (events q y) \<and>
      nextInBin (events (setWhen x w q) y) = nextInBin (events q y) \<and> key_of (setWhen x w q) y = key_of q y"
    by (simp add: setWhen_def)
qed (simp add: setWhen_def)

lemma setWhen_fields:
  "events (setWhen x w q) y = (if y = x then (events q x)\<lparr>ev_when := w, ev_queue := Some (eq_this q)\<rparr> else events q y)"
  "eq_curTick (setWhen x w q) = eq_curTick q" "eq_this (setWhen x w q) = eq_this q"
  "inParallelMode (setWhen x w q) = inParallelMode q" "eq_current (setWhen x w q) = eq_current q"
  by (simp_all add: setWhen_def)

definition new_key :: "ev_ptr \<Rightarrow> u64 \<Rightarrow> eventq \<Rightarrow> ev_ptr \<Rightarrow> u64 \<times> int" where
  "new_key x w q = (key_of q)(x := (w, ev_priority (events q x)))"

lemma setWhen_key: "key_of (setWhen x w q) = new_key x w q"
  by (rule ext) (simp add: setWhen_fields new_key_def ev_key_def)

lemma insert_when:
  assumes r: "represents q bs" and x: "x \<notin> set (concat bs)" and others: "\<And>y. y \<in> set (concat bs) \<Longrightarrow> on_agenda q y"
    and ev: "ev_initialized (events q x)" "\<not> ev_freed (events q x)" "eq_curTick q \<le> w"
    and sch: "\<And>y. y \<noteq> x \<Longrightarrow> ev_Scheduled (events q y) \<longleftrightarrow> y \<in> set (concat bs)"
    and f: "\<And>e. nextBin (f e) = nextBin e \<and> nextInBin (f e) = nextInBin e \<and> ev_key (f e) = ev_key e \<and>
      ev_queue (f e) = ev_queue e \<and> ev_initialized (f e) = ev_initialized e \<and> ev_freed (f e) = ev_freed e \<and>
      ev_when (f e) = ev_when e \<and> ev_Scheduled (f e)"
  shows "okE (eq_insert x (setWhen x w q)) (\<lambda>q'. agenda (set_event x f q') (ins_event (new_key x w q) x (concat bs)) \<and>
     eq_curTick q' = eq_curTick q \<and> ev_when (events (set_event x f q') x) = w)"
proof -
  have on: "on_agenda (setWhen x w q) y" if "y \<in> set (concat bs)" for y
  proof -
    have "y \<noteq> x" using that x by blast
    then show ?thesis using others [OF that] by (simp add: on_agenda_def setWhen_fields)
  qed
  have "okE (eq_insert x (setWhen x w q)) (\<lambda>q'. agenda (set_event x f q')
      (ins_event (key_of (setWhen x w q)) x (concat bs)) \<and> relinked (setWhen x w q) q')"
    by (rule insert_agenda [OF setWhen_represents [OF r x] x on])
      (use ev sch f in \<open>simp_all add: setWhen_fields\<close>)
  then show ?thesis
  proof (rule okE_mono)
    fix q' assume q': "agenda (set_event x f q') (ins_event (key_of (setWhen x w q)) x (concat bs)) \<and> relinked (setWhen x w q) q'"
    note rf = relinked_fields [OF conjunct2 [OF q']]
    show "agenda (set_event x f q') (ins_event (new_key x w q) x (concat bs)) \<and>
       eq_curTick q' = eq_curTick q \<and> ev_when (events (set_event x f q') x) = w"
      using q' rf(3,5) f unfolding setWhen_key by (simp add: setWhen_fields)
  qed
qed

lemma schedule_agenda:
  assumes a: "agenda q xs" and e: "\<not> ev_Scheduled (events q e)" "ev_initialized (events q e)" "\<not> ev_freed (events q e)"
    and w: "eq_curTick q \<le> w" and l: "local_call g q"
  shows "okE (eq_schedule e w g q) (\<lambda>q'. agenda q' (ins_event (new_key e w q) e xs) \<and>
     eq_curTick q' = eq_curTick q \<and> ev_when (events q' e) = w)"
proof -
  obtain bs where bs: "represents q bs" "xs = concat bs" using agendaD(1) [OF a] by blast
  have x: "e \<notin> set (concat bs)" using e(1) agendaD(2) [OF a] bs(2) by simp
  have "okE (eq_insert e (setWhen e w q)) (\<lambda>q'. agenda (set_event e (\<lambda>e. e\<lparr>ev_Scheduled := True\<rparr>) q')
      (ins_event (new_key e w q) e (concat bs)) \<and> eq_curTick q' = eq_curTick q \<and>
      ev_when (events (set_event e (\<lambda>e. e\<lparr>ev_Scheduled := True\<rparr>) q') e) = w)"
    by (rule insert_when [OF bs(1) x]) (use agendaD(2,3) [OF a] bs(2) e w in simp_all)
  moreover have "\<not> (inParallelMode q \<and> (eq_this q \<noteq> eq_current q \<or> g))" using l by (auto simp: local_call_def)
  ultimately show ?thesis
    unfolding eq_schedule_def using e w bs(2) by (auto simp: setWhen_fields Let_def)
qed

lemma remove_agenda:
  assumes a: "agenda q xs" and x: "x \<in> set xs"
  shows "okE (eq_remove x q) (\<lambda>q'. (\<exists>bs. represents q' bs \<and> remove1 x xs = concat bs) \<and> relinked q q')"
proof -
  obtain bs where bs: "represents q bs" "xs = concat bs" using agendaD(1) [OF a] by blast
  have "distinct (concat bs)" using bs(1) by (auto simp: represents_def dest: bins_okD)
  then have "concat (rem_bins x bs) = remove1 x xs" using concat_rem_bins bs(2) by simp
  moreover have "okE (eq_remove x q) (\<lambda>q'. represents q' (rem_bins x bs) \<and> relinked q q')"
    using eq_remove_refines [OF bs(1)] x bs(2) agendaD(3) [OF a x] by (simp add: on_agenda_def)
  ultimately show ?thesis by (elim okE_mono) metis
qed

text \<open>An event that is not on the agenda may change in any way.\<close>

lemma off_agenda:
  assumes r: "\<exists>bs. represents q bs \<and> xs = concat bs" and on: "\<And>y. y \<in> set xs \<Longrightarrow> on_agenda q y"
    and x: "x \<notin> set xs" and f: "\<not> ev_Scheduled (f (events q x))"
    and sch: "\<And>y. y \<noteq> x \<Longrightarrow> ev_Scheduled (events q y) \<longleftrightarrow> y \<in> set xs"
  shows "agenda (set_event x f q) xs"
proof -
  obtain bs where bs: "represents q bs" "xs = concat bs" using r by blast
  have ne: "y \<noteq> x" if "y \<in> set xs" for y using that x by blast
  have "represents (set_event x f q) bs"
    by (rule represents_cong [OF bs(1)]) (use ne bs(2) in auto)
  moreover have "on_agenda (set_event x f q) y" if "y \<in> set xs" for y
    using on [OF that] ne [OF that] by (simp add: on_agenda_def)
  moreover have "ev_Scheduled (events (set_event x f q) y) \<longleftrightarrow> y \<in> set xs" for y
    using sch [of y] x f by (cases "y = x") auto
  ultimately show ?thesis unfolding agenda_def using bs(2) by blast
qed

lemma agenda_distinct: "agenda q xs \<Longrightarrow> distinct xs"
  using agenda_sorted by blast

lemma deschedule_agenda:
  assumes a: "agenda q xs" and x: "x \<in> set xs" and l: "local_call False q"
  shows "okE (eq_deschedule x q) (\<lambda>q'. agenda q' (remove1 x xs) \<and> eq_curTick q' = eq_curTick q \<and>
     ev_freed (events q' x) = ev_Managed (events q x) \<and> local_call g q' = local_call g q)"
proof -
  have on: "on_agenda q x" by (rule agendaD(3) [OF a x])
  have d: "distinct xs" by (rule agenda_distinct [OF a])
  have l': "\<not> inParallelMode q \<or> eq_this q = eq_current q" using l by (auto simp: local_call_def)
  have "okE (eq_remove x q) (\<lambda>q'.
      agenda (ev_release x (set_event x (\<lambda>e. e\<lparr>ev_Squashed := False, ev_Scheduled := False\<rparr>) q')) (remove1 x xs) \<and>
      eq_curTick q' = eq_curTick q \<and> ev_Managed (events q' x) = ev_Managed (events q x) \<and> \<not> ev_freed (events q' x) \<and>
      local_call g q' = local_call g q)"
  proof (rule okE_mono [OF remove_agenda [OF a x]], elim conjE)
    fix q' assume r: "\<exists>bs. represents q' bs \<and> remove1 x xs = concat bs" and rel: "relinked q q'"
    note rf = relinked_fields [OF rel]
    let ?f = "\<lambda>e. (if ev_Managed e then e\<lparr>ev_Squashed := False, ev_Scheduled := False, ev_freed := True\<rparr>
                   else e\<lparr>ev_Squashed := False, ev_Scheduled := False\<rparr>)"
    have "agenda (set_event x ?f q') (remove1 x xs)"
    proof (rule off_agenda [OF r])
      show "on_agenda q' y" if "y \<in> set (remove1 x xs)" for y
        using agendaD(3) [OF a, of y] notin_set_remove1 that rf(1) by fastforce
      show "ev_Scheduled (events q' y) \<longleftrightarrow> y \<in> set (remove1 x xs)" if "y \<noteq> x" for y
        using agendaD(2) [OF a] rf(2) that d by simp
    qed (use d in simp_all)
    moreover have "ev_release x (set_event x (\<lambda>e. e\<lparr>ev_Squashed := False, ev_Scheduled := False\<rparr>) q') = set_event x ?f q'"
      by (simp add: ev_release_def)
    ultimately show "agenda (ev_release x (set_event x (\<lambda>e. e\<lparr>ev_Squashed := False, ev_Scheduled := False\<rparr>) q')) (remove1 x xs) \<and>
      eq_curTick q' = eq_curTick q \<and> ev_Managed (events q' x) = ev_Managed (events q x) \<and> \<not> ev_freed (events q' x) \<and>
      local_call g q' = local_call g q"
      using rf on by (simp add: on_agenda_def local_call_def)
  qed
  then show ?thesis
    unfolding eq_deschedule_def using on l' by (auto simp: on_agenda_def ev_release_def local_call_def elim!: okE_mono)
qed

lemma reschedule_agenda:
  assumes a: "agenda q xs" and x: "x \<in> set xs" and w: "eq_curTick q \<le> w" and l: "local_call False q"
  shows "okE (eq_reschedule x w always q) (\<lambda>q'. agenda q' (ins_event (new_key x w q) x (remove1 x xs)) \<and>
     eq_curTick q' = eq_curTick q \<and> ev_when (events q' x) = w)"
proof -
  have on: "on_agenda q x" by (rule agendaD(3) [OF a x])
  have d: "distinct xs" by (rule agenda_distinct [OF a])
  have l': "\<not> inParallelMode q \<or> eq_this q = eq_current q" using l by (auto simp: local_call_def)
  let ?f = "\<lambda>e. e\<lparr>ev_Squashed := False, ev_Scheduled := True\<rparr>"
  have "okE (eq_remove x q) (\<lambda>q1. okE (eq_insert x (setWhen x w q1)) (\<lambda>q'.
      agenda (set_event x ?f q') (ins_event (new_key x w q) x (remove1 x xs)) \<and> eq_curTick q' = eq_curTick q \<and>
      ev_when (events (set_event x ?f q') x) = w))"
  proof (rule okE_mono [OF remove_agenda [OF a x]], elim conjE exE)
    fix q1 bs assume r: "represents q1 bs" "remove1 x xs = concat bs" and rel: "relinked q q1"
    note rf = relinked_fields [OF rel]
    have key: "new_key x w q1 = new_key x w q"
      by (rule ext) (simp add: new_key_def relinked_key [OF rel] rf)
    have "okE (eq_insert x (setWhen x w q1)) (\<lambda>q'. agenda (set_event x ?f q') (ins_event (new_key x w q1) x (concat bs)) \<and>
      eq_curTick q' = eq_curTick q1 \<and> ev_when (events (set_event x ?f q') x) = w)"
    proof (rule insert_when [OF r(1)])
      show "x \<notin> set (concat bs)" using d r(2) [symmetric] by simp
      show "on_agenda q1 y" if "y \<in> set (concat bs)" for y
        using agendaD(3) [OF a, of y] notin_set_remove1 that rf(1) unfolding r(2) [symmetric] by fastforce
      show "ev_Scheduled (events q1 y) \<longleftrightarrow> y \<in> set (concat bs)" if "y \<noteq> x" for y
        using agendaD(2) [OF a] rf(2) that d unfolding r(2) [symmetric] by simp
    qed (use on w rf in \<open>simp_all add: on_agenda_def\<close>)
    then show "okE (eq_insert x (setWhen x w q1)) (\<lambda>q'.
      agenda (set_event x ?f q') (ins_event (new_key x w q) x (remove1 x xs)) \<and> eq_curTick q' = eq_curTick q \<and>
      ev_when (events (set_event x ?f q') x) = w)"
      unfolding key r(2) rf(3) .
  qed
  then show ?thesis
    unfolding eq_reschedule_def using on l' w by (simp add: on_agenda_def)
qed

section \<open>Servicing\<close>

lemma pop_is_remove:
  assumes "eq_head q = Some x" and "ev_queue (events q x) = Some (eq_this q)"
  shows "eq_remove x q = Inr (pop_head x q)"
  using assms by (cases "nextInBin (events q x)") (simp_all add: eq_remove_def removeItem_def pop_head_def ev_order Let_def)

abbreviation take_event :: "ev_ptr \<Rightarrow> eventq \<Rightarrow> eventq" where
  "take_event x q \<equiv> pop_head x (set_event x (\<lambda>e. e\<lparr>ev_Scheduled := False\<rparr>) q)"

lemma agenda_head:
  assumes "agenda q xs"
  shows "eq_head q = (case xs of [] \<Rightarrow> None | x # _ \<Rightarrow> Some x)"
proof -
  obtain bs where bs: "represents q bs" "xs = concat bs" using agendaD(1) [OF assms] by blast
  have "eq_head q = head_of bs" "[] \<notin> set bs"
    using bs(1) path_head bins_okD(2) unfolding represents_def by blast+
  then show ?thesis unfolding bs(2) by (cases bs; cases "hd bs") (auto simp: head_of_def)
qed

lemma take_event_agenda:
  assumes a: "agenda q (x # xs)"
  shows "agenda (take_event x q) xs" "key_of (take_event x q) y = key_of q y"
    "eq_curTick (take_event x q) = eq_curTick q" "\<not> ev_Scheduled (events (take_event x q) x)"
    "ev_Squashed (events (take_event x q) y) = ev_Squashed (events q y)"
    "ev_Managed (events (take_event x q) y) = ev_Managed (events q y)"
    "ev_freed (events (take_event x q) y) = ev_freed (events q y)"
    "ev_when (events (take_event x q) y) = ev_when (events q y)"
proof -
  let ?q0 = "set_event x (\<lambda>e. e\<lparr>ev_Scheduled := False\<rparr>) q"
  obtain bs where bs: "represents q bs" "x # xs = concat bs" using agendaD(1) [OF a] by blast
  have d: "x \<notin> set xs" using agenda_distinct [OF a] by simp
  have on: "on_agenda q x" using agendaD(3) [OF a] by simp
  have r0: "represents ?q0 bs" by (rule represents_cong [OF bs(1)]) auto
  have run: "eq_remove x ?q0 = Inr (take_event x q)"
    by (rule pop_is_remove) (use agenda_head [OF a] on in \<open>simp_all add: on_agenda_def\<close>)
  have "represents (take_event x q) (rem_bins x bs) \<and> relinked ?q0 (take_event x q)"
    using eq_remove_refines [OF r0, of x] on bs(2) [symmetric] by (simp add: run on_agenda_def)
  moreover have "concat (rem_bins x bs) = xs"
    using concat_rem_bins [of bs x] agenda_distinct [OF a] bs(2) by (metis remove1.simps(2))
  ultimately have r: "\<exists>bs. represents (take_event x q) bs \<and> xs = concat bs" and rel: "relinked ?q0 (take_event x q)" by auto
  note rf = relinked_fields [OF rel]
  have "on_agenda (take_event x q) y" if "y \<in> set xs" for y
  proof -
    have "y \<noteq> x" using that d by blast
    then show ?thesis using agendaD(3) [OF a, of y] that by (simp add: rf(1)) (simp add: on_agenda_def)
  qed
  moreover have "ev_Scheduled (events (take_event x q) y) \<longleftrightarrow> y \<in> set xs" for y
    using agendaD(2) [OF a, of y] d by (simp add: rf(2))
  ultimately show "agenda (take_event x q) xs" using r by (simp add: agenda_def)
  show "key_of (take_event x q) y = key_of q y" by (subst relinked_key [OF rel]) simp
  show "eq_curTick (take_event x q) = eq_curTick q" "\<not> ev_Scheduled (events (take_event x q) x)"
    "ev_Squashed (events (take_event x q) y) = ev_Squashed (events q y)"
    "ev_Managed (events (take_event x q) y) = ev_Managed (events q y)"
    "ev_freed (events (take_event x q) y) = ev_freed (events q y)"
    "ev_when (events (take_event x q) y) = ev_when (events q y)"
    by (simp_all add: rf)
qed

lemma agenda_tick:
  assumes a: "agenda q xs" and t: "\<And>y. y \<in> set xs \<Longrightarrow> t \<le> ev_when (events q y)"
  shows "agenda (q\<lparr>eq_curTick := t\<rparr>) xs"
proof -
  obtain bs where bs: "represents q bs" "xs = concat bs" using agendaD(1) [OF a] by blast
  have "represents (q\<lparr>eq_curTick := t\<rparr>) bs" by (rule represents_cong [OF bs(1)]) auto
  moreover have "on_agenda (q\<lparr>eq_curTick := t\<rparr>) y" if "y \<in> set xs" for y
    using agendaD(3) [OF a that] t [OF that] by (simp add: on_agenda_def)
  ultimately show ?thesis using agendaD(2) [OF a] bs(2) by (auto simp: agenda_def)
qed

lemma agenda_first:
  assumes a: "agenda q (x # xs)" and y: "y \<in> set xs"
  shows "ev_when (events q x) \<le> ev_when (events q y)"
proof -
  have "key_of q x \<le> key_of q y" using agenda_sorted [OF a] y by auto
  then show ?thesis by (auto simp: ev_key_def less_eq_prod_def)
qed

lemma agenda_off:
  assumes a: "agenda q xs" and x: "x \<notin> set xs" and f: "\<not> ev_Scheduled (f (events q x))"
  shows "agenda (set_event x f q) xs"
  by (rule off_agenda [OF agendaD(1) [OF a]]) (use agendaD(2,3) [OF a] x f in auto)

lemma release_agenda:
  assumes a: "agenda q xs"
  shows "agenda (ev_release x q) xs" "eq_curTick (ev_release x q) = eq_curTick q"
proof -
  show "agenda (ev_release x q) xs"
  proof (cases "ev_Scheduled (events q x)")
    case True
    then have "ev_release x q = q" by (simp add: ev_release_def fun_upd_idem)
    then show ?thesis using a by simp
  next
    case False
    then show ?thesis
      unfolding ev_release_def using agendaD(2) [OF a, of x] by (intro agenda_off [OF a]) auto
  qed
qed (simp add: ev_release_def)

end
