(* ===== verification/Event_Service.thy ===== *)
theory Event_Service
  imports Event_Queue_Refine
begin

text \<open>
  Servicing the event queue, its self-check, and the interface through which the queue is used:
  an agenda whose first event is always a least one.
\<close>

section \<open>One event\<close>

definition exit_flags_ok :: "event \<Rightarrow> bool" where
  "exit_flags_ok e \<longleftrightarrow> (ev_IsExitEvent e \<longrightarrow> \<not> ev_Managed e \<or> \<not> ev_IsMainQueue e)"

text \<open>The links of an event say where it is on the queue; they are not part of what its owner sees.\<close>

definition unlinked :: "event \<Rightarrow> event" where
  "unlinked e = e\<lparr>nextBin := None, nextInBin := None\<rparr>"

text \<open>The queue on which the handler of the first event runs: the event is off the agenda, and it is its time.\<close>

definition handler_queue :: "ev_ptr \<Rightarrow> eventq \<Rightarrow> eventq" where
  "handler_queue x q = (take_event x q)\<lparr>eq_curTick := ev_when (events q x)\<rparr>"

lemma take_event_unlinked:
  "unlinked (events (take_event x q) y) = unlinked (if y = x then (events q x)\<lparr>ev_Scheduled := False\<rparr> else events q y)"
  by (auto simp: pop_head_def unlinked_def split: option.split)

lemma unlinked_flags:
  assumes "unlinked e = unlinked e'"
  shows "exit_flags_ok e = exit_flags_ok e'" "ev_key e = ev_key e'"
proof -
  have "ev_IsExitEvent e = ev_IsExitEvent e'" "ev_Managed e = ev_Managed e'" "ev_IsMainQueue e = ev_IsMainQueue e'"
    "ev_when e = ev_when e'" "ev_priority e = ev_priority e'"
    using assms by (auto simp: unlinked_def dest: arg_cong [where f = ev_IsExitEvent] arg_cong [where f = ev_Managed]
        arg_cong [where f = ev_IsMainQueue] arg_cong [where f = ev_when] arg_cong [where f = ev_priority])
  then show "exit_flags_ok e = exit_flags_ok e'" "ev_key e = ev_key e'" by (simp_all add: exit_flags_ok_def ev_key_def)
qed

lemma handler_queue_agenda:
  assumes a: "agenda q (x # xs)"
  shows "agenda (handler_queue x q) xs" "eq_curTick (handler_queue x q) = ev_when (events q x)"
    "\<not> ev_Scheduled (events (handler_queue x q) x)" "key_of (handler_queue x q) y = key_of q y"
    "exit_flags_ok (events (handler_queue x q) y) = exit_flags_ok (events q y)"
    "unlinked (events (handler_queue x q) y) = unlinked (if y = x then (events q x)\<lparr>ev_Scheduled := False\<rparr> else events q y)"
    "handler_queue x q = q\<lparr>events := events (handler_queue x q), eq_head := eq_head (handler_queue x q), eq_curTick := ev_when (events q x)\<rparr>"
proof -
  note t = take_event_agenda [OF a]
  show "agenda (handler_queue x q) xs"
    unfolding handler_queue_def using agenda_first [OF a] t(8) by (intro agenda_tick [OF t(1)]) simp
  show "eq_curTick (handler_queue x q) = ev_when (events q x)" "\<not> ev_Scheduled (events (handler_queue x q) x)"
    "key_of (handler_queue x q) y = key_of q y"
    using t(2,4) by (simp_all add: handler_queue_def)
  show "handler_queue x q = q\<lparr>events := events (handler_queue x q), eq_head := eq_head (handler_queue x q), eq_curTick := ev_when (events q x)\<rparr>"
    by (simp add: handler_queue_def pop_head_def split: option.split)
  show u: "unlinked (events (handler_queue x q) y) = unlinked (if y = x then (events q x)\<lparr>ev_Scheduled := False\<rparr> else events q y)"
    using take_event_unlinked by (simp add: handler_queue_def)
  show "exit_flags_ok (events (handler_queue x q) y) = exit_flags_ok (events q y)"
    using unlinked_flags(1) [OF u] by (simp add: exit_flags_ok_def)
qed

lemma release_fields [simp]:
  "key_of (ev_release x q) y = key_of q y" "exit_flags_ok (events (ev_release x q) y) = exit_flags_ok (events q y)"
  "eq_curTick (ev_release x q) = eq_curTick q"
  by (simp_all add: ev_release_def exit_flags_ok_def)

lemma unsquash_fields [simp]: "exit_flags_ok (e\<lparr>ev_Squashed := b\<rparr>) = exit_flags_ok e" "ev_key (e\<lparr>ev_Squashed := b\<rparr>) = ev_key e"
  by (simp_all add: exit_flags_ok_def ev_key_def)

lemma serviceOne_squashed:
  assumes a: "agenda q (x # xs)" and sq: "ev_Squashed (events q x)"
  shows "okE (serviceOne process q) (\<lambda>(q', r). r = None \<and> agenda q' xs \<and> eq_curTick q' = eq_curTick q \<and>
     (\<forall>y. key_of q' y = key_of q y \<and> (exit_flags_ok (events q y) \<longrightarrow> exit_flags_ok (events q' y))))"
proof -
  note t = take_event_agenda [OF a]
  have head: "eq_head q = Some x" using agenda_head [OF a] by simp
  have x: "x \<notin> set xs" using agenda_distinct [OF a] by simp
  let ?q = "set_event x (\<lambda>e. e\<lparr>ev_Squashed := False\<rparr>) (take_event x q)"
  have "agenda ?q xs" using t(4) by (intro agenda_off [OF t(1) x]) simp
  moreover have "exit_flags_ok (events (take_event x q) y) = exit_flags_ok (events q y)" for y
    using handler_queue_agenda(5) [OF a] by (simp add: handler_queue_def)
  ultimately show ?thesis
    using head sq t(2,3,5) release_agenda [of ?q xs x] by (simp add: serviceOne_def Let_def)
qed

lemma serviceOne_processed:
  assumes a: "agenda q (x # xs)" and sq: "\<not> ev_Squashed (events q x)"
  shows "serviceOne process q = bindE (process x (handler_queue x q)) (\<lambda>q2.
     if ev_IsExitEvent (events q2 x) then
       bindE (guardE (exit_flags_ok (events q2 x)) (AssertFail ''!Managed || !IsMainQueue'')) (\<lambda>_. Inr (q2, Some x))
     else Inr (ev_release x q2, None))"
proof -
  note t = take_event_agenda [OF a]
  have "eq_head q = Some x" using agenda_head [OF a] by simp
  then show ?thesis
    using sq t(5,8) by (simp add: serviceOne_def Let_def handler_queue_def exit_flags_ok_def cong: if_cong)
qed

text \<open>
  C8. One service step takes the first event, a least one, off the agenda.  A squashed event is only
  dropped.  Any other is processed by its handler, whatever that does, at the event's own time and on a
  queue that holds the rest of the agenda and differs from the old one only in the links and in that
  event no longer being scheduled; the step fails if the handler does, or on an exit event that is both
  managed and of the main queue, and otherwise leaves the agenda and the tick that the handler left.
\<close>

theorem serviceOne_refines:
  assumes "agenda q (x # xs)"
  shows "if ev_Squashed (events q x)
     then okE (serviceOne process q) (\<lambda>(q', r). r = None \<and> agenda q' xs \<and> eq_curTick q' = eq_curTick q)
     else \<exists>q1. agenda q1 xs \<and> q1 = q\<lparr>events := events q1, eq_head := eq_head q1, eq_curTick := ev_when (events q x)\<rparr> \<and>
       (\<forall>y. unlinked (events q1 y) = unlinked (if y = x then (events q x)\<lparr>ev_Scheduled := False\<rparr> else events q y)) \<and>
       (case process x q1 of
          Inl e \<Rightarrow> serviceOne process q = Inl e
        | Inr q2 \<Rightarrow>
            if exit_flags_ok (events q2 x)
            then okE (serviceOne process q) (\<lambda>(q', r). r = (if ev_IsExitEvent (events q2 x) then Some x else None) \<and>
                   eq_curTick q' = eq_curTick q2 \<and> (\<forall>zs. agenda q2 zs \<longrightarrow> agenda q' zs))
            else serviceOne process q = Inl (AssertFail ''!Managed || !IsMainQueue''))"
proof (cases "ev_Squashed (events q x)")
  case True
  then show ?thesis using okE_mono [OF serviceOne_squashed [OF assms, of process]] by auto
next
  case False
  have "case process x (handler_queue x q) of
          Inl e \<Rightarrow> serviceOne process q = Inl e
        | Inr q2 \<Rightarrow>
            if exit_flags_ok (events q2 x)
            then okE (serviceOne process q) (\<lambda>(q', r). r = (if ev_IsExitEvent (events q2 x) then Some x else None) \<and>
                   eq_curTick q' = eq_curTick q2 \<and> (\<forall>zs. agenda q2 zs \<longrightarrow> agenda q' zs))
            else serviceOne process q = Inl (AssertFail ''!Managed || !IsMainQueue'')"
    unfolding serviceOne_processed [OF assms False]
    using release_agenda by (auto simp: exit_flags_ok_def split: sum.split)
  then show ?thesis
    unfolding if_not_P [OF False]
    by (intro exI [of _ "handler_queue x q"] conjI allI handler_queue_agenda(1,6,7) [OF assms])
qed

section \<open>All events up to a time\<close>

text \<open>
  Handlers that schedule and deschedule nothing: the agenda, the tick, the times and priorities stay, and no event
  becomes an exit event of the main queue that is managed.
\<close>

definition quiet :: "(ev_ptr \<Rightarrow> eventq \<Rightarrow> eventq res) \<Rightarrow> bool" where
  "quiet process \<longleftrightarrow> (\<forall>x q xs. agenda q xs \<and> x \<notin> set xs \<longrightarrow> okE (process x q) (\<lambda>q'. agenda q' xs \<and> eq_curTick q' = eq_curTick q \<and>
     (\<forall>y. key_of q' y = key_of q y \<and> (exit_flags_ok (events q y) \<longrightarrow> exit_flags_ok (events q' y)))))"

lemma serviceOne_quiet:
  assumes p: "quiet process" and a: "agenda q (x # xs)" and f: "exit_flags_ok (events q x)"
  shows "okE (serviceOne process q) (\<lambda>(q', r). agenda q' xs \<and>
     (\<forall>y. key_of q' y = key_of q y \<and> (exit_flags_ok (events q y) \<longrightarrow> exit_flags_ok (events q' y))))"
proof (cases "ev_Squashed (events q x)")
  case True
  then show ?thesis using okE_mono [OF serviceOne_squashed [OF a, of process]] by auto
next
  case False
  note h = handler_queue_agenda [OF a]
  have x: "x \<notin> set xs" using agenda_distinct [OF a] by simp
  obtain q2 where q2: "process x (handler_queue x q) = Inr q2" "agenda q2 xs" "\<And>y. key_of q2 y = key_of q y"
    "\<And>y. exit_flags_ok (events q y) \<Longrightarrow> exit_flags_ok (events q2 y)"
    using p h(1,4,5) x unfolding quiet_def okE_iff by metis
  show ?thesis
    unfolding serviceOne_processed [OF a False] q2(1) using q2 release_agenda(1) [OF q2(2), of x] q2(4) [OF f] by simp
qed

lemma service_loop_agenda:
  assumes p: "quiet process" and "agenda q xs" and "\<forall>x \<in> set xs. exit_flags_ok (events q x)"
  shows "\<exists>q'. service_loop process w q = Some (Inr q') \<and>
     agenda q' (dropWhile (\<lambda>x. ev_when (events q x) \<le> w) xs) \<and> (\<forall>y. key_of q' y = key_of q y)"
  using assms(2,3)
proof (induction xs arbitrary: q)
  case Nil
  then have "eq_head q = None" using agenda_head by fastforce
  then have "service_loop process w q = Some (Inr q)" by (subst service_loop.simps) simp
  then show ?case using Nil by simp
next
  case (Cons x xs)
  have head: "eq_head q = Some x" using agenda_head [OF Cons.prems(1)] by simp
  show ?case
  proof (cases "w < ev_when (events q x)")
    case True
    then have "service_loop process w q = Some (Inr q)" by (subst service_loop.simps) (simp add: head)
    then show ?thesis using Cons.prems True by (simp add: not_le [symmetric])
  next
    case False
    obtain q1 r where q1: "serviceOne process q = Inr (q1, r)" "agenda q1 xs" "\<And>y. key_of q1 y = key_of q y"
      "\<forall>y \<in> set xs. exit_flags_ok (events q1 y)"
      using serviceOne_quiet [OF p Cons.prems(1)] Cons.prems(2) by (auto simp: okE_iff)
    have wh: "ev_when (events q1 y) = ev_when (events q y)" for y using q1(3) [of y] by (simp add: ev_key_def)
    obtain q' where q': "service_loop process w q1 = Some (Inr q')"
      "agenda q' (dropWhile (\<lambda>x. ev_when (events q1 x) \<le> w) xs)" "\<And>y. key_of q' y = key_of q1 y"
      using Cons.IH [OF q1(2,4)] by blast
    have "service_loop process w q = service_loop process w q1"
      using False by (subst service_loop.simps) (simp add: head q1(1))
    then show ?thesis using q' q1(3) False by (simp add: wh not_less)
  qed
qed


section \<open>The self-check\<close>

lemma verify_bin_ok:
  assumes "in_bin st p b" and "sorted (map (\<lambda>x. ev_key (st x)) b)" and "distinct b" and "set b \<inter> set seen = {}"
    and "b \<noteq> [] \<longrightarrow> (t, pr) \<le> ev_key (st (hd b))"
  shows "verify_bin st p (t, pr, seen) =
     Some (Some (if b = [] then (t, pr, seen) else (ev_when (st (last b)), ev_priority (st (last b)), rev b @ seen)))"
  using assms
proof (induction b arbitrary: p t pr seen)
  case Nil
  then show ?case by (subst verify_bin.simps) simp
next
  case (Cons x b)
  have p: "p = Some x" "in_bin st (nextInBin (st x)) b" using Cons.prems(1) by auto
  have k: "(t, pr) \<le> (ev_when (st x), ev_priority (st x))" using Cons.prems(5) by (simp add: ev_key_def)
  have le: "\<not> ev_when (st x) < t" "\<not> (ev_when (st x) = t \<and> ev_priority (st x) < pr)"
    using k by (auto simp: less_eq_prod_def)
  have "verify_bin st p (t, pr, seen) = verify_bin st (nextInBin (st x)) (ev_when (st x), ev_priority (st x), x # seen)"
    using le Cons.prems(4) by (subst verify_bin.simps) (auto simp: p(1))
  moreover have "b \<noteq> [] \<longrightarrow> (ev_when (st x), ev_priority (st x)) \<le> ev_key (st (hd b))"
    using Cons.prems(2) by (cases b) (simp_all add: ev_key_def)
  ultimately show ?case using Cons.IH [OF p(2)] Cons.prems(2-4) by simp
qed

lemma verify_bins_ok:
  assumes "path st p bs None" and "bins_ok (\<lambda>x. ev_key (st x)) bs" and "set (concat bs) \<inter> set seen = {}"
    and "bs \<noteq> [] \<longrightarrow> (t, pr) \<le> ev_key (st (hd (hd bs)))"
  shows "verify_bins st p (t, pr, seen) = Some True"
  using assms
proof (induction bs arbitrary: p t pr seen)
  case Nil
  then show ?case by (subst verify_bins.simps) simp
next
  case (Cons b bs)
  have b: "b \<noteq> []" "distinct b" "set b \<inter> set (concat bs) = {}" "\<forall>c \<in> set bs. ev_key (st (hd b)) < ev_key (st (hd c))"
    and ok: "bins_ok (\<lambda>x. ev_key (st x)) bs"
    using Cons.prems(2) unfolding bins_ok_Cons by blast+
  have p: "p = Some (hd b)" "in_bin st p b" "path st (nextBin (st (hd b))) bs None"
    using Cons.prems(1) in_bin_head b(1) by auto
  have "bins_ok (\<lambda>x. ev_key (st x)) [b]" using Cons.prems(2) bins_ok_append [of _ "[b]" bs] by simp
  then have so: "sorted (map (\<lambda>x. ev_key (st x)) b)" using bins_sorted by fastforce
  obtain k where k: "\<And>x. x \<in> set b \<Longrightarrow> ev_key (st x) = k" "ev_key (st (hd b)) = k"
    using bin_key [OF Cons.prems(2)] by (metis list.set_intros(1))
  have vb: "verify_bin st p (t, pr, seen) = Some (Some (ev_when (st (last b)), ev_priority (st (last b)), rev b @ seen))"
    using verify_bin_ok [OF p(2) so b(2), of seen t pr] Cons.prems(3,4) b(1) by auto
  have last: "(ev_when (st (last b)), ev_priority (st (last b))) = k"
    using k(1) [of "last b"] b(1) by (simp add: ev_key_def)
  have "verify_bins st (nextBin (st (hd b))) (ev_when (st (last b)), ev_priority (st (last b)), rev b @ seen) = Some True"
  proof (rule Cons.IH [OF p(3) ok])
    show "set (concat bs) \<inter> set (rev b @ seen) = {}" using b(3) Cons.prems(3) by auto
    show "bs \<noteq> [] \<longrightarrow> (ev_when (st (last b)), ev_priority (st (last b))) \<le> ev_key (st (hd (hd bs)))"
      unfolding last using b(4) k(2) by (cases bs) (simp_all add: less_imp_le)
  qed
  then show ?case using vb p(1) by (subst verify_bins.simps) simp
qed

text \<open>
  C14. The self-check \<open>debugVerify\<close> ends on every well-formed queue.  It accepts the queue unless
  the first event is at tick 0 with a negative priority: the check starts with priority 0 and then
  reports an inversion although the queue is in order.
\<close>

theorem debugVerify_exact:
  assumes "agenda q xs"
  shows "debugVerify q = Inr (xs = [] \<or> \<not> (ev_when (events q (hd xs)) = 0 \<and> ev_priority (events q (hd xs)) < 0))"
proof -
  obtain bs where bs: "represents q bs" "xs = concat bs" using agendaD(1) [OF assms] by blast
  have p: "path (events q) (eq_head q) bs None" and ok: "bins_ok (key_of q) bs" using bs(1) by (simp_all add: represents_def)
  show ?thesis
  proof (cases bs)
    case Nil
    then show ?thesis using p bs(2) by (simp add: debugVerify_def) (subst verify_bins.simps, simp)
  next
    case (Cons b bs')
    have b: "b \<noteq> []" using ok unfolding Cons bins_ok_Cons by blast
    then have xs: "xs \<noteq> []" "hd xs = hd b" using bs(2) Cons by simp_all
    have h: "eq_head q = Some (hd b)" using p Cons in_bin_head by auto
    let ?e = "events q (hd b)"
    show ?thesis
    proof (cases "ev_when ?e = 0 \<and> ev_priority ?e < 0")
      case True
      then have "verify_bin (events q) (Some (hd b)) (0, 0, []) = Some None" by (subst verify_bin.simps) simp
      then have "verify_bins (events q) (eq_head q) (0, 0, []) = Some False" by (subst verify_bins.simps) (simp add: h)
      then show ?thesis using True xs by (simp add: debugVerify_def)
    next
      case False
      have "(0, 0) \<le> ev_key ?e" using False by (auto simp: ev_key_def less_eq_prod_def word_gt_0 not_less)
      then have "verify_bins (events q) (eq_head q) (0, 0, []) = Some True"
        using verify_bins_ok [OF p ok, of "[]"] Cons by simp
      then show ?thesis using False xs by (auto simp: debugVerify_def)
    qed
  qed
qed

section \<open>The interface of the queue\<close>

text \<open>
  What a user of the queue relies on: it holds an ordered list, and taking the first element
  leaves the rest and all ranks as they are.
\<close>

locale ordered_agenda =
  fixes R :: "'q \<Rightarrow> 'e list \<Rightarrow> bool" and rank :: "'q \<Rightarrow> 'e \<Rightarrow> 'k::linorder" and pop :: "'e \<Rightarrow> 'q \<Rightarrow> 'q"
  assumes ordered: "R q xs \<Longrightarrow> sorted (map (rank q) xs)"
    and pop_rest: "R q (x # xs) \<Longrightarrow> R (pop x q) xs"
    and pop_rank: "R q (x # xs) \<Longrightarrow> rank (pop x q) y = rank q y"
begin

lemma pop_many:
  "R q (xs @ ys) \<Longrightarrow> R (fold pop xs q) ys \<and> (\<forall>y. rank (fold pop xs q) y = rank q y)"
proof (induction xs arbitrary: q)
  case (Cons x xs)
  then show ?case using pop_rest [of q x "xs @ ys"] pop_rank [of q x "xs @ ys"] by simp
qed simp

lemma pop_nth:
  assumes "R q xs" and "n \<le> length xs"
  shows "R (fold pop (take n xs) q) (drop n xs)"
  using pop_many [of q "take n xs" "drop n xs"] assms by simp

lemma rank_mono:
  assumes "R q xs" and "n \<le> m" and "m < length xs"
  shows "rank q (xs ! n) \<le> rank q (xs ! m)"
  using sorted_nth_mono [OF ordered [OF assms(1)], of n m] assms(2,3) by simp

end

interpretation evq: ordered_agenda agenda key_of "\<lambda>x q. take_event x q"
  by unfold_locales (use agenda_sorted take_event_agenda(1,2) in \<open>blast+\<close>)

text \<open>
  C6. Scheduling puts the event into the agenda behind every event of an earlier time (or the same
  time and a smaller priority) and before every other one; the queue operation always ends.
\<close>

theorem eq_schedule_refines:
  assumes "agenda q xs" and "\<not> ev_Scheduled (events q e)" "ev_initialized (events q e)" "\<not> ev_freed (events q e)"
    and "eq_curTick q \<le> w" and "local_call g q"
  shows "okE (eq_schedule e w g q) (\<lambda>q'. agenda q' (ins_event (new_key e w q) e xs) \<and>
     eq_curTick q' = eq_curTick q \<and> ev_when (events q' e) = w)"
  by (rule schedule_agenda [OF assms])

text \<open>
  C10. Descheduling takes exactly that event off the agenda, wherever it is, and deletes it if it is
  managed.
\<close>

theorem eq_deschedule_refines:
  assumes "agenda q xs" and "x \<in> set xs" and "local_call False q"
  shows "okE (eq_deschedule x q) (\<lambda>q'. agenda q' (remove1 x xs) \<and> eq_curTick q' = eq_curTick q \<and>
     ev_freed (events q' x) = ev_Managed (events q x))"
  by (rule okE_mono [OF deschedule_agenda [OF assms, of False]]) simp

text \<open>
  C7. Rescheduling moves a scheduled event to its new place on the agenda.
\<close>

theorem eq_reschedule_refines:
  assumes "agenda q xs" and "x \<in> set xs" and "eq_curTick q \<le> w" and "local_call False q"
  shows "okE (eq_reschedule x w always q) (\<lambda>q'. agenda q' (ins_event (new_key x w q) x (remove1 x xs)) \<and>
     eq_curTick q' = eq_curTick q \<and> ev_when (events q' x) = w)"
  by (rule reschedule_agenda [OF assms])

text \<open>
  C11. Scheduling fails exactly for a time in the past or an event that is already on the agenda.
\<close>

theorem eq_schedule_errors:
  assumes "agenda q xs" and "ev_initialized (events q e)" "\<not> ev_freed (events q e)" and "local_call g q"
  shows "(\<exists>m. eq_schedule e w g q = Inl (AssertFail m)) \<longleftrightarrow> w < eq_curTick q \<or> e \<in> set xs"
proof (cases "w < eq_curTick q \<or> e \<in> set xs")
  case True
  then show ?thesis using assms agendaD(2) [OF assms(1), of e] by (auto simp: eq_schedule_def guardE_def)
next
  case False
  then have "okE (eq_schedule e w g q) (\<lambda>_. True)"
    using okE_mono [OF schedule_agenda [OF assms(1) _ assms(2,3) _ assms(4), of w]] agendaD(2) [OF assms(1), of e] by auto
  then show ?thesis using False by (auto simp: okE_iff)
qed

text \<open>
  C12. Events leave the queue in the order of the agenda, and every event that leaves is a least one
  of those left: after \<open>n\<close> events the head is the \<open>n\<close>-th, and no later one has a smaller time or
  priority.
\<close>

theorem events_leave_in_order:
  assumes "agenda q xs" and "n \<le> m" and "m < length xs"
  shows "eq_head (fold take_event (take n xs) q) = Some (xs ! n) \<and> key_of q (xs ! n) \<le> key_of q (xs ! m)"
proof
  have "agenda (fold take_event (take n xs) q) (drop n xs)" using evq.pop_nth assms by simp
  then show "eq_head (fold take_event (take n xs) q) = Some (xs ! n)"
    using agenda_head assms(2,3) by (fastforce simp flip: Cons_nth_drop_Suc)
  show "key_of q (xs ! n) \<le> key_of q (xs ! m)" by (rule evq.rank_mono [OF assms])
qed

section \<open>Destruction\<close>

text \<open>
  C13. Destroying a queue ends: every event is descheduled, so the queue is empty afterwards, no
  event is marked as scheduled, and the managed events of the queue are deleted.
\<close>

theorem destroy_EventQueue_empties:
  assumes "agenda q xs" and "local_call False q"
  shows "\<exists>q'. destroy_EventQueue q = Some (Inr q') \<and> agenda q' [] \<and> (\<forall>y. \<not> ev_Scheduled (events q' y))"
  using assms
proof (induction xs arbitrary: q)
  case Nil
  then have "destroy_EventQueue q = Some (Inr q)"
    using agenda_head [OF Nil(1)] by (subst destroy_EventQueue.simps) simp
  then show ?case using Nil agendaD(2) [OF Nil(1)] by simp
next
  case (Cons x xs)
  obtain q1 where q1: "eq_deschedule x q = Inr q1" "agenda q1 xs" "local_call False q1"
    using deschedule_agenda [OF Cons.prems(1) _ Cons.prems(2), of x False] Cons.prems(2) by (auto simp: okE_iff)
  have "destroy_EventQueue q = destroy_EventQueue q1"
    using agenda_head [OF Cons.prems(1)] q1(1) by (subst destroy_EventQueue.simps) simp
  then show ?case using Cons.IH [OF q1(2,3)] by simp
qed

section \<open>Examples\<close>

definition demo_store :: ev_store where
  "demo_store = (\<lambda>_. new_Event 0 False False)"

definition demo_queue0 :: eventq where
  "demo_queue0 = new_EventQueue demo_store 0"

definition demo_queue :: eventq where
  "demo_queue = (case bindE (eq_schedule 1 5 False demo_queue0) (eq_schedule 2 3 False) of Inr q \<Rightarrow> q | Inl _ \<Rightarrow> demo_queue0)"

lemma demo_agenda0: "agenda demo_queue0 []"
  by (auto simp: agenda_def represents_def bins_ok_def demo_queue0_def new_EventQueue_def demo_store_def new_Event_def
      intro!: exI [of _ "[]"])

lemma demo_fields:
  "\<not> ev_Scheduled (events demo_queue0 e)" "ev_initialized (events demo_queue0 e)" "\<not> ev_freed (events demo_queue0 e)"
  "eq_curTick demo_queue0 = 0" "local_call g demo_queue0" "ev_priority (events demo_queue0 e) = 0"
  by (simp_all add: demo_queue0_def new_EventQueue_def demo_store_def new_Event_def local_call_def)

lemma demo_agenda: "agenda demo_queue [2, 1]"
proof -
  obtain q1 where q1: "eq_schedule 1 5 False demo_queue0 = Inr q1" "agenda q1 [1]" "eq_curTick q1 = 0"
    using schedule_agenda [OF demo_agenda0 demo_fields(1-3) _ demo_fields(5), of 5 1 False] demo_fields(4)
    by (auto simp: okE_iff ins_event_def)
  have f: "\<not> ev_Scheduled (events q1 2)" "ev_initialized (events q1 2)" "\<not> ev_freed (events q1 2)" "local_call False q1"
    "\<not> new_key 2 3 q1 1 < new_key 2 3 q1 2"
    using q1(1) by (auto simp: demo_queue0_def new_EventQueue_def demo_store_def new_Event_def eq_schedule_def setWhen_def
        eq_insert_def insertBefore_def guardE_def local_call_def new_key_def ev_key_def)
  then show ?thesis
    using schedule_agenda [OF q1(2) f(1-3) _ f(4), of 3] q1 by (auto simp: okE_iff demo_queue_def ins_event_def)
qed

lemma demo_queue_state:
  "\<not> inParallelMode demo_queue" "eq_curTick demo_queue = 0"
  by code_simp+

theorem eq_schedule_refines_witness:
  "okE (eq_schedule 3 4 False demo_queue) (\<lambda>q. agenda q [2, 3, 1])"
proof -
  have "\<not> ev_Scheduled (events demo_queue 3)" "ev_initialized (events demo_queue 3)" "\<not> ev_freed (events demo_queue 3)"
    "ins_event (new_key 3 4 demo_queue) 3 [2, 1] = [2, 3, 1]" "local_call False demo_queue" "eq_curTick demo_queue \<le> 4"
    by code_simp+
  then show ?thesis using eq_schedule_refines [OF demo_agenda, of 3 4 False] by (auto simp: okE_iff)
qed

theorem eq_deschedule_refines_witness: "okE (eq_deschedule 1 demo_queue) (\<lambda>q. agenda q [2])"
  using eq_deschedule_refines [OF demo_agenda, of 1] demo_queue_state by (auto simp: okE_iff local_call_def)

theorem eq_reschedule_refines_witness: "okE (eq_reschedule 2 9 False demo_queue) (\<lambda>q. agenda q [1, 2])"
proof -
  have "ins_event (new_key 2 9 demo_queue) 2 [1] = [1, 2]" by code_simp
  then show ?thesis
    using eq_reschedule_refines [OF demo_agenda, of 2 9 False] demo_queue_state by (auto simp: okE_iff local_call_def)
qed

theorem eq_schedule_errors_witness: "\<exists>m. eq_schedule 1 7 False demo_queue = Inl (AssertFail m)"
proof -
  have "ev_initialized (events demo_queue 1)" "\<not> ev_freed (events demo_queue 1)" by code_simp+
  then show ?thesis
    using eq_schedule_errors [OF demo_agenda, of 1 False 7] demo_queue_state by (auto simp: local_call_def)
qed

theorem events_leave_in_order_witness:
  "eq_head (take_event 2 demo_queue) = Some 1 \<and> key_of demo_queue 2 \<le> key_of demo_queue 1"
  using events_leave_in_order [OF demo_agenda, of 1 1] events_leave_in_order [OF demo_agenda, of 0 1] by simp

theorem debugVerify_exact_witness: "debugVerify demo_queue = Inr True"
proof -
  have "ev_when (events demo_queue 2) = 3" by code_simp
  then show ?thesis using debugVerify_exact [OF demo_agenda] by simp
qed


text \<open>A handler that leaves the queue alone.\<close>

definition idle_handler :: "ev_ptr \<Rightarrow> eventq \<Rightarrow> eventq res" where
  "idle_handler x q = Inr q"


theorem serviceOne_refines_witness:
  "okE (serviceOne idle_handler demo_queue) (\<lambda>(q, r). r = None \<and> agenda q [1] \<and> eq_curTick q = 3)"
proof -
  have e: "ev_when (events demo_queue 2) = 3" "\<not> ev_Squashed (events demo_queue 2)" "\<not> ev_IsExitEvent (events demo_queue 2)"
    by code_simp+
  obtain q1 where q1: "agenda q1 [1]" "q1 = demo_queue\<lparr>events := events q1, eq_head := eq_head q1, eq_curTick := 3\<rparr>"
      "\<forall>y. unlinked (events q1 y) = unlinked (if y = 2 then (events demo_queue 2)\<lparr>ev_Scheduled := False\<rparr> else events demo_queue y)"
    and run: "if exit_flags_ok (events q1 2)
            then okE (serviceOne idle_handler demo_queue) (\<lambda>(q', r). r = (if ev_IsExitEvent (events q1 2) then Some 2 else None) \<and>
                   eq_curTick q' = eq_curTick q1 \<and> (\<forall>zs. agenda q1 zs \<longrightarrow> agenda q' zs))
            else serviceOne idle_handler demo_queue = Inl (AssertFail ''!Managed || !IsMainQueue'')"
    using serviceOne_refines [OF demo_agenda, of idle_handler] e(1,2)
    by (simp add: idle_handler_def) blast
  have x: "\<not> ev_IsExitEvent (events q1 2)" using arg_cong [OF spec [OF q1(3), of 2], of ev_IsExitEvent] e(3) by (simp add: unlinked_def)
  moreover have "eq_curTick q1 = 3" using arg_cong [OF q1(2), of eq_curTick] by simp
  ultimately show ?thesis using run q1(1) by (auto simp: exit_flags_ok_def elim!: okE_mono)
qed


theorem destroy_EventQueue_empties_witness:
  "\<exists>q'. destroy_EventQueue demo_queue = Some (Inr q') \<and> agenda q' [] \<and> (\<forall>y. \<not> ev_Scheduled (events q' y))"
  using destroy_EventQueue_empties [OF demo_agenda] demo_queue_state by (simp add: local_call_def)

end
