(* ===== verification/Packet.thy ===== *)
theory Packet
  imports Prelude
begin

text \<open>
  Commands and packets of the memory system (\<open>gem5/src/mem/packet.hh\<close>, \<open>packet.cc\<close>): the
  commands with their table of attributes, and the packet with its flags, delays and sender
  states.  The bytes of a payload are left out; of a request only what its users here read
  is kept.
\<close>

unbundle bit_operations_syntax

section \<open>Commands\<close>

datatype Command =
    InvalidCmd | ReadReq | ReadResp | ReadRespWithInvalidate | WriteReq | WriteResp | WriteCompleteResp |
    WritebackDirty | WritebackClean | WriteClean | CleanEvict | SoftPFReq | SoftPFExReq | HardPFReq |
    SoftPFResp | HardPFResp | WriteLineReq | UpgradeReq | SCUpgradeReq | UpgradeResp | SCUpgradeFailReq |
    UpgradeFailResp | ReadExReq | ReadExResp | ReadCleanReq | ReadSharedReq | LoadLockedReq | StoreCondReq |
    StoreCondFailReq | StoreCondResp | LockedRMWReadReq | LockedRMWReadResp | LockedRMWWriteReq |
    LockedRMWWriteResp | SwapReq | SwapResp | MemFenceReq | MemSyncReq | MemSyncResp | MemFenceResp |
    CleanSharedReq | CleanSharedResp | CleanInvalidReq | CleanInvalidResp | InvalidDestError |
    BadAddressError | ReadError | WriteError | FunctionalReadError | FunctionalWriteError | PrintReq |
    FlushReq | InvalidateReq | InvalidateResp | HTMReq | HTMReqResp | HTMAbort | TlbiExtSync

datatype Attribute =
    IsRead | IsWrite | IsUpgrade | IsInvalidate | IsClean | NeedsWritable | IsRequest | IsResponse |
    NeedsResponse | IsEviction | IsSWPrefetch | IsHWPrefetch | IsLlsc | IsLockedRMW | HasData | IsError |
    IsPrint | IsFlush | FromCache

text \<open>Attributes, response command and name.\<close>

type_synonym CommandInfo = "Attribute list \<times> Command \<times> string"

text \<open>The value of a command; the two deprecated message commands leave a gap after \<open>SwapResp\<close>.\<close>

primrec toInt :: "Command \<Rightarrow> nat" where
  "toInt InvalidCmd = 0"
| "toInt ReadReq = 1"
| "toInt ReadResp = 2"
| "toInt ReadRespWithInvalidate = 3"
| "toInt WriteReq = 4"
| "toInt WriteResp = 5"
| "toInt WriteCompleteResp = 6"
| "toInt WritebackDirty = 7"
| "toInt WritebackClean = 8"
| "toInt WriteClean = 9"
| "toInt CleanEvict = 10"
| "toInt SoftPFReq = 11"
| "toInt SoftPFExReq = 12"
| "toInt HardPFReq = 13"
| "toInt SoftPFResp = 14"
| "toInt HardPFResp = 15"
| "toInt WriteLineReq = 16"
| "toInt UpgradeReq = 17"
| "toInt SCUpgradeReq = 18"
| "toInt UpgradeResp = 19"
| "toInt SCUpgradeFailReq = 20"
| "toInt UpgradeFailResp = 21"
| "toInt ReadExReq = 22"
| "toInt ReadExResp = 23"
| "toInt ReadCleanReq = 24"
| "toInt ReadSharedReq = 25"
| "toInt LoadLockedReq = 26"
| "toInt StoreCondReq = 27"
| "toInt StoreCondFailReq = 28"
| "toInt StoreCondResp = 29"
| "toInt LockedRMWReadReq = 30"
| "toInt LockedRMWReadResp = 31"
| "toInt LockedRMWWriteReq = 32"
| "toInt LockedRMWWriteResp = 33"
| "toInt SwapReq = 34"
| "toInt SwapResp = 35"
| "toInt MemFenceReq = 38"
| "toInt MemSyncReq = 39"
| "toInt MemSyncResp = 40"
| "toInt MemFenceResp = 41"
| "toInt CleanSharedReq = 42"
| "toInt CleanSharedResp = 43"
| "toInt CleanInvalidReq = 44"
| "toInt CleanInvalidResp = 45"
| "toInt InvalidDestError = 46"
| "toInt BadAddressError = 47"
| "toInt ReadError = 48"
| "toInt WriteError = 49"
| "toInt FunctionalReadError = 50"
| "toInt FunctionalWriteError = 51"
| "toInt PrintReq = 52"
| "toInt FlushReq = 53"
| "toInt InvalidateReq = 54"
| "toInt InvalidateResp = 55"
| "toInt HTMReq = 56"
| "toInt HTMReqResp = 57"
| "toInt HTMAbort = 58"
| "toInt TlbiExtSync = 59"

definition commandInfo :: "CommandInfo list" where
  "commandInfo = [
     ([], InvalidCmd, ''InvalidCmd''),
     ([IsRead, IsRequest, NeedsResponse], ReadResp, ''ReadReq''),
     ([IsRead, IsResponse, HasData], InvalidCmd, ''ReadResp''),
     ([IsRead, IsResponse, HasData, IsInvalidate], InvalidCmd, ''ReadRespWithInvalidate''),
     ([IsWrite, NeedsWritable, IsRequest, NeedsResponse, HasData], WriteResp, ''WriteReq''),
     ([IsWrite, IsResponse], InvalidCmd, ''WriteResp''),
     ([IsWrite, IsResponse], InvalidCmd, ''WriteCompleteResp''),
     ([IsWrite, IsRequest, IsEviction, HasData, FromCache], InvalidCmd, ''WritebackDirty''),
     ([IsWrite, IsRequest, IsEviction, HasData, FromCache], InvalidCmd, ''WritebackClean''),
     ([IsWrite, IsRequest, HasData, FromCache], InvalidCmd, ''WriteClean''),
     ([IsRequest, IsEviction, FromCache], InvalidCmd, ''CleanEvict''),
     ([IsRead, IsRequest, IsSWPrefetch, NeedsResponse], SoftPFResp, ''SoftPFReq''),
     ([IsRead, NeedsWritable, IsInvalidate, IsRequest, IsSWPrefetch, NeedsResponse], SoftPFResp, ''SoftPFExReq''),
     ([IsRead, IsRequest, IsHWPrefetch, NeedsResponse, FromCache], HardPFResp, ''HardPFReq''),
     ([IsRead, IsResponse, IsSWPrefetch, HasData], InvalidCmd, ''SoftPFResp''),
     ([IsRead, IsResponse, IsHWPrefetch, HasData], InvalidCmd, ''HardPFResp''),
     ([IsWrite, NeedsWritable, IsRequest, NeedsResponse, HasData], WriteResp, ''WriteLineReq''),
     ([IsInvalidate, NeedsWritable, IsUpgrade, IsRequest, NeedsResponse, FromCache], UpgradeResp, ''UpgradeReq''),
     ([IsInvalidate, NeedsWritable, IsUpgrade, IsLlsc, IsRequest, NeedsResponse, FromCache], UpgradeResp, ''SCUpgradeReq''),
     ([IsUpgrade, IsResponse], InvalidCmd, ''UpgradeResp''),
     ([IsRead, NeedsWritable, IsInvalidate, IsLlsc, IsRequest, NeedsResponse, FromCache], UpgradeFailResp, ''SCUpgradeFailReq''),
     ([IsRead, IsResponse, HasData], InvalidCmd, ''UpgradeFailResp''),
     ([IsRead, NeedsWritable, IsInvalidate, IsRequest, NeedsResponse, FromCache], ReadExResp, ''ReadExReq''),
     ([IsRead, IsResponse, HasData], InvalidCmd, ''ReadExResp''),
     ([IsRead, IsRequest, NeedsResponse, FromCache], ReadResp, ''ReadCleanReq''),
     ([IsRead, IsRequest, NeedsResponse, FromCache], ReadResp, ''ReadSharedReq''),
     ([IsRead, IsLlsc, IsRequest, NeedsResponse], ReadResp, ''LoadLockedReq''),
     ([IsWrite, NeedsWritable, IsLlsc, IsRequest, NeedsResponse, HasData], StoreCondResp, ''StoreCondReq''),
     ([IsWrite, NeedsWritable, IsLlsc, IsRequest, NeedsResponse, HasData], StoreCondResp, ''StoreCondFailReq''),
     ([IsWrite, IsLlsc, IsResponse], InvalidCmd, ''StoreCondResp''),
     ([IsRead, IsLockedRMW, NeedsWritable, IsRequest, NeedsResponse], LockedRMWReadResp, ''LockedRMWReadReq''),
     ([IsRead, IsLockedRMW, NeedsWritable, IsResponse, HasData], InvalidCmd, ''LockedRMWReadResp''),
     ([IsWrite, IsLockedRMW, NeedsWritable, IsRequest, NeedsResponse, HasData], LockedRMWWriteResp, ''LockedRMWWriteReq''),
     ([IsWrite, IsLockedRMW, NeedsWritable, IsResponse], InvalidCmd, ''LockedRMWWriteResp''),
     ([IsRead, IsWrite, NeedsWritable, IsRequest, HasData, NeedsResponse], SwapResp, ''SwapReq''),
     ([IsRead, IsWrite, IsResponse, HasData], InvalidCmd, ''SwapResp''),
     ([], InvalidCmd, ''Deprecated_MessageReq''),
     ([], InvalidCmd, ''Deprecated_MessageResp''),
     ([IsRequest, NeedsResponse], MemFenceResp, ''MemFenceReq''),
     ([IsRequest, NeedsResponse], MemSyncResp, ''MemSyncReq''),
     ([IsResponse], InvalidCmd, ''MemSyncResp''),
     ([IsResponse], InvalidCmd, ''MemFenceResp''),
     ([IsRequest, IsClean, NeedsResponse, FromCache], CleanSharedResp, ''CleanSharedReq''),
     ([IsResponse, IsClean], InvalidCmd, ''CleanSharedResp''),
     ([IsRequest, IsInvalidate, IsClean, NeedsResponse, FromCache], CleanInvalidResp, ''CleanInvalidReq''),
     ([IsResponse, IsInvalidate, IsClean], InvalidCmd, ''CleanInvalidResp''),
     ([IsResponse, IsError], InvalidCmd, ''InvalidDestError''),
     ([IsResponse, IsError], InvalidCmd, ''BadAddressError''),
     ([IsRead, IsResponse, IsError], InvalidCmd, ''ReadError''),
     ([IsWrite, IsResponse, IsError], InvalidCmd, ''WriteError''),
     ([IsRead, IsResponse, IsError], InvalidCmd, ''FunctionalReadError''),
     ([IsWrite, IsResponse, IsError], InvalidCmd, ''FunctionalWriteError''),
     ([IsRequest, IsPrint], InvalidCmd, ''PrintReq''),
     ([IsRequest, IsFlush, NeedsWritable], InvalidCmd, ''FlushReq''),
     ([IsInvalidate, IsRequest, NeedsWritable, NeedsResponse, FromCache], InvalidateResp, ''InvalidateReq''),
     ([IsInvalidate, IsResponse], InvalidCmd, ''InvalidateResp''),
     ([IsRead, IsRequest, NeedsResponse], HTMReqResp, ''HTMReq''),
     ([IsRead, IsResponse], InvalidCmd, ''HTMReqResp''),
     ([IsRead, IsRequest], InvalidCmd, ''HTMAbort''),
     ([IsRequest], InvalidCmd, ''TlbiExtSync'')]"

definition testCmdAttrib :: "Attribute \<Rightarrow> Command \<Rightarrow> bool" where
  "testCmdAttrib attrib c = (case commandInfo ! toInt c of (attrs, _, _) \<Rightarrow> attrib \<in> set attrs)"

definition responseCommand :: "Command \<Rightarrow> Command" where
  "responseCommand c = (case commandInfo ! toInt c of (_, resp, _) \<Rightarrow> resp)"

definition cmd_toString :: "Command \<Rightarrow> string" where
  "cmd_toString c = (case commandInfo ! toInt c of (_, _, str) \<Rightarrow> str)"

definition cmd_isWriteback :: "Command \<Rightarrow> bool" where
  "cmd_isWriteback c \<longleftrightarrow> testCmdAttrib IsEviction c \<and> testCmdAttrib HasData c"

definition cmd_isPrefetch :: "Command \<Rightarrow> bool" where
  "cmd_isPrefetch c \<longleftrightarrow> testCmdAttrib IsSWPrefetch c \<or> testCmdAttrib IsHWPrefetch c"

definition cmd_isDemand :: "Command \<Rightarrow> bool" where
  "cmd_isDemand c \<longleftrightarrow> c \<in> {ReadReq, WriteReq, WriteLineReq, ReadExReq, ReadCleanReq, ReadSharedReq}"

section \<open>Packets\<close>

datatype PacketFlag =
    HAS_SHARERS | EXPRESS_SNOOP | RESPONDER_HAD_WRITABLE | CACHE_RESPONDING | WRITE_THROUGH | SATISFIED |
    FAILS_TRANSACTION | FROM_TRANSACTION | VALID_ADDR | VALID_SIZE | STATIC_DATA | DYNAMIC_DATA |
    SUPPRESS_FUNC_ERROR | BLOCK_CACHED

definition COPY_FLAGS :: "PacketFlag set" where
  "COPY_FLAGS = {HAS_SHARERS, EXPRESS_SNOOP, RESPONDER_HAD_WRITABLE, CACHE_RESPONDING, WRITE_THROUGH, SATISFIED,
     FAILS_TRANSACTION, FROM_TRANSACTION}"

definition RESPONDER_FLAGS :: "PacketFlag set" where
  "RESPONDER_FLAGS = {HAS_SHARERS, CACHE_RESPONDING}"

text \<open>\<open>rq_ptr\<close> is the identity of the request object.\<close>

record request =
  rq_ptr :: nat
  rq_paddr :: "u64 option"
  rq_size :: "u32 option"
  rq_secure :: bool
  rq_uncacheable :: bool
  rq_clean :: bool          \<comment> \<open>\<open>CLEAN\<close>\<close>
  rq_invalidate :: bool     \<comment> \<open>\<open>INVALIDATE\<close>\<close>
  rq_toPOU :: bool
  rq_toPOC :: bool
  rq_masked :: bool
  rq_htm :: bool
  rq_htmAbort :: bool
  rq_llsc :: bool
  rq_prefetchEx :: bool
  rq_prefetch :: bool
  rq_lockedRMW :: bool
  rq_swap :: bool
  rq_atomic :: bool
  rq_broadcast :: bool

definition isCacheMaintenance :: "request \<Rightarrow> bool" where
  "isCacheMaintenance r \<longleftrightarrow> rq_clean r \<or> rq_invalidate r"

definition setBroadcast :: "request \<Rightarrow> request" where
  "setBroadcast r = r\<lparr>rq_broadcast := True\<rparr>"

record packet =
  p_flags :: "PacketFlag set"
  p_cmd :: Command
  p_id :: nat
  p_req :: request
  p_addr :: u64
  p_secure :: bool
  p_size :: u32
  p_qos :: "8 word"
  p_htmReason :: nat          \<comment> \<open>0 is \<open>NO_FAIL\<close>\<close>
  p_htmUid :: u64
  headerDelay :: u32
  snoopDelay :: u32
  payloadDelay :: u32
  senderState :: "nat list"   \<comment> \<open>the stack of sender states, the top first\<close>
  broadcastToOther :: bool

abbreviation pkt_is :: "Attribute \<Rightarrow> packet \<Rightarrow> bool" where
  "pkt_is a p \<equiv> testCmdAttrib a (p_cmd p)"

definition pkt_isWriteback :: "packet \<Rightarrow> bool" where
  "pkt_isWriteback p = cmd_isWriteback (p_cmd p)"

definition needsWritable :: "packet \<Rightarrow> bool res" where
  "needsWritable p = bindE (guardE (pkt_is IsRequest p) (AssertFail ''isRequest()'')) (\<lambda>_. Inr (pkt_is NeedsWritable p))"

definition hasRespData :: "packet \<Rightarrow> bool" where
  "hasRespData p = testCmdAttrib HasData (responseCommand (p_cmd p))"

subsection \<open>Flags\<close>

abbreviation set_flag :: "PacketFlag \<Rightarrow> packet \<Rightarrow> packet" where
  "set_flag f p \<equiv> p\<lparr>p_flags := insert f (p_flags p)\<rparr>"

abbreviation clear_flag :: "PacketFlag \<Rightarrow> packet \<Rightarrow> packet" where
  "clear_flag f p \<equiv> p\<lparr>p_flags := p_flags p - {f}\<rparr>"

definition setCacheResponding :: "packet \<Rightarrow> packet res" where
  "setCacheResponding p =
     bindE (guardE (pkt_is IsRequest p) (AssertFail ''isRequest()'')) (\<lambda>_.
     bindE (guardE (CACHE_RESPONDING \<notin> p_flags p) (AssertFail ''!flags.isSet(CACHE_RESPONDING)'')) (\<lambda>_.
     Inr (set_flag CACHE_RESPONDING p)))"

definition setResponderHadWritable :: "packet \<Rightarrow> packet res" where
  "setResponderHadWritable p =
     bindE (guardE (CACHE_RESPONDING \<in> p_flags p) (AssertFail ''cacheResponding()'')) (\<lambda>_.
     bindE (guardE (RESPONDER_HAD_WRITABLE \<notin> p_flags p) (AssertFail ''!responderHadWritable()'')) (\<lambda>_.
     Inr (set_flag RESPONDER_HAD_WRITABLE p)))"

definition copyResponderFlags :: "packet \<Rightarrow> packet \<Rightarrow> packet res" where
  "copyResponderFlags pkt this =
     bindE (guardE (pkt_is IsRequest this) (AssertFail ''isRequest()'')) (\<lambda>_.
     bindE (guardE (CACHE_RESPONDING \<notin> p_flags pkt \<or> CACHE_RESPONDING \<notin> p_flags this)
              (AssertFail ''!pkt->cacheResponding() || !cacheResponding()'')) (\<lambda>_.
     Inr (this\<lparr>p_flags := p_flags this \<union> (p_flags pkt \<inter> RESPONDER_FLAGS)\<rparr>)))"

definition setWriteThrough :: "packet \<Rightarrow> packet res" where
  "setWriteThrough p =
     bindE (guardE (pkt_is IsWrite p \<and> (pkt_is IsEviction p \<or> p_cmd p = WriteClean)) (AssertFail ''cmd.isWrite()'')) (\<lambda>_.
     Inr (set_flag WRITE_THROUGH p))"

definition setSatisfied :: "packet \<Rightarrow> packet res" where
  "setSatisfied p =
     bindE (guardE (pkt_is IsClean p) (AssertFail ''cmd.isClean()'')) (\<lambda>_.
     bindE (guardE (SATISFIED \<notin> p_flags p) (AssertFail ''!flags.isSet(SATISFIED)'')) (\<lambda>_.
     Inr (set_flag SATISFIED p)))"

definition setBadAddress :: "packet \<Rightarrow> packet res" where
  "setBadAddress p =
     bindE (guardE (pkt_is IsResponse p) (AssertFail ''isResponse()'')) (\<lambda>_. Inr (p\<lparr>p_cmd := BadAddressError\<rparr>))"

definition setBadCommand :: "packet \<Rightarrow> packet res" where
  "setBadCommand p =
     bindE (guardE (pkt_is IsResponse p) (AssertFail ''isResponse()'')) (\<lambda>_.
     Inr (p\<lparr>p_cmd := (if pkt_is IsWrite p then WriteError else ReadError)\<rparr>))"

definition copyError :: "packet \<Rightarrow> packet \<Rightarrow> packet res" where
  "copyError pkt this =
     bindE (guardE (pkt_is IsError pkt) (AssertFail ''pkt->isError()'')) (\<lambda>_. Inr (this\<lparr>p_cmd := p_cmd pkt\<rparr>))"

definition mustCheckAbove :: "packet \<Rightarrow> bool" where
  "mustCheckAbove p \<longleftrightarrow> p_cmd p = HardPFReq \<or> pkt_is IsEviction p"

definition isCleanEviction :: "packet \<Rightarrow> bool" where
  "isCleanEviction p \<longleftrightarrow> p_cmd p = CleanEvict \<or> p_cmd p = WritebackClean"

definition isMaskedWrite :: "packet \<Rightarrow> bool" where
  "isMaskedWrite p \<longleftrightarrow> p_cmd p = WriteReq \<and> rq_masked (p_req p)"

subsection \<open>Addresses\<close>

definition getAddr :: "packet \<Rightarrow> u64 res" where
  "getAddr p = bindE (guardE (VALID_ADDR \<in> p_flags p) (AssertFail ''flags.isSet(VALID_ADDR)'')) (\<lambda>_. Inr (p_addr p))"

definition pkt_setAddr :: "u64 \<Rightarrow> packet \<Rightarrow> packet res" where
  "pkt_setAddr a p =
     bindE (guardE (VALID_ADDR \<in> p_flags p) (AssertFail ''flags.isSet(VALID_ADDR)'')) (\<lambda>_. Inr (p\<lparr>p_addr := a\<rparr>))"

definition getSize :: "packet \<Rightarrow> u32 res" where
  "getSize p = bindE (guardE (VALID_SIZE \<in> p_flags p) (AssertFail ''flags.isSet(VALID_SIZE)'')) (\<lambda>_. Inr (p_size p))"

definition pkt_setSize :: "u32 \<Rightarrow> packet \<Rightarrow> packet res" where
  "pkt_setSize n p =
     bindE (guardE (VALID_SIZE \<notin> p_flags p) (AssertFail ''!flags.isSet(VALID_SIZE)'')) (\<lambda>_.
     Inr (set_flag VALID_SIZE (p\<lparr>p_size := n\<rparr>)))"

text \<open>\<open>addr & Addr(blk_size - 1)\<close> and \<open>addr & ~(Addr(blk_size - 1))\<close>, \<open>blk_size\<close> of 32 bits.\<close>

definition getOffset :: "u32 \<Rightarrow> packet \<Rightarrow> u64 res" where
  "getOffset blk p = mapE (\<lambda>a. a AND ucast (blk - 1)) (getAddr p)"

definition block_addr :: "u32 \<Rightarrow> u64 \<Rightarrow> u64" where
  "block_addr blk a = a AND NOT (ucast (blk - 1))"

definition getBlockAddr :: "u32 \<Rightarrow> packet \<Rightarrow> u64 res" where
  "getBlockAddr blk p = mapE (block_addr blk) (getAddr p)"

definition pkt_isSecure :: "packet \<Rightarrow> bool res" where
  "pkt_isSecure p = bindE (guardE (VALID_ADDR \<in> p_flags p) (AssertFail ''flags.isSet(VALID_ADDR)'')) (\<lambda>_. Inr (p_secure p))"

definition isWholeLineWrite :: "u32 \<Rightarrow> packet \<Rightarrow> bool res" where
  "isWholeLineWrite blk p =
     (if p_cmd p = WriteReq \<or> p_cmd p = WriteLineReq then
        bindE (getOffset blk p) (\<lambda>off. if off = 0 then mapE (\<lambda>n. n = blk) (getSize p) else Inr False)
      else Inr False)"

definition matchBlockAddr :: "u64 \<Rightarrow> bool \<Rightarrow> u32 \<Rightarrow> packet \<Rightarrow> bool res" where
  "matchBlockAddr a secure blk p =
     bindE (getBlockAddr blk p) (\<lambda>b. if b = a then mapE (\<lambda>s. s = secure) (pkt_isSecure p) else Inr False)"

definition matchAddr :: "u64 \<Rightarrow> bool \<Rightarrow> packet \<Rightarrow> bool res" where
  "matchAddr a secure p =
     bindE (getAddr p) (\<lambda>b. if b = a then mapE (\<lambda>s. s = secure) (pkt_isSecure p) else Inr False)"

subsection \<open>Construction, responses, sender states\<close>

text \<open>\<open>allocate\<close>, without the bytes.\<close>

definition allocate :: "packet \<Rightarrow> packet res" where
  "allocate p =
     (if pkt_is HasData p \<or> hasRespData p then
        bindE (guardE (p_flags p \<inter> {STATIC_DATA, DYNAMIC_DATA} = {}) (AssertFail ''noneSet(STATIC_DATA|DYNAMIC_DATA)'')) (\<lambda>_.
        bindE (getSize p) (\<lambda>_. Inr (set_flag DYNAMIC_DATA p)))
      else Inr p)"

definition deleteData :: "packet \<Rightarrow> packet" where
  "deleteData p = p\<lparr>p_flags := p_flags p - {STATIC_DATA, DYNAMIC_DATA}\<rparr>"

definition new_Packet :: "request \<Rightarrow> Command \<Rightarrow> packet res" where
  "new_Packet r c =
     (let p = \<lparr>p_flags = {}, p_cmd = c, p_id = rq_ptr r, p_req = r, p_addr = 0, p_secure = False, p_size = 0, p_qos = 0,
               p_htmReason = 0, p_htmUid = 0, headerDelay = 0, snoopDelay = 0, payloadDelay = 0, senderState = [],
               broadcastToOther = False\<rparr>;
          p = (case rq_paddr r of None \<Rightarrow> p | Some a \<Rightarrow> set_flag VALID_ADDR (p\<lparr>p_addr := a, p_secure := rq_secure r\<rparr>))
      in bindE (if rq_htm r then
                  bindE (guardE (p_addr p = 0) (AssertFail ''addr == 0x0'')) (\<lambda>_. Inr (set_flag VALID_ADDR p))
                else Inr p) (\<lambda>p.
         Inr (case rq_size r of None \<Rightarrow> p | Some n \<Rightarrow> set_flag VALID_SIZE (p\<lparr>p_size := n\<rparr>))))"

definition new_block_Packet :: "request \<Rightarrow> Command \<Rightarrow> int \<Rightarrow> nat \<Rightarrow> packet" where
  "new_block_Packet r c blkSize ident =
     (let p = \<lparr>p_flags = {}, p_cmd = c, p_id = (if ident \<noteq> 0 then ident else rq_ptr r), p_req = r, p_addr = 0,
               p_secure = False, p_size = 0, p_qos = 0, p_htmReason = 0, p_htmUid = 0, headerDelay = 0,
               snoopDelay = 0, payloadDelay = 0, senderState = [], broadcastToOther = False\<rparr>;
          p = (case rq_paddr r of
                 None \<Rightarrow> p
               | Some a \<Rightarrow> set_flag VALID_ADDR (p\<lparr>p_addr := a AND word_of_int (NOT (blkSize - 1)), p_secure := rq_secure r\<rparr>))
      in set_flag VALID_SIZE (p\<lparr>p_size := word_of_int blkSize\<rparr>))"

definition setHtmTransactionFailedInCache :: "nat \<Rightarrow> packet \<Rightarrow> packet" where
  "setHtmTransactionFailedInCache rc p =
     (if rc \<noteq> 0 then set_flag FAILS_TRANSACTION p else p)\<lparr>p_htmReason := rc\<rparr>"

definition setHtmTransactional :: "u64 \<Rightarrow> packet \<Rightarrow> packet" where
  "setHtmTransactional uid p = set_flag FROM_TRANSACTION p\<lparr>p_htmUid := uid\<rparr>"

text \<open>The copy with a sender state of its own; the plain copy passes the one of the original.\<close>

definition copy_Packet_with :: "nat list \<Rightarrow> bool \<Rightarrow> bool \<Rightarrow> packet \<Rightarrow> packet res" where
  "copy_Packet_with sender clear_flags alloc_data pkt =
     (let p = pkt\<lparr>p_flags := {}, p_htmReason := 0, p_htmUid := 0, snoopDelay := 0, senderState := sender,
                  broadcastToOther := False\<rparr>;
          p = (if \<not> clear_flags then p\<lparr>p_flags := p_flags p \<union> (p_flags pkt \<inter> COPY_FLAGS)\<rparr> else p);
          p = p\<lparr>p_flags := p_flags p \<union> (p_flags pkt \<inter> {VALID_ADDR, VALID_SIZE})\<rparr>;
          p = (if FROM_TRANSACTION \<in> p_flags pkt then setHtmTransactional (p_htmUid pkt) p else p);
          p = (if FAILS_TRANSACTION \<in> p_flags pkt then setHtmTransactionFailedInCache (p_htmReason pkt) p else p)
      in if alloc_data then
           if STATIC_DATA \<in> p_flags pkt then Inr (set_flag STATIC_DATA p) else allocate p
         else Inr p)"

definition copy_Packet :: "bool \<Rightarrow> bool \<Rightarrow> packet \<Rightarrow> packet res" where
  "copy_Packet clear_flags alloc_data pkt = copy_Packet_with (senderState pkt) clear_flags alloc_data pkt"

definition setBroadcastToOther :: "packet \<Rightarrow> packet" where
  "setBroadcastToOther p = p\<lparr>broadcastToOther := True\<rparr>"

definition makeReadCmd :: "request \<Rightarrow> Command" where
  "makeReadCmd r =
     (if rq_htm r then if rq_htmAbort r then HTMAbort else HTMReq
      else if rq_llsc r then LoadLockedReq
      else if rq_prefetchEx r then SoftPFExReq
      else if rq_prefetch r then SoftPFReq
      else if rq_lockedRMW r then LockedRMWReadReq
      else ReadReq)"

definition makeWriteCmd :: "request \<Rightarrow> Command" where
  "makeWriteCmd r =
     (if rq_llsc r then StoreCondReq
      else if rq_swap r \<or> rq_atomic r then SwapReq
      else if rq_invalidate r then if rq_clean r then CleanInvalidReq else InvalidateReq
      else if rq_clean r then CleanSharedReq
      else if rq_lockedRMW r then LockedRMWWriteReq
      else WriteReq)"

definition createRead :: "request \<Rightarrow> packet res" where
  "createRead r = new_Packet r (makeReadCmd r)"

definition createWrite :: "request \<Rightarrow> packet res" where
  "createWrite r = new_Packet r (makeWriteCmd r)"

definition makeResponse :: "packet \<Rightarrow> packet res" where
  "makeResponse p =
     bindE (guardE (pkt_is NeedsResponse p) (AssertFail ''needsResponse()'')) (\<lambda>_.
     bindE (guardE (pkt_is IsRequest p) (AssertFail ''isRequest()'')) (\<lambda>_.
     Inr (clear_flag EXPRESS_SNOOP (p\<lparr>p_cmd := responseCommand (p_cmd p)\<rparr>))))"

definition makeHtmTransactionalReqResponse :: "nat \<Rightarrow> packet \<Rightarrow> packet res" where
  "makeHtmTransactionalReqResponse rc p =
     bindE (guardE (pkt_is NeedsResponse p) (AssertFail ''needsResponse()'')) (\<lambda>_.
     bindE (guardE (pkt_is IsRequest p) (AssertFail ''isRequest()'')) (\<lambda>_.
     Inr (clear_flag EXPRESS_SNOOP (setHtmTransactionFailedInCache rc (p\<lparr>p_cmd := responseCommand (p_cmd p)\<rparr>)))))"

definition setFunctionalResponseStatus :: "bool \<Rightarrow> packet \<Rightarrow> packet" where
  "setFunctionalResponseStatus success p =
     (if \<not> success then p\<lparr>p_cmd := (if pkt_is IsWrite p then FunctionalWriteError else FunctionalReadError)\<rparr> else p)"

definition convertScToWrite :: "packet \<Rightarrow> packet res" where
  "convertScToWrite p =
     bindE (guardE (pkt_is IsLlsc p) (AssertFail ''isLLSC()'')) (\<lambda>_.
     bindE (guardE (pkt_is IsWrite p) (AssertFail ''isWrite()'')) (\<lambda>_. Inr (p\<lparr>p_cmd := WriteReq\<rparr>)))"

definition convertLlToRead :: "packet \<Rightarrow> packet res" where
  "convertLlToRead p =
     bindE (guardE (pkt_is IsLlsc p) (AssertFail ''isLLSC()'')) (\<lambda>_.
     bindE (guardE (pkt_is IsRead p) (AssertFail ''isRead()'')) (\<lambda>_. Inr (p\<lparr>p_cmd := ReadReq\<rparr>)))"

definition pushSenderState :: "nat \<Rightarrow> packet \<Rightarrow> packet" where
  "pushSenderState s p = p\<lparr>senderState := s # senderState p\<rparr>"

definition popSenderState :: "packet \<Rightarrow> (nat \<times> packet) res" where
  "popSenderState p =
     (case senderState p of
        [] \<Rightarrow> Inl (AssertFail ''senderState != NULL'')
      | s # ss \<Rightarrow> Inr (s, p\<lparr>senderState := ss\<rparr>))"

section \<open>The table\<close>

lemma commandInfo_length: "length commandInfo = 60"
  by (simp add: commandInfo_def)

lemma toInt_bound: "toInt c < 60"
  by (cases c) simp_all

lemma command_table:
  "toInt c < length commandInfo \<and>
   (testCmdAttrib NeedsResponse c \<longleftrightarrow> responseCommand c \<noteq> InvalidCmd) \<and>
   \<not> (testCmdAttrib IsRequest c \<and> testCmdAttrib IsResponse c) \<and>
   (testCmdAttrib NeedsResponse c \<longrightarrow>
      testCmdAttrib IsRequest c \<and> testCmdAttrib IsResponse (responseCommand c) \<and>
      \<not> testCmdAttrib NeedsResponse (responseCommand c) \<and>
      (testCmdAttrib IsRead c \<longleftrightarrow> testCmdAttrib IsRead (responseCommand c)) \<and>
      (testCmdAttrib IsWrite c \<longleftrightarrow> testCmdAttrib IsWrite (responseCommand c))) \<and>
   (testCmdAttrib IsEviction c \<longrightarrow>
      testCmdAttrib IsRequest c \<and> testCmdAttrib FromCache c \<and> \<not> testCmdAttrib NeedsResponse c)"
  by (induct c; code_simp)

text \<open>
  C23. The table of commands is well-typed: every command has an entry; a command needs a response
  exactly if it names a response command; requests and responses are disjoint; the response to a
  request is a response that needs none itself and keeps the read and write attributes; evictions
  are requests of a cache that need no response.
\<close>

theorem commandInfo_typed:
  "toInt c < length commandInfo \<and>
   (testCmdAttrib NeedsResponse c \<longleftrightarrow> responseCommand c \<noteq> InvalidCmd) \<and>
   \<not> (testCmdAttrib IsRequest c \<and> testCmdAttrib IsResponse c) \<and>
   (testCmdAttrib NeedsResponse c \<longrightarrow>
      testCmdAttrib IsRequest c \<and> testCmdAttrib IsResponse (responseCommand c) \<and>
      \<not> testCmdAttrib NeedsResponse (responseCommand c) \<and>
      (testCmdAttrib IsRead c \<longleftrightarrow> testCmdAttrib IsRead (responseCommand c)) \<and>
      (testCmdAttrib IsWrite c \<longleftrightarrow> testCmdAttrib IsWrite (responseCommand c))) \<and>
   (testCmdAttrib IsEviction c \<longrightarrow>
      testCmdAttrib IsRequest c \<and> testCmdAttrib FromCache c \<and> \<not> testCmdAttrib NeedsResponse c)"
  by (rule command_table)

theorem commandInfo_typed_witness:
  "testCmdAttrib NeedsResponse ReadExReq \<and> testCmdAttrib IsRequest ReadExReq \<and>
   testCmdAttrib IsResponse (responseCommand ReadExReq) \<and> testCmdAttrib IsRead (responseCommand ReadExReq)"
proof -
  have "testCmdAttrib NeedsResponse ReadExReq" "testCmdAttrib IsRead ReadExReq" by code_simp+
  then show ?thesis using commandInfo_typed [of ReadExReq] by blast
qed

lemma response_typed:
  "testCmdAttrib NeedsResponse c \<Longrightarrow> testCmdAttrib IsRequest c \<and> testCmdAttrib IsResponse (responseCommand c)"
  "testCmdAttrib IsRequest c \<Longrightarrow> \<not> testCmdAttrib IsResponse c"
  "testCmdAttrib IsEviction c \<Longrightarrow> testCmdAttrib IsRequest c \<and> testCmdAttrib FromCache c \<and> \<not> testCmdAttrib NeedsResponse c"
  using command_table [of c] by blast+

section \<open>Packets\<close>

lemma makeResponse_ok:
  "makeResponse p = Inr p' \<longleftrightarrow>
   pkt_is NeedsResponse p \<and> p' = clear_flag EXPRESS_SNOOP (p\<lparr>p_cmd := responseCommand (p_cmd p)\<rparr>)"
  using response_typed(1) by (auto simp: makeResponse_def)

lemma block_addr_idem: "block_addr blk (block_addr blk a) = block_addr blk a"
  by (simp add: block_addr_def and.assoc)

text \<open>
  A copy made for a broadcast carries command, request, address, size and delays of the
  original, has a sender state of its own, no snoop delay and none of the coherence flags, and is
  not itself marked as a broadcast to the others.
\<close>

theorem broadcast_copy:
  assumes "copy_Packet_with sender True True pkt = Inr p"
  shows "p_cmd p = p_cmd pkt \<and> p_req p = p_req pkt \<and> p_addr p = p_addr pkt \<and> p_size p = p_size pkt \<and>
     headerDelay p = headerDelay pkt \<and> payloadDelay p = payloadDelay pkt \<and> snoopDelay p = 0 \<and>
     senderState p = sender \<and> \<not> broadcastToOther p \<and>
     p_flags p \<inter> {HAS_SHARERS, EXPRESS_SNOOP, RESPONDER_HAD_WRITABLE, CACHE_RESPONDING} = {} \<and>
     p_flags p \<inter> {VALID_ADDR, VALID_SIZE} = p_flags pkt \<inter> {VALID_ADDR, VALID_SIZE}"
  using assms
  by (auto simp: copy_Packet_with_def Let_def allocate_def setHtmTransactional_def setHtmTransactionFailedInCache_def
      split: if_splits)

section \<open>Example\<close>

definition plain_request :: "nat \<Rightarrow> u64 \<Rightarrow> u32 \<Rightarrow> request" where
  "plain_request ptr a n =
     \<lparr>rq_ptr = ptr, rq_paddr = Some a, rq_size = Some n, rq_secure = False, rq_uncacheable = False, rq_clean = False,
      rq_invalidate = False, rq_toPOU = False, rq_toPOC = False, rq_masked = False, rq_htm = False, rq_htmAbort = False,
      rq_llsc = False, rq_prefetchEx = False, rq_prefetch = False, rq_lockedRMW = False, rq_swap = False,
      rq_atomic = False, rq_broadcast = False\<rparr>"

definition plain_packet :: "Command \<Rightarrow> request \<Rightarrow> packet" where
  "plain_packet c r =
     \<lparr>p_flags = {VALID_ADDR, VALID_SIZE}, p_cmd = c, p_id = rq_ptr r, p_req = r, p_addr = the (rq_paddr r),
      p_secure = rq_secure r, p_size = the (rq_size r), p_qos = 0, p_htmReason = 0, p_htmUid = 0, headerDelay = 0,
      snoopDelay = 0, payloadDelay = 0, senderState = [], broadcastToOther = False\<rparr>"

lemma plain_packet_new: "new_Packet (plain_request ptr a n) c = Inr (plain_packet c (plain_request ptr a n))"
  by (auto simp: new_Packet_def plain_request_def plain_packet_def Let_def)

theorem broadcast_copy_witness:
  "\<exists>p. copy_Packet_with [] True True (pushSenderState 5 (plain_packet ReadReq (plain_request 1 128 64))) = Inr p \<and>
     senderState p = [] \<and> p_addr p = 128 \<and> DYNAMIC_DATA \<in> p_flags p"
proof -
  let ?q = "pushSenderState 5 (plain_packet ReadReq (plain_request 1 128 64))"
  have d: "hasRespData (?q\<lparr>p_flags := f, p_htmReason := 0, p_htmUid := 0, snoopDelay := 0, senderState := [], broadcastToOther := False\<rparr>)" for f
    by (simp add: hasRespData_def pushSenderState_def plain_packet_def responseCommand_def testCmdAttrib_def commandInfo_def)
  define p where "p = ?q\<lparr>p_flags := {VALID_ADDR, VALID_SIZE, DYNAMIC_DATA}, p_htmReason := 0, p_htmUid := 0, snoopDelay := 0,
     senderState := [], broadcastToOther := False\<rparr>"
  have p: "copy_Packet_with [] True True ?q = Inr p"
    unfolding p_def copy_Packet_with_def Let_def allocate_def
    using d by (auto simp: pushSenderState_def plain_packet_def getSize_def)
  then show ?thesis using broadcast_copy [OF p] by (simp add: p_def pushSenderState_def plain_packet_def plain_request_def)
qed

end
