(* ===== verification/Snoop_Filter.thy ===== *)
theory Snoop_Filter
  imports Packet "HOL-Library.AList"
begin

text \<open>
  The snoop filter of the coherent crossbar (\<open>gem5/src/mem/snoop_filter.hh\<close>,
  \<open>snoop_filter.cc\<close>): for every cache line in use two bit masks, of the ports with a request
  in flight and of the ports that hold the line.  The hash map of lines is an association list,
  an iterator into it is the line it points to; masks are words of 256 bits.
\<close>

section \<open>State\<close>

type_synonym SnoopMask = "256 word"

record SnoopItem =
  requested :: SnoopMask
  holder :: SnoopMask

definition null_item :: SnoopItem where
  "null_item = \<lparr>requested = 0, holder = 0\<rparr>"

text \<open>A response port: its id (\<open>InvalidPortID\<close> is -1), whether its peer snoops, and the name of the peer.\<close>

record resp_port =
  rp_id :: int
  rp_snooping :: bool
  rp_peer :: string

record sf_stats =
  totRequests :: nat
  hitSingleRequests :: nat
  hitMultiRequests :: nat
  totSnoops :: nat
  hitSingleSnoops :: nat
  hitMultiSnoops :: nat

record snoop_filter =
  cachedLocations :: "(u64 \<times> SnoopItem) list"
  lookup_it :: "u64 option"           \<comment> \<open>\<open>reqLookupResult.it\<close>, \<open>None\<close> is \<open>end()\<close>\<close>
  retryItem :: SnoopItem
  sf_ports :: "resp_port list"        \<comment> \<open>\<open>cpuSidePorts\<close>\<close>
  localResponsePortIds :: "int list"
  linesize :: u32
  lookupLatency :: u64
  maxEntryCount :: u32
  sf_counts :: sf_stats

definition new_SnoopFilter :: "u32 \<Rightarrow> u64 \<Rightarrow> u64 \<Rightarrow> snoop_filter res" where
  "new_SnoopFilter line latency capacity =
     (if line = 0 then Inl DivByZero else
      Inr \<lparr>cachedLocations = [], lookup_it = None, retryItem = null_item, sf_ports = [], localResponsePortIds = [],
           linesize = line, lookupLatency = latency, maxEntryCount = ucast (capacity div ucast line),
           sf_counts = \<lparr>totRequests = 0, hitSingleRequests = 0, hitMultiRequests = 0,
                        totSnoops = 0, hitSingleSnoops = 0, hitMultiSnoops = 0\<rparr>\<rparr>)"

definition SNOOP_MASK_SIZE :: int where
  "SNOOP_MASK_SIZE = 256"

text \<open>
  \<open>setCPUSidePorts\<close>, called once; the vector of local ids is first filled with \<open>InvalidPortID\<close>.
\<close>

definition add_port :: "resp_port \<Rightarrow> snoop_filter \<times> int \<Rightarrow> (snoop_filter \<times> int) res" where
  "add_port p = (\<lambda>(sf, i).
     if rp_snooping p then
       if 0 \<le> rp_id p \<and> nat (rp_id p) < length (localResponsePortIds sf) then
         Inr (sf\<lparr>sf_ports := sf_ports sf @ [p], localResponsePortIds := (localResponsePortIds sf)[nat (rp_id p) := i]\<rparr>, i + 1)
       else Inl OutOfRange
     else Inr (sf, i))"

definition setCPUSidePorts :: "resp_port list \<Rightarrow> snoop_filter \<Rightarrow> snoop_filter res" where
  "setCPUSidePorts ports sf =
     (let ids = localResponsePortIds sf;
          sf = sf\<lparr>localResponsePortIds := take (length ports) ids @ replicate (length ports - length ids) (-1)\<rparr>
      in bindE (foldE add_port ports (sf, 0)) (\<lambda>(sf, i).
         bindE (guardE (i \<le> SNOOP_MASK_SIZE) (Panic ''Snoop filter only supports 256 snooping ports'')) (\<lambda>_. Inr sf)))"

section \<open>Masks\<close>

text \<open>\<open>SnoopMask(1) << n\<close>: the shift count is converted to an unsigned type, so a negative one shifts everything out.\<close>

definition one_hot :: "int \<Rightarrow> SnoopMask" where
  "one_hot n = (if n < 0 then 0 else push_bit (nat n) 1)"

definition portToMask :: "snoop_filter \<Rightarrow> resp_port \<Rightarrow> SnoopMask res" where
  "portToMask sf p =
     bindE (guardE (rp_id p \<noteq> -1) (AssertFail ''port.getId() != InvalidPortID'')) (\<lambda>_.
     if \<not> rp_snooping p then Inr 0
     else if 0 \<le> rp_id p \<and> nat (rp_id p) < length (localResponsePortIds sf)
       then Inr (one_hot (localResponsePortIds sf ! nat (rp_id p)))
       else Inl OutOfRange)"

definition maskToPortList :: "snoop_filter \<Rightarrow> SnoopMask \<Rightarrow> resp_port list res" where
  "maskToPortList sf port_mask =
     foldE (\<lambda>p res. bindE (portToMask sf p) (\<lambda>m. Inr (if port_mask AND m \<noteq> 0 then res @ [p] else res))) (sf_ports sf) []"

text \<open>\<open>bitset::count\<close>.\<close>

definition mask_count :: "SnoopMask \<Rightarrow> nat" where
  "mask_count m = length (filter (bit m) [0..<256])"

section \<open>Operations\<close>

definition LineSecure :: u64 where
  "LineSecure = 1"

definition line_addr :: "snoop_filter \<Rightarrow> packet \<Rightarrow> u64 res" where
  "line_addr sf pkt =
     bindE (getBlockAddr (linesize sf) pkt) (\<lambda>a.
     bindE (pkt_isSecure pkt) (\<lambda>s. Inr (if s then a OR LineSecure else a)))"

abbreviation set_item :: "u64 \<Rightarrow> SnoopItem \<Rightarrow> snoop_filter \<Rightarrow> snoop_filter" where
  "set_item line item sf \<equiv> sf\<lparr>cachedLocations := AList.update line item (cachedLocations sf)\<rparr>"

definition eraseIfNullEntry :: "u64 \<Rightarrow> snoop_filter \<Rightarrow> snoop_filter res" where
  "eraseIfNullEntry it sf =
     (case map_of (cachedLocations sf) it of
        None \<Rightarrow> Inl UseAfterFree
      | Some sf_item \<Rightarrow>
          Inr (if requested sf_item OR holder sf_item = 0
               then sf\<lparr>cachedLocations := AList.delete it (cachedLocations sf)\<rparr> else sf))"

definition count_request :: "bool \<Rightarrow> SnoopMask \<Rightarrow> snoop_filter \<Rightarrow> snoop_filter" where
  "count_request is_hit interested sf =
     (let s = sf_counts sf; s = s\<lparr>totRequests := totRequests s + 1\<rparr>
      in sf\<lparr>sf_counts :=
           (if is_hit then
              if mask_count interested = 1 then s\<lparr>hitSingleRequests := hitSingleRequests s + 1\<rparr>
              else s\<lparr>hitMultiRequests := hitMultiRequests s + 1\<rparr>
            else s)\<rparr>)"

text \<open>The change of the entry for a request that allocates one.\<close>

definition request_item :: "packet \<Rightarrow> SnoopMask \<Rightarrow> SnoopItem \<Rightarrow> SnoopItem res" where
  "request_item cpkt req_port sf_item =
     (if pkt_is NeedsResponse cpkt then
        if CACHE_RESPONDING \<notin> p_flags cpkt then
          bindE (guardE (requested sf_item AND req_port = 0) (Panic ''double request'')) (\<lambda>_.
          Inr (sf_item\<lparr>requested := requested sf_item OR req_port\<rparr>))
        else
          bindE (guardE (holder sf_item AND req_port \<noteq> 0) (Panic ''Need to hold the value!'')) (\<lambda>_. Inr sf_item)
      else
        bindE (guardE (pkt_is IsEviction cpkt) (AssertFail ''cpkt->isEviction()'')) (\<lambda>_.
        bindE (guardE (holder sf_item AND req_port \<noteq> 0) (Panic ''requestor is not a holder'')) (\<lambda>_.
        Inr (if BLOCK_CACHED \<notin> p_flags cpkt then sf_item\<lparr>holder := holder sf_item AND NOT req_port\<rparr> else sf_item))))"

definition lookupRequest ::
    "packet \<Rightarrow> resp_port \<Rightarrow> snoop_filter \<Rightarrow> ((resp_port list \<times> u64) \<times> snoop_filter) res" where
  "lookupRequest cpkt port sf =
     (let alloc = \<not> rq_uncacheable (p_req cpkt) \<and> rp_snooping port \<and> pkt_is FromCache cpkt in
      bindE (line_addr sf cpkt) (\<lambda>line.
      bindE (portToMask sf port) (\<lambda>req_port.
      let hit = map_of (cachedLocations sf) line; is_hit = (hit \<noteq> None) in
      if \<not> is_hit \<and> \<not> alloc then Inr (([], lookupLatency sf), sf\<lparr>lookup_it := None\<rparr>)
      else
        let sf_item = (case hit of Some i \<Rightarrow> i | None \<Rightarrow> null_item);
            sf = (if is_hit then sf else set_item line sf_item sf)\<lparr>lookup_it := Some line\<rparr>;
            interested = holder sf_item OR requested sf_item;
            sf = count_request is_hit interested (sf\<lparr>retryItem := sf_item\<rparr>)
        in bindE (if alloc then mapE (\<lambda>i. set_item line i sf) (request_item cpkt req_port sf_item) else Inr sf) (\<lambda>sf.
           bindE (maskToPortList sf (interested AND NOT req_port)) (\<lambda>ports. Inr ((ports, lookupLatency sf), sf))))))"

definition finishRequest :: "bool \<Rightarrow> u64 \<Rightarrow> bool \<Rightarrow> snoop_filter \<Rightarrow> snoop_filter res" where
  "finishRequest will_retry addr is_secure sf =
     (case lookup_it sf of
        None \<Rightarrow> Inr sf
      | Some it \<Rightarrow>
          bindE (guardE (map_of (cachedLocations sf) it \<noteq> None) UseAfterFree) (\<lambda>_.
          bindE (guardE (it = (if is_secure then block_addr (linesize sf) addr OR LineSecure else block_addr (linesize sf) addr))
                   (AssertFail ''reqLookupResult.it->first'')) (\<lambda>_.
          eraseIfNullEntry it (if will_retry then set_item it (retryItem sf) sf else sf))))"

definition count_snoop :: "SnoopMask \<Rightarrow> snoop_filter \<Rightarrow> snoop_filter" where
  "count_snoop interested sf =
     (let s = sf_counts sf; s = s\<lparr>totSnoops := totSnoops s + 1\<rparr>
      in sf\<lparr>sf_counts := (if mask_count interested = 1 then s\<lparr>hitSingleSnoops := hitSingleSnoops s + 1\<rparr>
                          else s\<lparr>hitMultiSnoops := hitMultiSnoops s + 1\<rparr>)\<rparr>)"

definition lookupSnoop :: "packet \<Rightarrow> snoop_filter \<Rightarrow> ((resp_port list \<times> u64) \<times> snoop_filter) res" where
  "lookupSnoop cpkt sf =
     bindE (guardE (pkt_is IsRequest cpkt) (AssertFail ''cpkt->isRequest()'')) (\<lambda>_.
     bindE (line_addr sf cpkt) (\<lambda>line.
     case map_of (cachedLocations sf) line of
       None \<Rightarrow>
         bindE (guardE (length (cachedLocations sf) < unat (maxEntryCount sf)) (Panic ''snoop filter exceeded capacity'')) (\<lambda>_.
         Inr (([], lookupLatency sf), sf))
     | Some sf_item \<Rightarrow>
         let interested = holder sf_item OR requested sf_item; sf = count_snoop interested sf in
         bindE (guardE (pkt_isWriteback cpkt \<or> rq_uncacheable (p_req cpkt) \<or>
                        pkt_is IsInvalidate cpkt = pkt_is NeedsWritable cpkt \<or> isCacheMaintenance (p_req cpkt))
                  (AssertFail ''cpkt->isInvalidate() == cpkt->needsWritable()'')) (\<lambda>_.
         bindE (if pkt_is IsInvalidate cpkt \<and> requested sf_item = 0
                then eraseIfNullEntry line (set_item line (sf_item\<lparr>holder := 0\<rparr>) sf) else Inr sf) (\<lambda>sf.
         bindE (maskToPortList sf interested) (\<lambda>ports. Inr ((ports, lookupLatency sf), sf))))))"

definition updateSnoopResponse :: "packet \<Rightarrow> resp_port \<Rightarrow> resp_port \<Rightarrow> snoop_filter \<Rightarrow> snoop_filter res" where
  "updateSnoopResponse cpkt rsp_port req_port sf =
     bindE (guardE (pkt_is IsResponse cpkt) (AssertFail ''cpkt->isResponse()'')) (\<lambda>_.
     bindE (guardE (CACHE_RESPONDING \<in> p_flags cpkt) (AssertFail ''cpkt->cacheResponding()'')) (\<lambda>_.
     if rq_uncacheable (p_req cpkt) \<or> \<not> rp_snooping req_port then Inr sf
     else
       bindE (line_addr sf cpkt) (\<lambda>line.
       bindE (portToMask sf rsp_port) (\<lambda>rsp_mask.
       bindE (portToMask sf req_port) (\<lambda>req_mask.
       let sf_item = (case map_of (cachedLocations sf) line of Some i \<Rightarrow> i | None \<Rightarrow> null_item) in
       bindE (guardE (holder sf_item AND rsp_mask \<noteq> 0) (Panic ''does not have the line'')) (\<lambda>_.
       bindE (guardE (requested sf_item AND req_mask \<noteq> 0) (Panic ''missing the original request'')) (\<lambda>_.
       let sf_item = (if HAS_SHARERS \<notin> p_flags cpkt then sf_item\<lparr>holder := 0\<rparr> else sf_item) in
       bindE (guardE (\<not> pkt_isWriteback cpkt) (AssertFail ''!cpkt->isWriteback()'')) (\<lambda>_.
       let sf_item = sf_item\<lparr>holder := holder sf_item OR req_mask, requested := requested sf_item AND NOT req_mask\<rparr> in
       bindE (guardE (requested sf_item OR holder sf_item \<noteq> 0) (AssertFail ''(requested | holder).any()'')) (\<lambda>_.
       Inr (set_item line sf_item sf))))))))))"

definition updateSnoopForward :: "packet \<Rightarrow> snoop_filter \<Rightarrow> snoop_filter res" where
  "updateSnoopForward cpkt sf =
     bindE (guardE (pkt_is IsResponse cpkt) (AssertFail ''cpkt->isResponse()'')) (\<lambda>_.
     bindE (guardE (CACHE_RESPONDING \<in> p_flags cpkt) (AssertFail ''cpkt->cacheResponding()'')) (\<lambda>_.
     bindE (line_addr sf cpkt) (\<lambda>line.
     case map_of (cachedLocations sf) line of
       None \<Rightarrow> Inr sf
     | Some sf_item \<Rightarrow>
         if HAS_SHARERS \<notin> p_flags cpkt
         then eraseIfNullEntry line (set_item line (sf_item\<lparr>holder := 0\<rparr>) sf) else Inr sf)))"

definition updateResponse :: "packet \<Rightarrow> resp_port \<Rightarrow> snoop_filter \<Rightarrow> snoop_filter res" where
  "updateResponse cpkt port sf =
     bindE (guardE (pkt_is IsResponse cpkt) (AssertFail ''cpkt->isResponse()'')) (\<lambda>_.
     if rq_uncacheable (p_req cpkt) \<or> \<not> rp_snooping port then Inr sf
     else
       bindE (line_addr sf cpkt) (\<lambda>line.
       case map_of (cachedLocations sf) line of
         None \<Rightarrow> Inr sf
       | Some sf_item \<Rightarrow>
           bindE (portToMask sf port) (\<lambda>response_mask.
           bindE (guardE (\<not> (requested sf_item AND response_mask = 0 \<and> \<not> rq_broadcast (p_req cpkt)))
                    (Panic ''missing request bit'')) (\<lambda>_.
           let sf_item = sf_item\<lparr>requested := requested sf_item AND NOT response_mask\<rparr> in
           if isCacheMaintenance (p_req cpkt) then
             let sf_item = (if pkt_is IsInvalidate cpkt then sf_item\<lparr>holder := holder sf_item AND NOT response_mask\<rparr> else sf_item)
             in eraseIfNullEntry line (set_item line sf_item sf)
           else
             let sf_item = sf_item\<lparr>holder := holder sf_item OR response_mask\<rparr> in
             bindE (guardE (holder sf_item OR requested sf_item \<noteq> 0) (AssertFail ''(holder | requested).any()'')) (\<lambda>_.
             Inr (set_item line sf_item sf))))))"

end
