(* ===== verification/Snoop_Filter_Refine.thy ===== *)
theory Snoop_Filter_Refine
  imports Snoop_Filter
begin

text \<open>
  The snoop filter against its specification: for every line the set of ports with a request in
  flight and the set of ports that hold the line.  Every operation refines an operation on these
  sets, and the list of ports to snoop is exactly the set of interested ports.
\<close>

unbundle bit_operations_syntax

section \<open>Ports and bits\<close>

definition sf_bit :: "snoop_filter \<Rightarrow> resp_port \<Rightarrow> nat" where
  "sf_bit sf p = nat (localResponsePortIds sf ! nat (rp_id p))"

definition tracked :: "snoop_filter \<Rightarrow> resp_port \<Rightarrow> bool" where
  "tracked sf p \<longleftrightarrow> rp_snooping p \<and> 0 \<le> rp_id p \<and> nat (rp_id p) < length (localResponsePortIds sf) \<and>
     0 \<le> localResponsePortIds sf ! nat (rp_id p) \<and> sf_bit sf p < 256"

definition wf_ports :: "snoop_filter \<Rightarrow> bool" where
  "wf_ports sf \<longleftrightarrow> (\<forall>p\<in>set (sf_ports sf). tracked sf p) \<and> inj_on (sf_bit sf) (set (sf_ports sf))"

lemma one_hot_bit:
  assumes "k < 256"
  shows "bit (2 ^ k :: SnoopMask) n \<longleftrightarrow> n = k" and "m AND 2 ^ k = 0 \<longleftrightarrow> \<not> bit (m :: SnoopMask) k"
proof -
  show b: "bit (2 ^ k :: SnoopMask) n \<longleftrightarrow> n = k" for n
    using assms by (auto simp: bit_exp_iff)
  show "m AND 2 ^ k = 0 \<longleftrightarrow> \<not> bit (m :: SnoopMask) k"
    using assms by (subst bit_eq_iff) (auto simp: bit_and_iff b)
qed

lemma portToMask_tracked: "tracked sf p \<Longrightarrow> portToMask sf p = Inr (2 ^ sf_bit sf p)"
  by (auto simp: portToMask_def tracked_def one_hot_def sf_bit_def)

lemma maskToPortList_filter:
  assumes "\<forall>p\<in>set (sf_ports sf). tracked sf p"
  shows "maskToPortList sf m = Inr (filter (\<lambda>p. bit m (sf_bit sf p)) (sf_ports sf))"
proof -
  have "foldE (\<lambda>p res. bindE (portToMask sf p) (\<lambda>k. Inr (if m AND k \<noteq> 0 then res @ [p] else res))) ps acc =
      Inr (acc @ filter (\<lambda>p. bit m (sf_bit sf p)) ps)" if "\<forall>p\<in>set ps. tracked sf p" for ps acc
    using that
  proof (induction ps arbitrary: acc)
    case (Cons p ps)
    have "sf_bit sf p < 256" using Cons.prems by (simp add: tracked_def)
    then show ?case using Cons by (simp add: portToMask_tracked one_hot_bit)
  qed simp
  from this [OF assms, of "[]"] show ?thesis by (simp add: maskToPortList_def)
qed

text \<open>What the filter knows about a line.\<close>

definition item_at :: "snoop_filter \<Rightarrow> u64 \<Rightarrow> SnoopItem" where
  "item_at sf line = (case map_of (cachedLocations sf) line of Some i \<Rightarrow> i | None \<Rightarrow> null_item)"

definition ports_of :: "snoop_filter \<Rightarrow> SnoopMask \<Rightarrow> resp_port set" where
  "ports_of sf m = {p \<in> set (sf_ports sf). bit m (sf_bit sf p)}"

definition requesters :: "snoop_filter \<Rightarrow> u64 \<Rightarrow> resp_port set" where
  "requesters sf line = ports_of sf (requested (item_at sf line))"

definition holders :: "snoop_filter \<Rightarrow> u64 \<Rightarrow> resp_port set" where
  "holders sf line = ports_of sf (holder (item_at sf line))"

definition same_ports :: "snoop_filter \<Rightarrow> snoop_filter \<Rightarrow> bool" where
  "same_ports sf sf' \<longleftrightarrow> sf_ports sf' = sf_ports sf \<and> localResponsePortIds sf' = localResponsePortIds sf \<and>
     linesize sf' = linesize sf"

text \<open>Only bits of ports are set.\<close>

definition bits_ok :: "snoop_filter \<Rightarrow> SnoopItem \<Rightarrow> bool" where
  "bits_ok sf i \<longleftrightarrow> (\<forall>n. bit (requested i) n \<or> bit (holder i) n \<longrightarrow> n \<in> sf_bit sf ` set (sf_ports sf))"

definition no_null :: "snoop_filter \<Rightarrow> bool" where
  "no_null sf \<longleftrightarrow> (\<forall>i\<in>ran (map_of (cachedLocations sf)). requested i OR holder i \<noteq> 0 \<and> bits_ok sf i)"

definition sf_inv :: "snoop_filter \<Rightarrow> bool" where
  "sf_inv sf \<longleftrightarrow> wf_ports sf \<and> distinct (map fst (cachedLocations sf)) \<and> no_null sf"

lemma same_portsD:
  assumes "same_ports sf sf'"
  shows "sf_bit sf' = sf_bit sf" "tracked sf' = tracked sf" "wf_ports sf' = wf_ports sf" "portToMask sf' = portToMask sf"
    "maskToPortList sf' = maskToPortList sf" "line_addr sf' = line_addr sf" "ports_of sf' = ports_of sf"
    "bits_ok sf' = bits_ok sf"
proof -
  note s = assms [unfolded same_ports_def]
  show b: "sf_bit sf' = sf_bit sf" using s by (auto simp: sf_bit_def)
  show t: "tracked sf' = tracked sf" using s b by (auto simp: tracked_def)
  show "wf_ports sf' = wf_ports sf" using s b t by (auto simp: wf_ports_def)
  show p: "portToMask sf' = portToMask sf" using s by (auto simp: portToMask_def)
  show "maskToPortList sf' = maskToPortList sf" using s p by (auto simp: maskToPortList_def)
  show "line_addr sf' = line_addr sf" using s by (auto simp: line_addr_def)
  show "ports_of sf' = ports_of sf" using s b by (auto simp: ports_of_def)
  show "bits_ok sf' = bits_ok sf" using s b by (auto simp: bits_ok_def fun_eq_iff)
qed

lemma update_entry [simp]:
  "map_of (AList.update k v al) = (map_of al)(k \<mapsto> v)" "map_of (AList.delete k al) = (map_of al)(k := None)"
  by (simp_all add: update_conv' delete_conv')

lemma no_nullD:
  "no_null sf \<Longrightarrow> map_of (cachedLocations sf) l = Some i \<Longrightarrow> requested i OR holder i \<noteq> 0 \<and> bits_ok sf i"
  by (auto simp: no_null_def intro: ranI)

lemma item_at_bits: "sf_inv sf \<Longrightarrow> bits_ok sf (item_at sf l)"
  using no_nullD [of sf l] by (auto simp: item_at_def sf_inv_def null_item_def bits_ok_def split: option.split)

lemma bits_ok_changes:
  assumes "bits_ok sf i" and "p \<in> set (sf_ports sf)" and "wf_ports sf"
  shows "bits_ok sf (i\<lparr>requested := requested i OR 2 ^ sf_bit sf p\<rparr>)" "bits_ok sf (i\<lparr>requested := requested i AND m\<rparr>)"
    "bits_ok sf (i\<lparr>holder := holder i OR 2 ^ sf_bit sf p\<rparr>)" "bits_ok sf (i\<lparr>holder := holder i AND m\<rparr>)" "bits_ok sf (i\<lparr>holder := 0\<rparr>)"
proof -
  have "sf_bit sf p < 256" using assms(2,3) by (auto simp: wf_ports_def tracked_def)
  note b = one_hot_bit(1) [OF this]
  show "bits_ok sf (i\<lparr>requested := requested i OR 2 ^ sf_bit sf p\<rparr>)" "bits_ok sf (i\<lparr>requested := requested i AND m\<rparr>)"
    "bits_ok sf (i\<lparr>holder := holder i OR 2 ^ sf_bit sf p\<rparr>)" "bits_ok sf (i\<lparr>holder := holder i AND m\<rparr>)" "bits_ok sf (i\<lparr>holder := 0\<rparr>)"
    using assms(1,2) by (auto simp: bits_ok_def bit_or_iff bit_and_iff b)
qed

section \<open>Requests\<close>

definition allocates :: "packet \<Rightarrow> resp_port \<Rightarrow> bool" where
  "allocates pkt p \<longleftrightarrow> \<not> rq_uncacheable (p_req pkt) \<and> rp_snooping p \<and> pkt_is FromCache pkt"

text \<open>What the filter demands of a request of port \<open>p\<close>, given the requesters and holders of the line.\<close>

definition request_ok :: "packet \<Rightarrow> resp_port \<Rightarrow> resp_port set \<Rightarrow> resp_port set \<Rightarrow> bool" where
  "request_ok pkt p R H \<longleftrightarrow>
     (if pkt_is NeedsResponse pkt then if CACHE_RESPONDING \<notin> p_flags pkt then p \<notin> R else p \<in> H
      else pkt_is IsEviction pkt \<and> p \<in> H)"

definition requested_item :: "packet \<Rightarrow> nat \<Rightarrow> SnoopItem \<Rightarrow> SnoopItem" where
  "requested_item pkt k i =
     (if pkt_is NeedsResponse pkt then
        if CACHE_RESPONDING \<notin> p_flags pkt then i\<lparr>requested := requested i OR 2 ^ k\<rparr> else i
      else if BLOCK_CACHED \<notin> p_flags pkt then i\<lparr>holder := holder i AND NOT (2 ^ k)\<rparr> else i)"

lemma request_item_ok:
  assumes "p \<in> set (sf_ports sf)" and "tracked sf p" and "request_ok pkt p (requesters sf line) (holders sf line)"
  shows "request_item pkt (2 ^ sf_bit sf p) (item_at sf line) = Inr (requested_item pkt (sf_bit sf p) (item_at sf line))"
proof -
  have "sf_bit sf p < 256" using assms(2) by (simp add: tracked_def)
  note b = one_hot_bit(2) [OF this]
  show ?thesis
    using assms(1,3) by (auto simp: request_item_def requested_item_def request_ok_def requesters_def holders_def ports_of_def b split: if_splits)
qed

lemma count_request_fields [simp]:
  "cachedLocations (count_request h m sf) = cachedLocations sf" "lookup_it (count_request h m sf) = lookup_it sf"
  "retryItem (count_request h m sf) = retryItem sf" "sf_ports (count_request h m sf) = sf_ports sf"
  "localResponsePortIds (count_request h m sf) = localResponsePortIds sf" "linesize (count_request h m sf) = linesize sf"
  "lookupLatency (count_request h m sf) = lookupLatency sf" "maxEntryCount (count_request h m sf) = maxEntryCount sf"
  by (simp_all add: count_request_def Let_def)

lemma count_snoop_fields [simp]:
  "cachedLocations (count_snoop m sf) = cachedLocations sf" "lookup_it (count_snoop m sf) = lookup_it sf"
  "retryItem (count_snoop m sf) = retryItem sf" "sf_ports (count_snoop m sf) = sf_ports sf"
  "localResponsePortIds (count_snoop m sf) = localResponsePortIds sf" "linesize (count_snoop m sf) = linesize sf"
  "lookupLatency (count_snoop m sf) = lookupLatency sf" "maxEntryCount (count_snoop m sf) = maxEntryCount sf"
  by (simp_all add: count_snoop_def Let_def)

lemma maskToPortList_fields [simp]:
  "maskToPortList (sf\<lparr>cachedLocations := c\<rparr>) = maskToPortList sf" "maskToPortList (sf\<lparr>lookup_it := l\<rparr>) = maskToPortList sf"
  "maskToPortList (sf\<lparr>retryItem := r\<rparr>) = maskToPortList sf" "maskToPortList (count_request h m sf) = maskToPortList sf"
  "maskToPortList (count_snoop m sf) = maskToPortList sf"
  by (rule same_portsD(5), simp add: same_ports_def)+

text \<open>The ports whose bit is set in the interest of a line, without the requesting one.\<close>

lemma interested_ports:
  assumes wf: "wf_ports sf" and port: "port \<in> set (sf_ports sf) \<or> \<not> rp_snooping port"
    and k: "k = (if rp_snooping port then 2 ^ sf_bit sf port else 0)"
  shows "set (filter (\<lambda>p. bit ((holder (item_at sf line) OR requested (item_at sf line)) AND NOT k) (sf_bit sf p)) (sf_ports sf))
     = requesters sf line \<union> holders sf line - {port}"
proof -
  have t: "tracked sf p" if "p \<in> set (sf_ports sf)" for p using wf that by (simp add: wf_ports_def)
  have "bit (NOT k) (sf_bit sf p) \<longleftrightarrow> p \<noteq> port" if p: "p \<in> set (sf_ports sf)" for p
  proof (cases "rp_snooping port")
    case True
    then have "port \<in> set (sf_ports sf)" using port by blast
    then have "sf_bit sf p = sf_bit sf port \<longleftrightarrow> p = port"
      using wf p by (auto simp: wf_ports_def inj_on_def)
    then show ?thesis
      using t [OF p] t [OF \<open>port \<in> _\<close>] True by (simp add: k bit_not_iff tracked_def one_hot_bit)
  next
    case False
    then show ?thesis using t [OF p] by (auto simp: k bit_not_iff tracked_def)
  qed
  then show ?thesis by (auto simp: requesters_def holders_def ports_of_def bit_and_iff bit_or_iff)
qed

lemma lookupRequest_spec:
  assumes wf: "wf_ports sf" and line: "line_addr sf pkt = Inr line"
    and port: "port \<in> set (sf_ports sf) \<or> \<not> rp_snooping port \<and> rp_id port \<noteq> -1"
    and ok: "allocates pkt port \<Longrightarrow> request_ok pkt port (requesters sf line) (holders sf line)"
  defines "new \<equiv> if allocates pkt port then requested_item pkt (sf_bit sf port) (item_at sf line) else item_at sf line"
  shows "\<exists>ports sf'. lookupRequest pkt port sf = Inr ((ports, lookupLatency sf), sf') \<and>
     set ports = requesters sf line \<union> holders sf line - {port} \<and> same_ports sf sf' \<and>
     (distinct (map fst (cachedLocations sf)) \<longrightarrow> distinct (map fst (cachedLocations sf'))) \<and>
     (if map_of (cachedLocations sf) line = None \<and> \<not> allocates pkt port
      then lookup_it sf' = None \<and> cachedLocations sf' = cachedLocations sf
      else lookup_it sf' = Some line \<and> retryItem sf' = item_at sf line \<and>
           map_of (cachedLocations sf') = (map_of (cachedLocations sf))(line \<mapsto> new))"
proof -
  let ?k = "if rp_snooping port then 2 ^ sf_bit sf port else 0"
  have t: "\<forall>p\<in>set (sf_ports sf). tracked sf p" using wf by (simp add: wf_ports_def)
  have snoop: "rp_snooping p" if "p \<in> set (sf_ports sf)" for p using t that by (simp add: tracked_def)
  have mask: "portToMask sf port = Inr ?k"
  proof (cases "rp_snooping port")
    case True
    then show ?thesis using port t by (auto simp: portToMask_tracked)
  next
    case False
    then have "rp_id port \<noteq> -1" using port snoop by blast
    then show ?thesis using False by (simp add: portToMask_def)
  qed
  have item: "allocates pkt port \<Longrightarrow> request_item pkt ?k (item_at sf line) = Inr new"
    using request_item_ok [OF _ _ ok] port t unfolding new_def by (auto simp: allocates_def)
  let ?ports = "filter (\<lambda>p. bit ((holder (item_at sf line) OR requested (item_at sf line)) AND NOT ?k) (sf_bit sf p)) (sf_ports sf)"
  have list: "maskToPortList sf ((holder (item_at sf line) OR requested (item_at sf line)) AND NOT ?k) = Inr ?ports"
    by (rule maskToPortList_filter [OF t])
  have ports: "set ?ports = requesters sf line \<union> holders sf line - {port}"
    by (rule interested_ports [OF wf]) (use port in auto)
  have fold: "(case map_of (cachedLocations sf) line of None \<Rightarrow> null_item | Some i \<Rightarrow> i) = item_at sf line"
    by (simp add: item_at_def)
  note d = lookupRequest_def Let_def allocates_def [symmetric] line mask list
  show ?thesis
  proof (cases "map_of (cachedLocations sf) line")
    case None
    then have i: "item_at sf line = null_item" by (simp add: item_at_def)
    show ?thesis
    proof (cases "allocates pkt port")
      case True
      then show ?thesis using ports item None list unfolding i
        by (simp add: d [unfolded i] same_ports_def distinct_update)
    next
      case False
      then show ?thesis using None ports by (simp add: d same_ports_def requesters_def holders_def ports_of_def i null_item_def)
    qed
  next
    case (Some i)
    then have "item_at sf line = i" by (simp add: item_at_def)
    then show ?thesis using ports item list Some
      by (cases "allocates pkt port") (auto simp: d same_ports_def distinct_update new_def fun_upd_idem)
  qed
qed


definition line_of :: "u32 \<Rightarrow> packet \<Rightarrow> u64" where
  "line_of blk pkt = (if p_secure pkt then block_addr blk (p_addr pkt) OR LineSecure else block_addr blk (p_addr pkt))"

lemma line_addr_iff: "line_addr sf pkt = Inr line \<longleftrightarrow> VALID_ADDR \<in> p_flags pkt \<and> line = line_of (linesize sf) pkt"
  by (auto simp: line_addr_def getBlockAddr_def getAddr_def pkt_isSecure_def line_of_def)

lemma ports_of_simps:
  assumes "wf_ports sf"
  shows "ports_of sf 0 = {}"
    and "p \<in> set (sf_ports sf) \<Longrightarrow> ports_of sf (m OR 2 ^ sf_bit sf p) = insert p (ports_of sf m)"
    and "p \<in> set (sf_ports sf) \<Longrightarrow> ports_of sf (m AND NOT (2 ^ sf_bit sf p)) = ports_of sf m - {p}"
    and "p \<in> set (sf_ports sf) \<Longrightarrow> m AND 2 ^ sf_bit sf p = 0 \<longleftrightarrow> p \<notin> ports_of sf m"
proof -
  have t: "sf_bit sf q < 256" if "q \<in> set (sf_ports sf)" for q using assms that by (simp add: wf_ports_def tracked_def)
  show "ports_of sf 0 = {}" by (simp add: ports_of_def)
  assume p: "p \<in> set (sf_ports sf)"
  have "bit (2 ^ sf_bit sf p :: SnoopMask) (sf_bit sf q) \<longleftrightarrow> q = p" if "q \<in> set (sf_ports sf)" for q
    using assms p that t [OF p] by (auto simp: one_hot_bit wf_ports_def inj_on_def)
  then show "ports_of sf (m OR 2 ^ sf_bit sf p) = insert p (ports_of sf m)"
    "ports_of sf (m AND NOT (2 ^ sf_bit sf p)) = ports_of sf m - {p}"
    using p t by (auto simp: ports_of_def bit_or_iff bit_and_iff bit_not_iff)
  show "m AND 2 ^ sf_bit sf p = 0 \<longleftrightarrow> p \<notin> ports_of sf m"
    using p t [OF p] by (simp add: one_hot_bit ports_of_def)
qed

text \<open>The effect of changing the entry of one line.\<close>

definition entry :: "SnoopItem \<Rightarrow> SnoopItem option" where
  "entry i = (if requested i OR holder i = 0 then None else Some i)"

definition sets_item :: "u64 \<Rightarrow> SnoopItem \<Rightarrow> snoop_filter \<Rightarrow> snoop_filter \<Rightarrow> bool" where
  "sets_item line i sf sf' \<longleftrightarrow> same_ports sf sf' \<and> distinct (map fst (cachedLocations sf')) \<and>
     map_of (cachedLocations sf') = (map_of (cachedLocations sf))(line := entry i)"

lemma entry_item: "(case entry i of None \<Rightarrow> null_item | Some j \<Rightarrow> j) = i"
  by (auto simp: entry_def null_item_def or_eq_0_iff)

lemma sets_itemD:
  assumes "sets_item line i sf sf'"
  shows "requesters sf' l = (if l = line then ports_of sf (requested i) else requesters sf l)"
    and "holders sf' l = (if l = line then ports_of sf (holder i) else holders sf l)"
    and "sf_inv sf \<Longrightarrow> bits_ok sf i \<Longrightarrow> sf_inv sf'"
proof -
  note s = assms [unfolded sets_item_def]
  have "item_at sf' l = (if l = line then i else item_at sf l)"
    using s entry_item [of i] by (auto simp: item_at_def)
  then show "requesters sf' l = (if l = line then ports_of sf (requested i) else requesters sf l)"
    "holders sf' l = (if l = line then ports_of sf (holder i) else holders sf l)"
    using same_portsD(7) s by (auto simp: requesters_def holders_def)
  assume inv: "sf_inv sf" and bits: "bits_ok sf i"
  have "no_null sf'"
    unfolding no_null_def
  proof
    fix j assume "j \<in> ran (map_of (cachedLocations sf'))"
    then obtain l where "map_of (cachedLocations sf') l = Some j" by (auto simp: ran_def)
    then show "requested j OR holder j \<noteq> 0 \<and> bits_ok sf' j"
      unfolding same_portsD(8) [OF conjunct1 [OF s]]
      using s inv bits no_nullD [of sf l j] by (cases "l = line") (auto simp: entry_def sf_inv_def split: if_splits)
  qed
  then show "sf_inv sf'" using inv s same_portsD(3) by (auto simp: sf_inv_def)
qed

lemma eraseIfNullEntry_ok:
  assumes "map_of (cachedLocations sf) line = Some i" and "distinct (map fst (cachedLocations sf))"
  shows "\<exists>sf'. eraseIfNullEntry line sf = Inr sf' \<and> sets_item line i sf sf' \<and> lookup_it sf' = lookup_it sf"
  using assms by (auto simp: eraseIfNullEntry_def sets_item_def same_ports_def entry_def distinct_delete fun_upd_idem)

lemma finishRequest_ok:
  assumes "lookup_it sf = Some line" and "map_of (cachedLocations sf) line = Some i" and "distinct (map fst (cachedLocations sf))"
    and "line = line_of (linesize sf) pkt"
  shows "\<exists>sf'. finishRequest retry (p_addr pkt) (p_secure pkt) sf = Inr sf' \<and>
     sets_item line (if retry then retryItem sf else i) sf sf'"
proof -
  let ?sf = "if retry then set_item line (retryItem sf) sf else sf"
  have "map_of (cachedLocations ?sf) line = Some (if retry then retryItem sf else i)" using assms(2) by simp
  moreover have "distinct (map fst (cachedLocations ?sf))" using assms(3) by (simp add: distinct_update)
  ultimately obtain sf' where "eraseIfNullEntry line ?sf = Inr sf'" "sets_item line (if retry then retryItem sf else i) ?sf sf'"
    using eraseIfNullEntry_ok by blast
  moreover from this have "sets_item line (if retry then retryItem sf else i) sf sf'"
    by (auto simp: sets_item_def same_ports_def)
  ultimately show ?thesis using assms by (auto simp: finishRequest_def line_of_def)
qed

text \<open>The abstract filter: for every line the ports that asked for it and the ports that have it.\<close>

type_synonym sf_state = "u64 \<Rightarrow> resp_port set \<times> resp_port set"

definition sf_abs :: "snoop_filter \<Rightarrow> sf_state" where
  "sf_abs sf = (\<lambda>l. (requesters sf l, holders sf l))"

definition request_spec :: "packet \<Rightarrow> resp_port \<Rightarrow> resp_port set \<times> resp_port set \<Rightarrow> resp_port set \<times> resp_port set" where
  "request_spec pkt p = (\<lambda>(R, H).
     if pkt_is NeedsResponse pkt then if CACHE_RESPONDING \<notin> p_flags pkt then (insert p R, H) else (R, H)
     else if BLOCK_CACHED \<notin> p_flags pkt then (R, H - {p}) else (R, H))"

lemma requested_item_spec:
  assumes "wf_ports sf" and "p \<in> set (sf_ports sf)"
  shows "(ports_of sf (requested (requested_item pkt (sf_bit sf p) i)), ports_of sf (holder (requested_item pkt (sf_bit sf p) i))) =
     request_spec pkt p (ports_of sf (requested i), ports_of sf (holder i))"
  using ports_of_simps [OF assms(1)] assms(2) by (auto simp: requested_item_def request_spec_def)

lemma sets_item_abs:
  "sets_item line i sf sf' \<Longrightarrow> sf_abs sf' = (sf_abs sf)(line := (ports_of sf (requested i), ports_of sf (holder i)))"
  using sets_itemD(1,2) by (fastforce simp: sf_abs_def)

lemma sf_abs_item: "sf_abs sf line = (ports_of sf (requested (item_at sf line)), ports_of sf (holder (item_at sf line)))"
  by (simp add: sf_abs_def requesters_def holders_def)

lemma request_tracked:
  assumes inv: "sf_inv sf" and valid: "VALID_ADDR \<in> p_flags pkt"
    and port: "port \<in> set (sf_ports sf) \<or> \<not> rp_snooping port \<and> rp_id port \<noteq> -1"
    and ok: "allocates pkt port \<Longrightarrow> request_ok pkt port (requesters sf (line_of (linesize sf) pkt)) (holders sf (line_of (linesize sf) pkt))"
  defines "line \<equiv> line_of (linesize sf) pkt"
  shows "\<exists>ports sf1. lookupRequest pkt port sf = Inr ((ports, lookupLatency sf), sf1) \<and>
     set ports = requesters sf line \<union> holders sf line - {port} \<and>
     okE (finishRequest retry (p_addr pkt) (p_secure pkt) sf1) (\<lambda>sf'. sf_inv sf' \<and> same_ports sf sf' \<and>
       sf_abs sf' = (if allocates pkt port \<and> \<not> retry then (sf_abs sf)(line := request_spec pkt port (sf_abs sf line)) else sf_abs sf))"
proof -
  have wf: "wf_ports sf" and d: "distinct (map fst (cachedLocations sf))" using inv by (auto simp: sf_inv_def)
  have l: "line_addr sf pkt = Inr line" using valid by (simp add: line_addr_iff line_def)
  define new where "new = (if allocates pkt port then requested_item pkt (sf_bit sf port) (item_at sf line) else item_at sf line)"
  obtain ports sf1 where r: "lookupRequest pkt port sf = Inr ((ports, lookupLatency sf), sf1)"
    "set ports = requesters sf line \<union> holders sf line - {port}" and same: "same_ports sf sf1"
    and d1: "distinct (map fst (cachedLocations sf1))"
    and st: "if map_of (cachedLocations sf) line = None \<and> \<not> allocates pkt port
      then lookup_it sf1 = None \<and> cachedLocations sf1 = cachedLocations sf
      else lookup_it sf1 = Some line \<and> retryItem sf1 = item_at sf line \<and>
           map_of (cachedLocations sf1) = (map_of (cachedLocations sf))(line \<mapsto> new)"
    using lookupRequest_spec [OF wf l port] ok d unfolding new_def line_def by blast
  have "okE (finishRequest retry (p_addr pkt) (p_secure pkt) sf1) (\<lambda>sf'. sf_inv sf' \<and> same_ports sf sf' \<and>
       sf_abs sf' = (if allocates pkt port \<and> \<not> retry then (sf_abs sf)(line := request_spec pkt port (sf_abs sf line)) else sf_abs sf))"
  proof (cases "map_of (cachedLocations sf) line = None \<and> \<not> allocates pkt port")
    case True
    then have "finishRequest retry (p_addr pkt) (p_secure pkt) sf1 = Inr sf1" using st by (simp add: finishRequest_def)
    moreover have "sf_inv sf1" "sf_abs sf1 = sf_abs sf"
      using inv True st same same_portsD(3,7,8) [OF same]
      by (auto simp: sf_inv_def no_null_def sf_abs_def requesters_def holders_def item_at_def)
    ultimately show ?thesis using same True by simp
  next
    case False
    then have m: "map_of (cachedLocations sf1) = (map_of (cachedLocations sf))(line \<mapsto> new)"
      "lookup_it sf1 = Some line" "retryItem sf1 = item_at sf line" using st by auto
    have "line = line_of (linesize sf1) pkt" using same by (simp add: same_ports_def line_def)
    then obtain sf' where f: "finishRequest retry (p_addr pkt) (p_secure pkt) sf1 = Inr sf'"
      "sets_item line (if retry then item_at sf line else new) sf1 sf'"
      using finishRequest_ok [OF m(2) _ d1, of new pkt retry] m(1) unfolding m(3) by auto
    have s: "sets_item line (if retry then item_at sf line else new) sf sf'"
      using f(2) same m(1) by (auto simp: sets_item_def same_ports_def)
    have "sf_abs sf' = (if allocates pkt port \<and> \<not> retry then (sf_abs sf)(line := request_spec pkt port (sf_abs sf line)) else sf_abs sf)"
    proof (cases "allocates pkt port \<and> \<not> retry")
      case True
      then have "port \<in> set (sf_ports sf)" using port by (auto simp: allocates_def)
      then show ?thesis
        using sets_item_abs [OF s] True requested_item_spec [OF wf] by (simp add: new_def sf_abs_item)
    next
      case False
      then have e: "(if retry then item_at sf line else new) = item_at sf line" by (auto simp: new_def)
      show ?thesis using sets_item_abs [OF s, unfolded e] False by (auto simp: sf_abs_item [symmetric])
    qed
    moreover have "bits_ok sf (if retry then item_at sf line else new)"
      using item_at_bits [OF inv, of line] bits_ok_changes [OF item_at_bits [OF inv] _ wf] port
      by (auto simp: new_def requested_item_def allocates_def)
    ultimately show ?thesis using f(1) s sets_itemD(3) [OF s inv] by (simp add: sets_item_def)
  qed
  then show ?thesis using r by blast
qed

lemma upd_hit: "m l = Some y \<Longrightarrow> \<exists>i. m = m(l \<mapsto> i)"
  by (rule exI [of _ y]) auto

text \<open>A successful lookup, whatever the request was.\<close>

lemma lookupRequest_cases:
  assumes "lookupRequest pkt port sf = Inr (r, sf1)"
  defines "line \<equiv> line_of (linesize sf) pkt"
  shows "same_ports sf sf1" and "distinct (map fst (cachedLocations sf)) \<Longrightarrow> distinct (map fst (cachedLocations sf1))"
    and "lookup_it sf1 = None \<and> cachedLocations sf1 = cachedLocations sf \<or>
      (\<exists>i. lookup_it sf1 = Some line \<and> retryItem sf1 = item_at sf line \<and>
           map_of (cachedLocations sf1) = (map_of (cachedLocations sf))(line \<mapsto> i))"
proof -
  obtain k where k: "portToMask sf port = Inr k" "line_addr sf pkt = Inr line"
    using assms(1) by (auto simp: lookupRequest_def line_addr_iff line_def)
  note d = assms(1) [unfolded lookupRequest_def Let_def, simplified k, simplified]
  show "same_ports sf sf1" "distinct (map fst (cachedLocations sf)) \<Longrightarrow> distinct (map fst (cachedLocations sf1))"
    using d by (auto simp: same_ports_def distinct_update split: if_splits)
  show "lookup_it sf1 = None \<and> cachedLocations sf1 = cachedLocations sf \<or>
      (\<exists>i. lookup_it sf1 = Some line \<and> retryItem sf1 = item_at sf line \<and>
           map_of (cachedLocations sf1) = (map_of (cachedLocations sf))(line \<mapsto> i))"
    using d by (auto simp: item_at_def split: if_splits option.splits intro: upd_hit)
qed

section \<open>Responses and snoops\<close>

definition response_spec :: "packet \<Rightarrow> resp_port \<Rightarrow> resp_port set \<times> resp_port set \<Rightarrow> resp_port set \<times> resp_port set" where
  "response_spec pkt p = (\<lambda>(R, H).
     (R - {p}, if isCacheMaintenance (p_req pkt) then if pkt_is IsInvalidate pkt then H - {p} else H else insert p H))"

lemma erase_set_item:
  assumes "distinct (map fst (cachedLocations sf))"
  shows "\<exists>sf'. eraseIfNullEntry line (set_item line i sf) = Inr sf' \<and> sets_item line i sf sf'"
proof -
  obtain sf' where "eraseIfNullEntry line (set_item line i sf) = Inr sf'" "sets_item line i (set_item line i sf) sf'"
    using eraseIfNullEntry_ok [of "set_item line i sf" line i] assms by (auto simp: distinct_update)
  then show ?thesis by (auto simp: sets_item_def same_ports_def)
qed

lemma set_item_sets:
  assumes "distinct (map fst (cachedLocations sf))" and "requested i OR holder i \<noteq> 0"
  shows "sets_item line i sf (set_item line i sf)"
  using assms by (simp add: sets_item_def same_ports_def entry_def distinct_update)

lemma item_hit: "map_of (cachedLocations sf) line = Some i \<Longrightarrow> item_at sf line = i"
  by (simp add: item_at_def)

lemma or_one_hot: "k < 256 \<Longrightarrow> (m OR 2 ^ k :: SnoopMask) \<noteq> 0"
  using one_hot_bit(1) [of k k] by (metis bit_0_eq bit_or_iff bot_apply bot_bool_def)

lemma untracked_line:
  assumes "sf_inv sf"
  shows "map_of (cachedLocations sf) line = None \<Longrightarrow> sf_abs sf line = ({}, {})"
  using assms ports_of_simps(1) by (auto simp: sf_abs_item item_at_def null_item_def sf_inv_def)

lemma updateResponse_ok:
  assumes inv: "sf_inv sf" and valid: "VALID_ADDR \<in> p_flags pkt" and resp: "pkt_is IsResponse pkt"
    and c: "\<not> rq_uncacheable (p_req pkt)" and p: "port \<in> set (sf_ports sf)"
  defines "line \<equiv> line_of (linesize sf) pkt"
  shows "map_of (cachedLocations sf) line = None \<Longrightarrow> updateResponse pkt port sf = Inr sf"
    and "map_of (cachedLocations sf) line \<noteq> None \<Longrightarrow> port \<notin> requesters sf line \<Longrightarrow> \<not> rq_broadcast (p_req pkt) \<Longrightarrow>
      updateResponse pkt port sf = Inl (Panic ''missing request bit'')"
    and "map_of (cachedLocations sf) line \<noteq> None \<Longrightarrow> port \<in> requesters sf line \<or> rq_broadcast (p_req pkt) \<Longrightarrow>
      okE (updateResponse pkt port sf) (\<lambda>sf'. sf_inv sf' \<and> same_ports sf sf' \<and>
        sf_abs sf' = (sf_abs sf)(line := response_spec pkt port (sf_abs sf line)))"
proof -
  have wf: "wf_ports sf" and d: "distinct (map fst (cachedLocations sf))" using inv by (auto simp: sf_inv_def)
  have t: "tracked sf port" using wf p by (simp add: wf_ports_def)
  have k: "sf_bit sf port < 256" and s: "rp_snooping port" using t by (auto simp: tracked_def)
  have l: "line_addr sf pkt = Inr line" using valid by (simp add: line_addr_iff line_def)
  note ps = ports_of_simps(2-4) [OF wf p]
  show "updateResponse pkt port sf = Inr sf" if "map_of (cachedLocations sf) line = None"
    using that resp c s by (simp add: updateResponse_def l)
  show "updateResponse pkt port sf = Inl (Panic ''missing request bit'')"
    if "map_of (cachedLocations sf) line \<noteq> None" "port \<notin> requesters sf line" "\<not> rq_broadcast (p_req pkt)"
    using that resp c s by (auto simp: updateResponse_def l portToMask_tracked [OF t] ps(3) requesters_def item_hit)
  assume m: "map_of (cachedLocations sf) line \<noteq> None" and ok: "port \<in> requesters sf line \<or> rq_broadcast (p_req pkt)"
  then obtain i where i: "map_of (cachedLocations sf) line = Some i" by blast
  define j where "j = (let j = i\<lparr>requested := requested i AND NOT (2 ^ sf_bit sf port)\<rparr> in
    if isCacheMaintenance (p_req pkt) then if pkt_is IsInvalidate pkt then j\<lparr>holder := holder j AND NOT (2 ^ sf_bit sf port)\<rparr> else j
    else j\<lparr>holder := holder j OR 2 ^ sf_bit sf port\<rparr>)"
  have abs: "(ports_of sf (requested j), ports_of sf (holder j)) = response_spec pkt port (sf_abs sf line)"
    using ps(1,2) item_hit [OF i] by (auto simp: j_def response_spec_def sf_abs_item)
  have r: "bits_ok sf (i\<lparr>requested := requested i AND NOT (2 ^ sf_bit sf port)\<rparr>)"
    using no_nullD [OF _ i] inv bits_ok_changes(2) [OF _ p wf] by (simp add: sf_inv_def)
  have bits: "bits_ok sf j"
    using r bits_ok_changes(3) [OF r p wf] bits_ok_changes(4) [OF r p wf, of "NOT (2 ^ sf_bit sf port)"] by (simp add: j_def Let_def)
  obtain sf' where "updateResponse pkt port sf = Inr sf'" "sets_item line j sf sf'"
  proof (cases "isCacheMaintenance (p_req pkt)")
    case True
    then have "updateResponse pkt port sf = eraseIfNullEntry line (set_item line j sf)"
      using resp c s ok i by (auto simp: updateResponse_def l portToMask_tracked [OF t] ps(3) requesters_def item_hit j_def Let_def)
    then show ?thesis using erase_set_item [OF d, of line j] that by auto
  next
    case False
    have "updateResponse pkt port sf = Inr (set_item line j sf)"
      using resp c s ok i False or_one_hot [OF k, of "holder i"]
      by (auto simp: updateResponse_def l portToMask_tracked [OF t] ps(3) requesters_def item_hit j_def Let_def or_eq_0_iff)
    moreover have "requested j OR holder j \<noteq> 0" using False or_one_hot [OF k] by (auto simp: j_def Let_def or_eq_0_iff)
    ultimately show ?thesis using set_item_sets [OF d] that by blast
  qed
  then show "okE (updateResponse pkt port sf) (\<lambda>sf'. sf_inv sf' \<and> same_ports sf sf' \<and>
        sf_abs sf' = (sf_abs sf)(line := response_spec pkt port (sf_abs sf line)))"
    using sets_itemD(3) [OF _ inv bits] sets_item_abs abs by (auto simp: sets_item_def)
qed

lemma requested_none:
  assumes "sf_inv sf"
  shows "requested (item_at sf line) = 0 \<longleftrightarrow> requesters sf line = {}"
    and "map_of (cachedLocations sf) line = None \<longleftrightarrow> requesters sf line = {} \<and> holders sf line = {}"
proof -
  have z: "m = 0 \<longleftrightarrow> ports_of sf m = {}" if "\<And>n. bit m n \<Longrightarrow> n \<in> sf_bit sf ` set (sf_ports sf)" for m
  proof
    show "m = 0" if "ports_of sf m = {}"
      by (rule bit_word_eqI) (use that \<open>\<And>n. bit m n \<Longrightarrow> _ n\<close> in \<open>auto simp: ports_of_def\<close>)
  qed (simp add: ports_of_def)
  have b: "bits_ok sf (item_at sf line)" by (rule item_at_bits [OF assms])
  show r: "requested (item_at sf line) = 0 \<longleftrightarrow> requesters sf line = {}"
    unfolding requesters_def by (rule z) (use b in \<open>auto simp: bits_ok_def\<close>)
  have "holder (item_at sf line) = 0 \<longleftrightarrow> holders sf line = {}"
    unfolding holders_def by (rule z) (use b in \<open>auto simp: bits_ok_def\<close>)
  then show "map_of (cachedLocations sf) line = None \<longleftrightarrow> requesters sf line = {} \<and> holders sf line = {}"
    using r no_nullD [of sf line] assms
    by (cases "map_of (cachedLocations sf) line") (auto simp: item_at_def null_item_def sf_inv_def or_eq_0_iff)
qed

text \<open>What a snoop does: an invalidating one makes the filter forget the holders, if no request is in flight.\<close>

definition snoop_spec :: "packet \<Rightarrow> resp_port set \<times> resp_port set \<Rightarrow> resp_port set \<times> resp_port set" where
  "snoop_spec pkt = (\<lambda>(R, H). if pkt_is IsInvalidate pkt \<and> R = {} then (R, {}) else (R, H))"

lemma all_ports:
  assumes "wf_ports sf"
  shows "set (filter (\<lambda>p. bit (holder i OR requested i) (sf_bit sf p)) (sf_ports sf)) = ports_of sf (requested i) \<union> ports_of sf (holder i)"
  by (auto simp: ports_of_def bit_or_iff)

lemma count_snoop_same: "sets_item line i (count_snoop m sf) sf' = sets_item line i sf sf'"
  by (simp add: sets_item_def same_ports_def)

lemma lookupSnoop_ok:
  assumes inv: "sf_inv sf" and valid: "VALID_ADDR \<in> p_flags pkt" and req: "pkt_is IsRequest pkt"
    and kind: "pkt_isWriteback pkt \<or> rq_uncacheable (p_req pkt) \<or> pkt_is IsInvalidate pkt = pkt_is NeedsWritable pkt \<or> isCacheMaintenance (p_req pkt)"
    and room: "length (cachedLocations sf) < unat (maxEntryCount sf)"
  defines "line \<equiv> line_of (linesize sf) pkt"
  shows "okE (lookupSnoop pkt sf) (\<lambda>((ports, lat), sf'). set ports = requesters sf line \<union> holders sf line \<and>
     sf_inv sf' \<and> same_ports sf sf' \<and> sf_abs sf' = (sf_abs sf)(line := snoop_spec pkt (sf_abs sf line)))"
proof (cases "map_of (cachedLocations sf) line")
  case None
  then have e: "requesters sf line = {}" "holders sf line = {}" using requested_none(2) [OF inv] by auto
  then have "(sf_abs sf)(line := snoop_spec pkt (sf_abs sf line)) = sf_abs sf"
    by (auto simp: sf_abs_def snoop_spec_def)
  moreover have "line_addr sf pkt = Inr line" using valid by (simp add: line_addr_iff line_def)
  ultimately show ?thesis using None req room e inv by (simp add: lookupSnoop_def same_ports_def)
next
  case (Some i)
  have wf: "wf_ports sf" and d: "distinct (map fst (cachedLocations sf))" using inv by (auto simp: sf_inv_def)
  have l: "line_addr sf pkt = Inr line" using valid by (simp add: line_addr_iff line_def)
  have i: "item_at sf line = i" by (rule item_hit [OF Some])
  let ?sf = "count_snoop (holder i OR requested i) sf"
  let ?drop = "pkt_is IsInvalidate pkt \<and> requested i = 0"
  let ?j = "if ?drop then i\<lparr>holder := 0\<rparr> else i"
  obtain sf' where sf': "(if ?drop then eraseIfNullEntry line (set_item line (i\<lparr>holder := 0\<rparr>) ?sf) else Inr ?sf) = Inr sf'"
    "sets_item line ?j sf sf'"
  proof (cases ?drop)
    case True
    then show ?thesis using that erase_set_item [of ?sf line "i\<lparr>holder := 0\<rparr>"] d by (auto simp: count_snoop_same)
  next
    case False
    have "entry i = Some i" using no_nullD [OF _ Some] inv by (auto simp: entry_def sf_inv_def)
    then have "sets_item line i sf ?sf" using Some d by (simp add: sets_item_def same_ports_def fun_upd_idem)
    then show ?thesis using that False by auto
  qed
  have same: "same_ports sf sf'" using sf'(2) by (simp add: sets_item_def)
  have list: "maskToPortList sf' m = Inr (filter (\<lambda>p. bit m (sf_bit sf p)) (sf_ports sf))" for m
    using maskToPortList_filter wf same_portsD(5) [OF same] by (simp add: wf_ports_def)
  have "bits_ok sf i" using item_at_bits [OF inv, of line] i by simp
  then have "bits_ok sf ?j" by (auto simp: bits_ok_def)
  then have "sf_inv sf'" using sets_itemD(3) [OF sf'(2) inv] by blast
  moreover have "sf_abs sf' = (sf_abs sf)(line := snoop_spec pkt (sf_abs sf line))"
    using sets_item_abs [OF sf'(2)] requested_none(1) [OF inv, of line] ports_of_simps(1) [OF wf]
    by (auto simp: snoop_spec_def sf_abs_item i requesters_def)
  ultimately show ?thesis
    using sf'(1) same req kind Some list all_ports [OF wf, of i] i
    by (auto simp: lookupSnoop_def l Let_def requesters_def holders_def)
qed

lemma updateSnoopForward_ok:
  assumes inv: "sf_inv sf" and valid: "VALID_ADDR \<in> p_flags pkt" and "pkt_is IsResponse pkt" "CACHE_RESPONDING \<in> p_flags pkt"
  defines "line \<equiv> line_of (linesize sf) pkt"
  shows "okE (updateSnoopForward pkt sf) (\<lambda>sf'. sf_inv sf' \<and> same_ports sf sf' \<and>
     sf_abs sf' = (if HAS_SHARERS \<in> p_flags pkt then sf_abs sf else (sf_abs sf)(line := (requesters sf line, {}))))"
proof -
  have wf: "wf_ports sf" and d: "distinct (map fst (cachedLocations sf))" using inv by (auto simp: sf_inv_def)
  have l: "line_addr sf pkt = Inr line" using valid by (simp add: line_addr_iff line_def)
  show ?thesis
  proof (cases "map_of (cachedLocations sf) line")
    case None
    then have "(sf_abs sf)(line := (requesters sf line, {})) = sf_abs sf"
      using requested_none(2) [OF inv] by (auto simp: sf_abs_def)
    then show ?thesis using None l inv assms(3,4) by (simp add: updateSnoopForward_def same_ports_def)
  next
    case (Some i)
    obtain sf' where sf': "eraseIfNullEntry line (set_item line (i\<lparr>holder := 0\<rparr>) sf) = Inr sf'" "sets_item line (i\<lparr>holder := 0\<rparr>) sf sf'"
      using erase_set_item [OF d] by blast
    have "bits_ok sf (i\<lparr>holder := 0\<rparr>)" using item_at_bits [OF inv, of line] item_hit [OF Some] by (auto simp: bits_ok_def)
    then show ?thesis
      using sf' sets_itemD(3) [OF sf'(2) inv] sets_item_abs [OF sf'(2)] ports_of_simps(1) [OF wf] Some l inv assms(3,4)
      by (auto simp: updateSnoopForward_def same_ports_def sets_item_def requesters_def item_hit)
  qed
qed

lemma updateSnoopResponse_ok:
  assumes inv: "sf_inv sf" and valid: "VALID_ADDR \<in> p_flags pkt" and "pkt_is IsResponse pkt" "CACHE_RESPONDING \<in> p_flags pkt"
    and "\<not> rq_uncacheable (p_req pkt)" "\<not> pkt_isWriteback pkt"
  defines "line \<equiv> line_of (linesize sf) pkt"
  assumes rsp: "rsp \<in> holders sf line" and req: "req \<in> requesters sf line"
  shows "okE (updateSnoopResponse pkt rsp req sf) (\<lambda>sf'. sf_inv sf' \<and> same_ports sf sf' \<and>
     sf_abs sf' = (sf_abs sf)(line :=
       (requesters sf line - {req}, insert req (if HAS_SHARERS \<in> p_flags pkt then holders sf line else {}))))"
proof -
  have wf: "wf_ports sf" and d: "distinct (map fst (cachedLocations sf))" using inv by (auto simp: sf_inv_def)
  have l: "line_addr sf pkt = Inr line" using valid by (simp add: line_addr_iff line_def)
  define i where "i = item_at sf line"
  have p: "rsp \<in> set (sf_ports sf)" "req \<in> set (sf_ports sf)" using rsp req by (auto simp: holders_def requesters_def ports_of_def)
  have t: "tracked sf rsp" "tracked sf req" using p wf by (auto simp: wf_ports_def)
  have k: "sf_bit sf req < 256" and sn: "rp_snooping req" using t by (auto simp: tracked_def)
  note b = ports_of_simps [OF wf]
  define h where "h = (if HAS_SHARERS \<notin> p_flags pkt then i\<lparr>holder := 0\<rparr> else i)"
  define j where "j = h\<lparr>holder := holder h OR 2 ^ sf_bit sf req, requested := requested h AND NOT (2 ^ sf_bit sf req)\<rparr>"
  have i: "(case map_of (cachedLocations sf) line of None \<Rightarrow> null_item | Some i \<Rightarrow> i) = i" by (simp add: i_def item_at_def)
  have nz: "requested j OR holder j \<noteq> 0" using or_one_hot [OF k] by (auto simp: j_def or_eq_0_iff)
  have "holder i AND 2 ^ sf_bit sf rsp \<noteq> 0" "requested i AND 2 ^ sf_bit sf req \<noteq> 0"
    using rsp req p b(4) by (auto simp: i_def holders_def requesters_def)
  then have u: "updateSnoopResponse pkt rsp req sf = Inr (set_item line j sf)"
    using assms(3-6) sn nz
    by (auto simp: updateSnoopResponse_def l portToMask_tracked [OF t(1)] portToMask_tracked [OF t(2)] i Let_def h_def j_def)
  have s: "sets_item line j sf (set_item line j sf)" by (rule set_item_sets [OF d nz])
  have "bits_ok sf h" using item_at_bits [OF inv, of line] by (auto simp: h_def i_def bits_ok_def)
  then have "bits_ok sf j"
    unfolding j_def by (intro bits_ok_changes(2) [OF bits_ok_changes(3) [OF _ p(2) wf] p(2) wf, of h "NOT (2 ^ sf_bit sf req)", simplified])
  then show ?thesis
    using u sets_itemD(3) [OF s inv] sets_item_abs [OF s] b(1,2,3) p(2)
    by (auto simp: same_ports_def j_def h_def i_def requesters_def holders_def)
qed

section \<open>Setting up\<close>

lemma setCPUSidePorts_ok:
  assumes ids: "\<And>k. k < length ports \<Longrightarrow> rp_id (ports ! k) = int k"
    and few: "length (filter rp_snooping ports) \<le> 256"
    and new: "sf_ports sf = []" "localResponsePortIds sf = []" "cachedLocations sf = []"
  shows "okE (setCPUSidePorts ports sf) (\<lambda>sf'. sf_inv sf' \<and> sf_ports sf' = filter rp_snooping ports \<and>
     linesize sf' = linesize sf \<and> (\<forall>l. sf_abs sf' l = ({}, {})))"
proof -
  define I where "I = (\<lambda>ys (u :: snoop_filter \<times> int). case u of (s, i) \<Rightarrow>
    sf_ports s = filter rp_snooping ys \<and> i = int (length (filter rp_snooping ys)) \<and> cachedLocations s = [] \<and>
    linesize s = linesize sf \<and> length (localResponsePortIds s) = length ports \<and>
    (\<forall>k < length (filter rp_snooping ys). localResponsePortIds s ! nat (rp_id (filter rp_snooping ys ! k)) = int k))"
  have d: "distinct (map rp_id ports)" using ids by (simp add: distinct_conv_nth)
  have range: "0 \<le> rp_id p \<and> nat (rp_id p) < length ports" if "p \<in> set ports" for p
    using that ids by (auto simp: in_set_conv_nth)
  have fold: "okE (foldE add_port ports (sf\<lparr>localResponsePortIds := replicate (length ports) (-1)\<rparr>, 0)) (I ports)"
  proof (rule okE_foldE_prefix)
    show "I [] (sf\<lparr>localResponsePortIds := replicate (length ports) (-1)\<rparr>, 0)" using new by (simp add: I_def)
    fix ys p zs u assume ports: "ports = ys @ p # zs" and I: "I ys u"
    obtain s i where u: "u = (s, i)" by (cases u)
    show "okE (add_port p u) (I (ys @ [p]))"
    proof (cases "rp_snooping p")
      case True
      have "rp_id p \<notin> rp_id ` set ys" using d by (simp add: ports)
      then have "rp_id q \<noteq> rp_id p" if "q \<in> set ys" for q using that by (metis imageI)
      moreover have "filter rp_snooping ys ! k \<in> set ys" if "k < length (filter rp_snooping ys)" for k
        using nth_mem [OF that] by auto
      ultimately have "nat (rp_id p) \<noteq> nat (rp_id (filter rp_snooping ys ! k))" if "k < length (filter rp_snooping ys)" for k
        using that range [of p] range ports by (metis Un_iff eq_nat_nat_iff in_set_conv_decomp set_append)
      then show ?thesis using I True range [of p] by (auto simp: u add_port_def I_def ports nth_append less_Suc_eq)
    next
      case False
      then show ?thesis using I by (simp add: u add_port_def I_def)
    qed
  qed
  have wf: "wf_ports s" if I: "I ports (s, i)" for s i
  proof -
    have at: "sf_bit s (filter rp_snooping ports ! k) = k" if "k < length (filter rp_snooping ports)" for k
      using I that by (simp add: I_def sf_bit_def)
    have "tracked s p" if p: "p \<in> set (filter rp_snooping ports)" for p
    proof -
      obtain k where "k < length (filter rp_snooping ports)" "p = filter rp_snooping ports ! k" using p unfolding in_set_conv_nth by blast
      then show ?thesis using I p at [of k] few range [of p] by (auto simp: tracked_def I_def)
    qed
    moreover have "inj_on (sf_bit s) (set (filter rp_snooping ports))"
    proof (rule inj_on_inverseI)
      fix p assume "p \<in> set (filter rp_snooping ports)"
      then obtain k where "k < length (filter rp_snooping ports)" "p = filter rp_snooping ports ! k" unfolding in_set_conv_nth by blast
      then show "filter rp_snooping ports ! sf_bit s p = p" using at by simp
    qed
    ultimately show ?thesis using I by (simp add: wf_ports_def I_def)
  qed
  show ?thesis
    unfolding setCPUSidePorts_def Let_def new
    apply (simp add: SNOOP_MASK_SIZE_def)
    apply (rule okE_mono [OF fold])
    using few wf by (auto simp: I_def sf_inv_def no_null_def sf_abs_def requesters_def holders_def item_at_def null_item_def ports_of_def)
qed

section \<open>Properties\<close>

text \<open>
  C16. A request through the filter refines the specification.  The ports to be snooped are exactly
  the other ports that hold the line or asked for it.  If the request goes on, the line gets the
  new requester (or loses the evicting holder); if it has to be retried, nothing changes.
\<close>

theorem request_refines:
  assumes "sf_inv sf" and "VALID_ADDR \<in> p_flags pkt"
    and "port \<in> set (sf_ports sf) \<or> \<not> rp_snooping port \<and> rp_id port \<noteq> -1"
    and "allocates pkt port \<Longrightarrow> request_ok pkt port (requesters sf (line_of (linesize sf) pkt)) (holders sf (line_of (linesize sf) pkt))"
  shows "\<exists>ports sf1. lookupRequest pkt port sf = Inr ((ports, lookupLatency sf), sf1) \<and>
     set ports = requesters sf (line_of (linesize sf) pkt) \<union> holders sf (line_of (linesize sf) pkt) - {port} \<and>
     okE (finishRequest retry (p_addr pkt) (p_secure pkt) sf1) (\<lambda>sf'. sf_inv sf' \<and> same_ports sf sf' \<and>
       sf_abs sf' = (if allocates pkt port \<and> \<not> retry
         then (sf_abs sf)(line_of (linesize sf) pkt := request_spec pkt port (sf_abs sf (line_of (linesize sf) pkt))) else sf_abs sf))"
  by (rule request_tracked [OF assms])

text \<open>
  C18. Undoing a request that has to be retried restores the table of lines exactly: the entry of
  the line gets back its old value and an entry made by the lookup is removed.
\<close>

theorem retry_restores:
  assumes inv: "sf_inv sf" and l: "lookupRequest pkt port sf = Inr (r, sf1)"
  shows "okE (finishRequest True (p_addr pkt) (p_secure pkt) sf1)
     (\<lambda>sf2. map_of (cachedLocations sf2) = map_of (cachedLocations sf) \<and> distinct (map fst (cachedLocations sf2)))"
proof -
  note c = lookupRequest_cases [OF l]
  have d: "distinct (map fst (cachedLocations sf1))" using c(2) inv by (simp add: sf_inv_def)
  have e: "entry (item_at sf line) = map_of (cachedLocations sf) line" for line
    using no_nullD [of sf line] inv by (auto simp: item_at_def entry_def null_item_def sf_inv_def split: option.split)
  show ?thesis
  proof (cases "lookup_it sf1")
    case None
    then show ?thesis using c(3) d by (auto simp: finishRequest_def)
  next
    case (Some line)
    then obtain i where i: "line = line_of (linesize sf) pkt" "retryItem sf1 = item_at sf line"
      "map_of (cachedLocations sf1) = (map_of (cachedLocations sf))(line \<mapsto> i)"
      using c(3) by auto
    have "line = line_of (linesize sf1) pkt" using c(1) i(1) by (simp add: same_ports_def)
    from finishRequest_ok [OF Some _ d this, of i True]
    obtain sf2 where "finishRequest True (p_addr pkt) (p_secure pkt) sf1 = Inr sf2" "sets_item line (item_at sf line) sf1 sf2"
      using i(2,3) by auto
    then show ?thesis using e [of line] i(3) by (simp add: sets_item_def)
  qed
qed

text \<open>
  C17. A response from below: nothing happens to a line that is not tracked; a response that the
  port never asked for stops the simulation unless it is a broadcast; otherwise the port becomes a
  holder (or, for cache maintenance, ceases to be one).
\<close>

theorem updateResponse_refines:
  assumes "sf_inv sf" and "VALID_ADDR \<in> p_flags pkt" and "pkt_is IsResponse pkt"
    and "\<not> rq_uncacheable (p_req pkt)" and "port \<in> set (sf_ports sf)"
  defines "line \<equiv> line_of (linesize sf) pkt"
  shows "(requesters sf line \<union> holders sf line = {} \<longrightarrow> updateResponse pkt port sf = Inr sf) \<and>
     (requesters sf line \<union> holders sf line \<noteq> {} \<and> port \<notin> requesters sf line \<and> \<not> rq_broadcast (p_req pkt) \<longrightarrow>
        updateResponse pkt port sf = Inl (Panic ''missing request bit'')) \<and>
     (requesters sf line \<union> holders sf line \<noteq> {} \<and> (port \<in> requesters sf line \<or> rq_broadcast (p_req pkt)) \<longrightarrow>
        okE (updateResponse pkt port sf) (\<lambda>sf'. sf_inv sf' \<and> same_ports sf sf' \<and>
          sf_abs sf' = (sf_abs sf)(line := response_spec pkt port (sf_abs sf line))))"
proof -
  note u = updateResponse_ok [OF assms(1-5), folded line_def]
  have e: "requesters sf line \<union> holders sf line = {} \<longleftrightarrow> map_of (cachedLocations sf) line = None"
    using requested_none(2) [OF assms(1)] by simp
  show ?thesis unfolding e using u by (intro conjI impI) simp_all
qed

text \<open>
  C19. A snoop from below is sent to exactly the ports that hold the line or asked for it.
\<close>

theorem lookupSnoop_refines:
  assumes "sf_inv sf" and "VALID_ADDR \<in> p_flags pkt" and "pkt_is IsRequest pkt"
    and "pkt_isWriteback pkt \<or> rq_uncacheable (p_req pkt) \<or> pkt_is IsInvalidate pkt = pkt_is NeedsWritable pkt \<or> isCacheMaintenance (p_req pkt)"
    and "length (cachedLocations sf) < unat (maxEntryCount sf)"
  defines "line \<equiv> line_of (linesize sf) pkt"
  shows "okE (lookupSnoop pkt sf) (\<lambda>((ports, lat), sf'). set ports = requesters sf line \<union> holders sf line \<and>
     sf_inv sf' \<and> same_ports sf sf' \<and> sf_abs sf' = (sf_abs sf)(line := snoop_spec pkt (sf_abs sf line)))"
  unfolding line_def by (rule lookupSnoop_ok [OF assms(1-5)])

section \<open>Transactions\<close>

text \<open>
  The contract a crossbar relies on: asking for a line names the ports to be snooped and marks the
  asker, answering makes it a holder.  The client's result: after any number of transactions every
  reader of a line is known, and is snooped by whoever asks next.
\<close>

locale line_tracker =
  fixes inv :: "'s \<Rightarrow> bool" and members :: "'s \<Rightarrow> 'p set" and R :: "'s \<Rightarrow> 'l \<Rightarrow> 'p set" and H :: "'s \<Rightarrow> 'l \<Rightarrow> 'p set"
    and req :: "'m \<Rightarrow> bool" and line :: "'s \<Rightarrow> 'm \<Rightarrow> 'l"
    and ask :: "'m \<Rightarrow> 'p \<Rightarrow> 's \<Rightarrow> cpp_error + ('p list \<times> 's)" and answer :: "'m \<Rightarrow> 'p \<Rightarrow> 's \<Rightarrow> cpp_error + 's"
  assumes ask_law: "inv s \<Longrightarrow> req m \<Longrightarrow> p \<in> members s \<Longrightarrow> p \<notin> R s (line s m) \<Longrightarrow>
      okE (ask m p s) (\<lambda>(ts, s'). inv s' \<and> members s' = members s \<and> line s' = line s \<and>
        set ts = R s (line s m) \<union> H s (line s m) - {p} \<and> R s' = (R s)(line s m := insert p (R s (line s m))) \<and> H s' = H s)"
    and answer_law: "inv s \<Longrightarrow> req m \<Longrightarrow> p \<in> members s \<Longrightarrow> p \<in> R s (line s m) \<Longrightarrow>
      okE (answer m p s) (\<lambda>s'. inv s' \<and> members s' = members s \<and> line s' = line s \<and>
        R s' = (R s)(line s m := R s (line s m) - {p}) \<and> H s' = (H s)(line s m := insert p (H s (line s m))))"
begin

lemma transaction:
  assumes "inv s" and "req m" and "p \<in> members s" and "p \<notin> R s (line s m)"
  shows "okE (bindE (ask m p s) (\<lambda>(ts, s). answer m p s)) (\<lambda>s'. inv s' \<and> members s' = members s \<and> line s' = line s \<and>
     R s' = R s \<and> H s' = (H s)(line s m := insert p (H s (line s m))))"
proof -
  have "okE (ask m p s) (\<lambda>(ts, s1). okE (answer m p s1) (\<lambda>s'. inv s' \<and> members s' = members s \<and> line s' = line s \<and>
     R s' = R s \<and> H s' = (H s)(line s m := insert p (H s (line s m)))))"
  proof (rule okE_mono [OF ask_law [OF assms]], clarify)
    fix ts s1 assume "inv s1" and s: "members s1 = members s" "line s1 = line s"
      "R s1 = (R s)(line s m := insert p (R s (line s m)))" "H s1 = H s"
    then have "okE (answer m p s1) (\<lambda>s'. inv s' \<and> members s' = members s1 \<and> line s' = line s1 \<and>
        R s' = (R s1)(line s1 m := R s1 (line s1 m) - {p}) \<and> H s' = (H s1)(line s1 m := insert p (H s1 (line s1 m))))"
      using assms by (intro answer_law) auto
    moreover have "(R s)(line s m := insert p (R s (line s m)) - {p}) = R s" using assms(4) by auto
    ultimately show "okE (answer m p s1) (\<lambda>s'. inv s' \<and> members s' = members s \<and> line s' = line s \<and>
        R s' = R s \<and> H s' = (H s)(line s m := insert p (H s (line s m))))"
      using s by (elim okE_mono) auto
  qed
  then show ?thesis by (auto simp: okE_iff)
qed

lemma transactions:
  assumes "inv s" and "\<And>l. R s l = {}" and "\<And>m p. (m, p) \<in> set ts \<Longrightarrow> req m \<and> p \<in> members s"
  shows "okE (foldE (\<lambda>(m, p) s. bindE (ask m p s) (\<lambda>(_, s). answer m p s)) ts s) (\<lambda>s'.
     inv s' \<and> members s' = members s \<and> line s' = line s \<and> (\<forall>l. R s' l = {}) \<and>
     (\<forall>l. H s' l = H s l \<union> {p. \<exists>m. (m, p) \<in> set ts \<and> line s m = l}))"
  using assms
proof (induction ts arbitrary: s)
  case (Cons t ts)
  obtain m p where t: "t = (m, p)" by (cases t)
  have "okE (bindE (ask m p s) (\<lambda>(_, s). answer m p s)) (\<lambda>s1. inv s1 \<and> members s1 = members s \<and> line s1 = line s \<and>
     R s1 = R s \<and> H s1 = (H s)(line s m := insert p (H s (line s m))))"
    using Cons.prems by (intro transaction) (auto simp: t)
  then obtain s1 where s1: "bindE (ask m p s) (\<lambda>(_, s). answer m p s) = Inr s1" "inv s1" "members s1 = members s" "line s1 = line s"
    "R s1 = R s" "H s1 = (H s)(line s m := insert p (H s (line s m)))"
    unfolding okE_iff by blast
  have "okE (foldE (\<lambda>(m, p) s. bindE (ask m p s) (\<lambda>(_, s). answer m p s)) ts s1) (\<lambda>s'.
     inv s' \<and> members s' = members s1 \<and> line s' = line s1 \<and> (\<forall>l. R s' l = {}) \<and>
     (\<forall>l. H s' l = H s1 l \<union> {p. \<exists>m. (m, p) \<in> set ts \<and> line s1 m = l}))"
  proof (rule Cons.IH [OF s1(2)])
    show "R s1 l = {}" for l using s1(5) Cons.prems(2) by simp
    show "req m \<and> p \<in> members s1" if "(m, p) \<in> set ts" for m p using s1(3) Cons.prems(3) [of m p] that by simp
  qed
  moreover have "H s1 l \<union> {p. \<exists>m. (m, p) \<in> set ts \<and> line s m = l} = H s l \<union> {p. \<exists>m. (m, p) \<in> set (t # ts) \<and> line s m = l}" for l
    using s1(6) by (auto simp: t)
  ultimately show ?case using s1(1-5) by (auto simp: t)
qed simp

lemma readers_known:
  assumes "inv s" and "\<And>l. R s l = {}" and "\<And>m p. (m, p) \<in> set ts \<Longrightarrow> req m \<and> p \<in> members s"
    and "req m" and "q \<in> members s"
  shows "okE (bindE (foldE (\<lambda>(m, p) s. bindE (ask m p s) (\<lambda>(_, s). answer m p s)) ts s) (ask m q)) (\<lambda>(ps, _).
     set ps = (H s (line s m) \<union> {p. \<exists>m'. (m', p) \<in> set ts \<and> line s m' = line s m}) - {q})"
proof -
  have "okE (foldE (\<lambda>(m, p) s. bindE (ask m p s) (\<lambda>(_, s). answer m p s)) ts s) (\<lambda>s'. okE (ask m q s') (\<lambda>(ps, _).
     set ps = (H s (line s m) \<union> {p. \<exists>m'. (m', p) \<in> set ts \<and> line s m' = line s m}) - {q}))"
  proof (rule okE_mono [OF transactions [OF assms(1-3)]])
    fix s' assume "inv s' \<and> members s' = members s \<and> line s' = line s \<and> (\<forall>l. R s' l = {}) \<and>
       (\<forall>l. H s' l = H s l \<union> {p. \<exists>m. (m, p) \<in> set ts \<and> line s m = l})"
    then show "okE (ask m q s') (\<lambda>(ps, _).
       set ps = (H s (line s m) \<union> {p. \<exists>m'. (m', p) \<in> set ts \<and> line s m' = line s m}) - {q})"
      using ask_law [of s' m q] assms(4,5) by (auto elim!: okE_mono)
  qed
  then show ?thesis by (auto simp: okE_iff)
qed

end

text \<open>A request that goes on, and the response to it, as the crossbar passes them to the filter.\<close>

definition track_request :: "packet \<Rightarrow> resp_port \<Rightarrow> snoop_filter \<Rightarrow> (resp_port list \<times> snoop_filter) res" where
  "track_request pkt port sf =
     bindE (lookupRequest pkt port sf) (\<lambda>((ports, _), sf). mapE (Pair ports) (finishRequest False (p_addr pkt) (p_secure pkt) sf))"

definition track_response :: "packet \<Rightarrow> resp_port \<Rightarrow> snoop_filter \<Rightarrow> snoop_filter res" where
  "track_response pkt port sf = bindE (makeResponse pkt) (\<lambda>pkt. updateResponse pkt port sf)"

definition fill_request :: "packet \<Rightarrow> bool" where
  "fill_request pkt \<longleftrightarrow> VALID_ADDR \<in> p_flags pkt \<and> CACHE_RESPONDING \<notin> p_flags pkt \<and> pkt_is FromCache pkt \<and>
     pkt_is NeedsResponse pkt \<and> \<not> rq_uncacheable (p_req pkt) \<and> \<not> isCacheMaintenance (p_req pkt)"

lemma sf_abs_upd:
  assumes "sf_abs sf' = (sf_abs sf)(line := (A, B))"
  shows "requesters sf' = (requesters sf)(line := A)" "holders sf' = (holders sf)(line := B)"
proof -
  have "requesters sf' l = ((requesters sf)(line := A)) l \<and> holders sf' l = ((holders sf)(line := B)) l" for l
    using fun_cong [OF assms, of l] by (auto simp: sf_abs_def split: if_splits)
  then show "requesters sf' = (requesters sf)(line := A)" "holders sf' = (holders sf)(line := B)" by (auto simp: fun_eq_iff)
qed

lemma track_request_ok:
  assumes "sf_inv sf" and m: "fill_request pkt" and p: "p \<in> set (sf_ports sf)" and "p \<notin> requesters sf (line_of (linesize sf) pkt)"
  defines "line \<equiv> line_of (linesize sf) pkt"
  shows "okE (track_request pkt p sf) (\<lambda>(ts, sf'). sf_inv sf' \<and> set (sf_ports sf') = set (sf_ports sf) \<and>
     line_of (linesize sf') = line_of (linesize sf) \<and> set ts = requesters sf line \<union> holders sf line - {p} \<and>
     requesters sf' = (requesters sf)(line := insert p (requesters sf line)) \<and> holders sf' = holders sf)"
proof -
  have "tracked sf p" using assms(1) p by (simp add: sf_inv_def wf_ports_def)
  then have a: "allocates pkt p" using m by (simp add: allocates_def fill_request_def tracked_def)
  have ok: "request_ok pkt p (requesters sf (line_of (linesize sf) pkt)) (holders sf (line_of (linesize sf) pkt))"
    using m assms(4) by (simp add: request_ok_def fill_request_def)
  obtain ports sf1 sf' where r: "lookupRequest pkt p sf = Inr ((ports, lookupLatency sf), sf1)"
    "set ports = requesters sf line \<union> holders sf line - {p}"
    "finishRequest False (p_addr pkt) (p_secure pkt) sf1 = Inr sf'" "sf_inv sf'" "same_ports sf sf'"
    "sf_abs sf' = (sf_abs sf)(line := request_spec pkt p (sf_abs sf line))"
    using request_tracked [OF assms(1) _ disjI1 [OF p] ok, of False] m a unfolding line_def by (auto simp: fill_request_def okE_iff)
  have sp: "request_spec pkt p (sf_abs sf line) = (insert p (requesters sf line), holders sf line)"
    using m by (simp add: request_spec_def fill_request_def sf_abs_def)
  have "requesters sf' = (requesters sf)(line := insert p (requesters sf line))" "holders sf' = holders sf"
    using sf_abs_upd [OF r(6) [unfolded sp]] by simp_all
  then show ?thesis using r by (simp add: track_request_def same_ports_def)
qed

lemma track_response_ok:
  assumes "sf_inv sf" and m: "fill_request pkt" and p: "p \<in> set (sf_ports sf)" and r: "p \<in> requesters sf (line_of (linesize sf) pkt)"
  defines "line \<equiv> line_of (linesize sf) pkt"
  shows "okE (track_response pkt p sf) (\<lambda>sf'. sf_inv sf' \<and> set (sf_ports sf') = set (sf_ports sf) \<and>
     line_of (linesize sf') = line_of (linesize sf) \<and>
     requesters sf' = (requesters sf)(line := requesters sf line - {p}) \<and> holders sf' = (holders sf)(line := insert p (holders sf line)))"
proof -
  let ?r = "clear_flag EXPRESS_SNOOP (pkt\<lparr>p_cmd := responseCommand (p_cmd pkt)\<rparr>)"
  have c: "makeResponse pkt = Inr ?r" using m by (simp add: makeResponse_ok fill_request_def)
  have l: "line_of (linesize sf) ?r = line" by (simp add: line_of_def line_def)
  have "map_of (cachedLocations sf) line \<noteq> None" using requested_none(2) [OF assms(1)] r by (auto simp: line_def)
  then have "okE (updateResponse ?r p sf) (\<lambda>sf'. sf_inv sf' \<and> same_ports sf sf' \<and>
        sf_abs sf' = (sf_abs sf)(line := response_spec ?r p (sf_abs sf line)))"
    using updateResponse_ok(3) [OF assms(1) _ _ _ p, of ?r] m r response_typed(1) [of "p_cmd pkt"]
    unfolding l by (auto simp: fill_request_def line_def)
  then obtain sf' where u: "updateResponse ?r p sf = Inr sf'" "sf_inv sf'" "same_ports sf sf'"
    "sf_abs sf' = (sf_abs sf)(line := response_spec ?r p (sf_abs sf line))" unfolding okE_iff by blast
  have sp: "response_spec ?r p (sf_abs sf line) = (requesters sf line - {p}, insert p (holders sf line))"
    using m by (simp add: response_spec_def fill_request_def sf_abs_def)
  have "requesters sf' = (requesters sf)(line := requesters sf line - {p})" "holders sf' = (holders sf)(line := insert p (holders sf line))"
    using sf_abs_upd [OF u(4) [unfolded sp]] by simp_all
  then show ?thesis using u c by (simp add: track_response_def same_ports_def)
qed

interpretation sft: line_tracker sf_inv "\<lambda>sf. set (sf_ports sf)" requesters holders fill_request "\<lambda>sf. line_of (linesize sf)"
    track_request track_response
  by unfold_locales (rule track_request_ok track_response_ok; assumption)+

text \<open>
  C15. No reader is forgotten: after any sequence of completed cacheable requests by the ports of the
  crossbar, the next request for a line is told to snoop exactly the ports that held the line before
  or read it in the sequence, except the requester; and no step of the sequence fails.
\<close>

theorem readers_are_snooped:
  assumes "sf_inv sf" and "\<And>l. requesters sf l = {}"
    and "\<And>m p. (m, p) \<in> set ts \<Longrightarrow> fill_request m \<and> p \<in> set (sf_ports sf)"
    and "fill_request m" and "q \<in> set (sf_ports sf)"
  shows "okE (bindE (foldE (\<lambda>(m, p) s. bindE (track_request m p s) (\<lambda>(_, s). track_response m p s)) ts sf) (track_request m q)) (\<lambda>(ps, _).
     set ps = (holders sf (line_of (linesize sf) m) \<union>
               {p. \<exists>m'. (m', p) \<in> set ts \<and> line_of (linesize sf) m' = line_of (linesize sf) m}) - {q})"
  by (rule sft.readers_known [OF assms])

section \<open>Example\<close>

definition demo_ports :: "resp_port list" where
  "demo_ports = [\<lparr>rp_id = 0, rp_snooping = True, rp_peer = ''generator0''\<rparr>, \<lparr>rp_id = 1, rp_snooping = True, rp_peer = ''dcache1''\<rparr>]"

definition demo_filter0 :: snoop_filter where
  "demo_filter0 =
     \<lparr>cachedLocations = [], lookup_it = None, retryItem = null_item, sf_ports = [], localResponsePortIds = [],
      linesize = 64, lookupLatency = 1, maxEntryCount = 64,
      sf_counts = \<lparr>totRequests = 0, hitSingleRequests = 0, hitMultiRequests = 0, totSnoops = 0, hitSingleSnoops = 0, hitMultiSnoops = 0\<rparr>\<rparr>"

definition demo_filter :: snoop_filter where
  "demo_filter = demo_filter0\<lparr>sf_ports := demo_ports, localResponsePortIds := [0, 1]\<rparr>"

definition demo_read :: packet where
  "demo_read = plain_packet ReadSharedReq (plain_request 1 128 64)"

lemma demo_filter_setup:
  "bindE (new_SnoopFilter 64 1 4096) (setCPUSidePorts demo_ports) = Inr demo_filter"
  by (simp add: new_SnoopFilter_def demo_filter_def demo_filter0_def setCPUSidePorts_def add_port_def demo_ports_def
      SNOOP_MASK_SIZE_def)

lemma demo_filter_inv: "sf_inv demo_filter" "\<And>l. sf_abs demo_filter l = ({}, {})"
proof -
  have "okE (setCPUSidePorts demo_ports demo_filter0) (\<lambda>sf'. sf_inv sf' \<and> sf_ports sf' = filter rp_snooping demo_ports \<and>
     linesize sf' = linesize demo_filter0 \<and> (\<forall>l. sf_abs sf' l = ({}, {})))"
    by (rule setCPUSidePorts_ok) (auto simp: demo_ports_def demo_filter0_def less_Suc_eq)
  moreover have "setCPUSidePorts demo_ports demo_filter0 = Inr demo_filter"
    using demo_filter_setup by (simp add: new_SnoopFilter_def demo_filter0_def)
  ultimately show "sf_inv demo_filter" "\<And>l. sf_abs demo_filter l = ({}, {})" by simp_all
qed

lemma demo_filter_sets: "requesters demo_filter l = {}" "holders demo_filter l = {}"
  using demo_filter_inv(2) [of l] by (simp_all add: sf_abs_def)

lemma demo_port: "demo_ports ! 0 \<in> set (sf_ports demo_filter)" "demo_ports ! 1 \<in> set (sf_ports demo_filter)"
  "demo_ports ! 0 \<noteq> demo_ports ! 1"
  by (simp_all add: demo_filter_def demo_ports_def)

lemma demo_fill: "fill_request demo_read"
proof -
  have "testCmdAttrib FromCache ReadSharedReq" "testCmdAttrib NeedsResponse ReadSharedReq" by code_simp+
  then show ?thesis by (simp add: fill_request_def demo_read_def plain_packet_def plain_request_def isCacheMaintenance_def)
qed

theorem request_refines_witness:
  "\<exists>sf1. lookupRequest demo_read (demo_ports ! 0) demo_filter = Inr (([], 1), sf1) \<and>
     okE (finishRequest False 128 False sf1) (\<lambda>sf'. demo_ports ! 0 \<in> requesters sf' 128)"
proof -
  have a: "allocates demo_read (demo_ports ! 0)"
    using demo_fill by (simp add: allocates_def fill_request_def demo_ports_def)
  have l: "line_of (linesize demo_filter) demo_read = 128"
    by (simp add: line_of_def demo_read_def demo_filter_def demo_filter0_def plain_packet_def plain_request_def block_addr_def)
  have "request_ok demo_read (demo_ports ! 0) (requesters demo_filter 128) (holders demo_filter 128)"
    using demo_fill by (simp add: request_ok_def fill_request_def demo_filter_sets)
  then have "\<exists>ports sf1. lookupRequest demo_read (demo_ports ! 0) demo_filter = Inr ((ports, lookupLatency demo_filter), sf1) \<and>
     set ports = {} \<and> okE (finishRequest False (p_addr demo_read) (p_secure demo_read) sf1) (\<lambda>sf'.
       sf_abs sf' = (sf_abs demo_filter)(128 := request_spec demo_read (demo_ports ! 0) ({}, {})))"
    using request_refines [OF demo_filter_inv(1) _ disjI1 [OF demo_port(1)], of demo_read False] a demo_fill
    unfolding l by (auto simp: fill_request_def demo_filter_sets demo_filter_inv(2) okE_iff)
  moreover have "lookupLatency demo_filter = 1" "p_addr demo_read = 128" "\<not> p_secure demo_read"
    by (simp_all add: demo_filter_def demo_filter0_def demo_read_def plain_packet_def plain_request_def)
  moreover have "request_spec demo_read (demo_ports ! 0) ({}, {}) = ({demo_ports ! 0}, {})"
    using demo_fill by (simp add: request_spec_def fill_request_def)
  ultimately show ?thesis
    using sf_abs_upd(1) [of _ demo_filter 128 "{demo_ports ! 0}" "{}"] by (fastforce elim!: okE_mono)
qed

theorem retry_restores_witness:
  "\<exists>r sf1. lookupRequest demo_read (demo_ports ! 0) demo_filter = Inr (r, sf1) \<and>
     okE (finishRequest True (p_addr demo_read) (p_secure demo_read) sf1) (\<lambda>sf2. cachedLocations sf2 = [])"
proof -
  obtain r sf1 where r: "lookupRequest demo_read (demo_ports ! 0) demo_filter = Inr (r, sf1)"
    using okE_returns [OF track_request_ok [OF demo_filter_inv(1) demo_fill demo_port(1)]]
    by (auto simp: demo_filter_sets track_request_def)
  have "map_of xs = map_of (cachedLocations demo_filter) \<Longrightarrow> xs = []" for xs :: "(u64 \<times> SnoopItem) list"
    by (cases xs) (auto simp: demo_filter_def demo_filter0_def fun_eq_iff split: if_splits)
  then show ?thesis using retry_restores [OF demo_filter_inv(1) r] r by (auto elim!: okE_mono)
qed

theorem readers_are_snooped_witness:
  "okE (bindE (foldE (\<lambda>(m, p) s. bindE (track_request m p s) (\<lambda>(_, s). track_response m p s))
         [(demo_read, demo_ports ! 0), (demo_read, demo_ports ! 1)] demo_filter) (track_request demo_read (demo_ports ! 0)))
     (\<lambda>(ps, _). set ps = {demo_ports ! 1})"
proof -
  let ?ts = "[(demo_read, demo_ports ! 0), (demo_read, demo_ports ! 1)]"
  have "okE (bindE (foldE (\<lambda>(m, p) s. bindE (track_request m p s) (\<lambda>(_, s). track_response m p s)) ?ts demo_filter)
         (track_request demo_read (demo_ports ! 0)))
     (\<lambda>(ps, _). set ps = (holders demo_filter (line_of (linesize demo_filter) demo_read) \<union>
        {p. \<exists>m'. (m', p) \<in> set ?ts \<and> line_of (linesize demo_filter) m' = line_of (linesize demo_filter) demo_read}) - {demo_ports ! 0})"
    by (rule readers_are_snooped [OF demo_filter_inv(1) demo_filter_sets(1) _ demo_fill demo_port(1)])
      (use demo_fill demo_port in auto)
  moreover have "(holders demo_filter (line_of (linesize demo_filter) demo_read) \<union>
        {p. \<exists>m'. (m', p) \<in> set ?ts \<and> line_of (linesize demo_filter) m' = line_of (linesize demo_filter) demo_read}) - {demo_ports ! 0}
      = {demo_ports ! 1}"
    using demo_port(3) unfolding demo_filter_sets by auto
  ultimately show ?thesis by (simp only:)
qed

theorem lookupSnoop_refines_witness:
  "okE (lookupSnoop demo_read demo_filter) (\<lambda>((ports, lat), sf'). ports = [] \<and> sf_inv sf')"
proof -
  have "testCmdAttrib IsRequest ReadSharedReq" "testCmdAttrib IsInvalidate ReadSharedReq = testCmdAttrib NeedsWritable ReadSharedReq"
    by code_simp+
  moreover have "p_cmd demo_read = ReadSharedReq" "VALID_ADDR \<in> p_flags demo_read" by (simp_all add: demo_read_def plain_packet_def)
  moreover have "length (cachedLocations demo_filter) < unat (maxEntryCount demo_filter)" by (simp add: demo_filter_def demo_filter0_def)
  ultimately show ?thesis using lookupSnoop_refines [OF demo_filter_inv(1), of demo_read] by (auto simp: demo_filter_sets elim!: okE_mono)
qed

theorem updateResponse_refines_witness:
  "\<exists>ts sf r. track_request demo_read (demo_ports ! 0) demo_filter = Inr (ts, sf) \<and> makeResponse demo_read = Inr r \<and>
     okE (updateResponse r (demo_ports ! 0) sf) (\<lambda>sf'. sf_inv sf')"
proof -
  obtain ts sf where s: "track_request demo_read (demo_ports ! 0) demo_filter = Inr (ts, sf)" "sf_inv sf"
    "set (sf_ports sf) = set (sf_ports demo_filter)" "line_of (linesize sf) = line_of (linesize demo_filter)"
    "requesters sf (line_of (linesize sf) demo_read) = {demo_ports ! 0}"
    using track_request_ok [OF demo_filter_inv(1) demo_fill demo_port(1)] by (auto simp: okE_iff demo_filter_sets)
  let ?r = "clear_flag EXPRESS_SNOOP (demo_read\<lparr>p_cmd := responseCommand (p_cmd demo_read)\<rparr>)"
  have r: "makeResponse demo_read = Inr ?r" using demo_fill by (simp add: makeResponse_ok fill_request_def)
  have l: "line_of (linesize sf) ?r = line_of (linesize sf) demo_read" by (simp add: line_of_def)
  have f: "VALID_ADDR \<in> p_flags ?r" "pkt_is IsResponse ?r" "\<not> rq_uncacheable (p_req ?r)" "demo_ports ! 0 \<in> set (sf_ports sf)"
    using demo_fill demo_port(1) s(3) response_typed(1) [of "p_cmd demo_read"] by (auto simp: fill_request_def)
  have "okE (updateResponse ?r (demo_ports ! 0) sf) (\<lambda>sf'. sf_inv sf')"
    using updateResponse_refines [OF s(2) f] s(5) unfolding l by (auto elim!: okE_mono)
  then show ?thesis using s(1) r by blast
qed

end
