(* ===== verification/Clocked.thy ===== *)
theory Clocked
  imports Prelude
begin

text \<open>
  Clocked objects (\<open>gem5/src/sim/clocked_object.hh\<close>): the next clock edge and the cycle counter, brought
  up to date lazily.  Ticks and cycles have 64 bits and wrap; the current tick is an argument.
\<close>

record clocked =
  ck_tick :: u64
  ck_cycle :: u64
  ck_period :: u64

definition new_Clocked :: "u64 \<Rightarrow> clocked" where
  "new_Clocked period = \<lparr>ck_tick = 0, ck_cycle = 0, ck_period = period\<rparr>"

definition divCeil :: "u64 \<Rightarrow> u64 \<Rightarrow> u64 res" where
  "divCeil a b = (if b = 0 then Inl DivByZero else Inr ((a + b - 1) div b))"

definition ck_update :: "u64 \<Rightarrow> clocked \<Rightarrow> clocked res" where
  "ck_update curTick c =
     (if curTick \<le> ck_tick c then Inr c
      else
        let c = c\<lparr>ck_tick := ck_tick c + ck_period c, ck_cycle := ck_cycle c + 1\<rparr>
        in if curTick \<le> ck_tick c then Inr c
           else
             bindE (divCeil (curTick - ck_tick c) (ck_period c)) (\<lambda>elapsedCycles.
             Inr (c\<lparr>ck_tick := ck_tick c + elapsedCycles * ck_period c, ck_cycle := ck_cycle c + elapsedCycles\<rparr>)))"

definition resetClock :: "u64 \<Rightarrow> clocked \<Rightarrow> clocked res" where
  "resetClock curTick c =
     bindE (divCeil curTick (ck_period c)) (\<lambda>elapsedCycles.
     Inr (c\<lparr>ck_tick := elapsedCycles * ck_period c, ck_cycle := elapsedCycles\<rparr>))"

definition clockEdge :: "u64 \<Rightarrow> u64 \<Rightarrow> clocked \<Rightarrow> (u64 \<times> clocked) res" where
  "clockEdge curTick cycles c = bindE (ck_update curTick c) (\<lambda>c. Inr (ck_tick c + ck_period c * cycles, c))"

definition curCycle :: "u64 \<Rightarrow> clocked \<Rightarrow> (u64 \<times> clocked) res" where
  "curCycle curTick c = bindE (ck_update curTick c) (\<lambda>c. Inr (ck_cycle c, c))"

definition nextCycle :: "u64 \<Rightarrow> clocked \<Rightarrow> (u64 \<times> clocked) res" where
  "nextCycle curTick c = clockEdge curTick 1 c"

definition ticksToCycles :: "u64 \<Rightarrow> clocked \<Rightarrow> u64 res" where
  "ticksToCycles t c = divCeil t (ck_period c)"

definition cyclesToTicks :: "u64 \<Rightarrow> clocked \<Rightarrow> u64" where
  "cyclesToTicks n c = ck_period c * n"

section \<open>The edge\<close>

text \<open>A clock that is running at tick \<open>t\<close>: the period is positive and far from the end of time, and the edge is not further away than one period.\<close>

definition clock_ok :: "u64 \<Rightarrow> clocked \<Rightarrow> bool" where
  "clock_ok t c \<longleftrightarrow> 0 < ck_period c \<and> unat t + 2 * unat (ck_period c) < 2 ^ 64 \<and> unat (ck_tick c) < unat t + unat (ck_period c)"

lemma divCeil_exact:
  assumes "0 < b" and "unat a + unat b < 2 ^ 64"
  shows "\<exists>e. divCeil a b = Inr e \<and> unat e = (unat a + unat b - 1) div unat b"
proof -
  have "0 < unat b" using assms(1) by (simp add: unat_gt_0)
  have s: "unat (a + b) = unat a + unat b" using assms(2) by (subst unat_add_lem [THEN iffD1]) simp_all
  have "1 \<le> a + b" using \<open>0 < unat b\<close> s by (simp add: word_le_nat_alt)
  then have "unat (a + b - 1) = unat a + unat b - 1" by (subst unat_sub) (simp_all add: s)
  then show ?thesis using assms(1) by (simp add: divCeil_def unat_div_distrib)
qed

lemma least_edge:
  assumes "0 < (p :: nat)" and "t < n"
  shows "n \<le> t + (n - t + p - 1) div p * p" "t + (n - t + p - 1) div p * p < n + p"
proof -
  have m: "(n - t + p - 1) div p * p + (n - t + p - 1) mod p = n - t + p - 1" by simp
  have "(n - t + p - 1) mod p < p" using assms(1) by simp
  then show "n \<le> t + (n - t + p - 1) div p * p" "t + (n - t + p - 1) div p * p < n + p" using m assms by linarith+
qed

text \<open>Bringing the clock up to date moves it by whole cycles to the first edge that is not before the current tick.\<close>

lemma ck_update_exact:
  assumes "clock_ok t c"
  shows "\<exists>c' k. ck_update t c = Inr c' \<and> unat (ck_tick c') = unat (ck_tick c) + k * unat (ck_period c) \<and>
     ck_cycle c' = ck_cycle c + of_nat k \<and> ck_period c' = ck_period c \<and> t \<le> ck_tick c' \<and> clock_ok t c'"
proof (cases "t \<le> ck_tick c")
  case True
  then show ?thesis using assms by (intro exI [of _ c] exI [of _ 0]) (simp add: ck_update_def)
next
  case False
  let ?p = "unat (ck_period c)" and ?n = "unat t" and ?t = "unat (ck_tick c)"
  let ?c = "c\<lparr>ck_tick := ck_tick c + ck_period c, ck_cycle := ck_cycle c + 1\<rparr>"
  have p: "0 < ?p" "?n + 2 * ?p < 2 ^ 64" "?t < ?n"
    using assms False by (auto simp: clock_ok_def unat_gt_0 word_le_nat_alt)
  have t1: "unat (ck_tick c + ck_period c) = ?t + ?p" using p by (subst unat_add_lem [THEN iffD1]) simp_all
  show ?thesis
  proof (cases "t \<le> ck_tick c + ck_period c")
    case True
    then show ?thesis using False assms p t1
      by (intro exI [of _ ?c] exI [of _ 1]) (simp add: ck_update_def clock_ok_def)
  next
    case later: False
    have d: "unat (t - (ck_tick c + ck_period c)) = ?n - (?t + ?p)"
      using later t1 by (subst unat_sub) (simp_all add: word_le_nat_alt)
    have "0 < ck_period c" using assms by (simp add: clock_ok_def)
    moreover have "unat (t - (ck_tick c + ck_period c)) + ?p < 2 ^ 64" using p unfolding d by linarith
    ultimately obtain e where e: "divCeil (t - (ck_tick c + ck_period c)) (ck_period c) = Inr e" "unat e = (?n - (?t + ?p) + ?p - 1) div ?p"
      using divCeil_exact [of "ck_period c" "t - (ck_tick c + ck_period c)"] unfolding d by blast
    have lt: "?t + ?p < ?n" using later t1 by (simp add: word_le_nat_alt)
    note le = least_edge [OF p(1) lt, folded e(2)]
    have mul: "unat (e * ck_period c) = unat e * ?p" using le p by (subst unat_mult_lem [THEN iffD1]) simp_all
    have "unat (ck_tick c + ck_period c + e * ck_period c) = ?t + ?p + unat e * ?p"
      using le p t1 mul by (subst unat_add_lem [THEN iffD1]) simp_all
    then show ?thesis using False later e(1) le assms
      by (intro exI [of _ "?c\<lparr>ck_tick := ck_tick c + ck_period c + e * ck_period c, ck_cycle := ck_cycle c + 1 + e\<rparr>"] exI [of _ "unat e + 1"])
        (simp add: ck_update_def clock_ok_def word_le_nat_alt algebra_simps)
  qed
qed

lemma clockEdge_now:
  assumes "clock_ok t c"
  shows "okE (clockEdge t 0 c) (\<lambda>(e, c'). t \<le> e \<and> clock_ok t c' \<and> ck_period c' = ck_period c \<and> unat e < unat t + unat (ck_period c))"
  using ck_update_exact [OF assms] by (auto simp: clockEdge_def clock_ok_def)

lemma clock_ok_later:
  assumes "clock_ok t c" and "t \<le> u" and "unat u + 2 * unat (ck_period c) < 2 ^ 64"
  shows "clock_ok u c"
  using assms by (auto simp: clock_ok_def word_le_nat_alt)

text \<open>A clock whose edge is the one its cycle counter counts.\<close>

definition ck_aligned :: "clocked \<Rightarrow> bool" where
  "ck_aligned c \<longleftrightarrow> unat (ck_tick c) = unat (ck_cycle c) * unat (ck_period c)"

lemma ck_update_aligned:
  assumes "clock_ok t c" and "ck_aligned c" and "ck_update t c = Inr c'"
  shows "ck_aligned c'"
proof -
  let ?p = "unat (ck_period c)"
  obtain k where k: "unat (ck_tick c') = unat (ck_tick c) + k * ?p" "ck_cycle c' = ck_cycle c + of_nat k" "ck_period c' = ck_period c"
    using ck_update_exact [OF assms(1)] assms(3) by auto
  have p: "0 < ?p" using assms(1) by (auto simp: clock_ok_def unat_gt_0)
  have t: "unat (ck_tick c') = (unat (ck_cycle c) + k) * ?p" using k(1) assms(2) by (simp add: ck_aligned_def algebra_simps)
  have "unat (ck_cycle c) + k \<le> unat (ck_tick c')" unfolding t using p by simp
  then have "unat (ck_cycle c) + k < 2 ^ 64" using unsigned_less [of "ck_tick c'", where ?'a = nat] by simp
  then have "unat (ck_cycle c') = unat (ck_cycle c) + k"
    unfolding k(2) by (simp add: unat_word_ariths unat_of_nat)
  then show ?thesis using t k(3) by (simp add: ck_aligned_def)
qed

text \<open>
  C22. The edges of a clock are where its documentation puts them: the edge \<open>n\<close> cycles ahead of tick \<open>t\<close> is
  \<open>t\<close> plus less than a period plus \<open>n\<close> periods.  It is a multiple of the period, namely the one that the cycle counter
  names, and the counter stays in step with the edge, however the clock skipped cycles in between.
\<close>

theorem clockEdge_documented:
  assumes "clock_ok t c" and "ck_aligned c" and "unat t + unat (ck_period c) * (unat n + 1) < 2 ^ 64"
  shows "okE (clockEdge t n c) (\<lambda>(e, c'). (\<exists>d < unat (ck_period c). unat e = unat t + d + unat (ck_period c) * unat n) \<and>
     unat e = (unat (ck_cycle c') + unat n) * unat (ck_period c) \<and>
     curCycle t c = Inr (ck_cycle c', c') \<and> ck_aligned c' \<and> clock_ok t c')"
proof -
  let ?p = "unat (ck_period c)"
  obtain c' where c': "ck_update t c = Inr c'" "ck_period c' = ck_period c" "t \<le> ck_tick c'" "clock_ok t c'"
    using ck_update_exact [OF assms(1)] by blast
  have al: "ck_aligned c'" by (rule ck_update_aligned [OF assms(1,2) c'(1)])
  have lt: "unat (ck_tick c') < unat t + ?p" "unat t \<le> unat (ck_tick c')"
    using c'(2-4) by (auto simp: clock_ok_def word_le_nat_alt)
  have sum: "unat (ck_tick c') + ?p * unat n < 2 ^ 64" using lt(1) assms(3) by (simp add: algebra_simps)
  then have m: "unat (ck_period c * n) = ?p * unat n" by (simp add: unat_word_ariths)
  then have e: "unat (ck_tick c' + ck_period c * n) = unat (ck_tick c') + ?p * unat n"
    using sum by (simp add: unat_word_ariths)
  have "\<exists>d < ?p. unat (ck_tick c' + ck_period c * n) = unat t + d + ?p * unat n"
    unfolding e using lt by (intro exI [of _ "unat (ck_tick c') - unat t"]) simp
  moreover have "unat (ck_tick c' + ck_period c * n) = (unat (ck_cycle c') + unat n) * ?p"
    unfolding e using al c'(2) by (simp add: ck_aligned_def algebra_simps)
  ultimately show ?thesis using c' al by (simp add: clockEdge_def curCycle_def)
qed

theorem clockEdge_documented_witness:
  "okE (clockEdge 25 3 (new_Clocked 10)) (\<lambda>(e, c'). 55 \<le> unat e \<and> unat e < 65 \<and> unat e = (unat (ck_cycle c') + 3) * 10)"
proof -
  have "clock_ok 25 (new_Clocked 10)" "ck_aligned (new_Clocked 10)" "unat (25 :: u64) + unat (ck_period (new_Clocked 10)) * (unat (3 :: u64) + 1) < 2 ^ 64"
    by (simp_all add: clock_ok_def ck_aligned_def new_Clocked_def)
  from clockEdge_documented [OF this] show ?thesis
    by (rule okE_mono) (auto simp: new_Clocked_def)
qed

end
