(* ===== verification/XBar_Layer.thy ===== *)
theory XBar_Layer
  imports Clocked
begin

text \<open>
  The flow control of a crossbar (\<open>gem5/src/mem/xbar.hh\<close>, \<open>xbar.cc\<close>): a layer is the arbitration point
  in front of one destination port.  It is idle, busy until its release event, or retrying; ports that
  find it busy wait in a queue, and a port whose packet the peer refused waits for the peer.  A source port is
  its number.  Telling a port to retry calls back into the layer when the port sends at once: that callback is
  an argument, and the operations work on any extension of the layer's record, so that an observer behind the
  callback can keep a state of its own.
\<close>

section \<open>The layer\<close>

datatype layer_state = IDLE | BUSY | RETRY

datatype DrainState = Running | Draining | Drained | Resuming

text \<open>\<open>ly_now\<close> is \<open>curTick()\<close> and \<open>ly_clock\<close> the clock of the crossbar.\<close>

record layer =
  ly_state :: layer_state
  waitingForLayer :: "nat list"
  waitingForPeer :: "nat option"
  releaseEvent :: "u64 option"
  occupancy :: nat
  drainState :: DrainState
  ly_now :: u64
  ly_clock :: clocked

definition new_Layer :: "u64 \<Rightarrow> u64 \<Rightarrow> layer" where
  "new_Layer now period =
     \<lparr>ly_state = IDLE, waitingForLayer = [], waitingForPeer = None, releaseEvent = None, occupancy = 0,
      drainState = Running, ly_now = now, ly_clock = new_Clocked period\<rparr>"

text \<open>\<open>schedule\<close> with the assertions of the event queue.\<close>

definition schedule_release :: "u64 \<Rightarrow> 'a layer_scheme \<Rightarrow> 'a layer_scheme res" where
  "schedule_release when l =
     bindE (guardE (ly_now l \<le> when) (AssertFail ''when >= getCurTick()'')) (\<lambda>_.
     bindE (guardE (releaseEvent l = None) (AssertFail ''!event->scheduled()'')) (\<lambda>_.
     Inr (l\<lparr>releaseEvent := Some when\<rparr>)))"

definition occupyLayer :: "u64 \<Rightarrow> 'a layer_scheme \<Rightarrow> 'a layer_scheme res" where
  "occupyLayer until l =
     bindE (guardE (ly_state l = BUSY) (AssertFail ''state == BUSY'')) (\<lambda>_.
     bindE (guardE (until \<noteq> 0) (AssertFail ''until != 0'')) (\<lambda>_.
     bindE (schedule_release until l) (\<lambda>l.
     Inr (l\<lparr>occupancy := occupancy l + unat (until - ly_now l)\<rparr>))))"

definition tryTiming :: "nat \<Rightarrow> 'a layer_scheme \<Rightarrow> (bool \<times> 'a layer_scheme) res" where
  "tryTiming src_port l =
     (if ly_state l = BUSY \<or> waitingForPeer l \<noteq> None then
        bindE (guardE (src_port \<notin> set (waitingForLayer l)) (AssertFail ''std::find(...) == waitingForLayer.end()'')) (\<lambda>_.
        Inr (False, l\<lparr>waitingForLayer := waitingForLayer l @ [src_port]\<rparr>))
      else Inr (True, l\<lparr>ly_state := BUSY\<rparr>))"

definition succeededTiming :: "u64 \<Rightarrow> 'a layer_scheme \<Rightarrow> 'a layer_scheme res" where
  "succeededTiming busy_time l =
     bindE (guardE (ly_state l = BUSY) (AssertFail ''state == BUSY'')) (\<lambda>_. occupyLayer busy_time l)"

definition failedTiming :: "nat \<Rightarrow> u64 \<Rightarrow> 'a layer_scheme \<Rightarrow> 'a layer_scheme res" where
  "failedTiming src_port busy_time l =
     bindE (guardE (waitingForPeer l = None) (AssertFail ''waitingForPeer == NULL'')) (\<lambda>_.
     let l = l\<lparr>waitingForPeer := Some src_port\<rparr> in
     bindE (guardE (ly_state l = BUSY) (AssertFail ''state == BUSY'')) (\<lambda>_.
     occupyLayer busy_time l))"

definition retryWaiting :: "(nat \<Rightarrow> 'a layer_scheme \<Rightarrow> 'a layer_scheme res) \<Rightarrow> 'a layer_scheme \<Rightarrow> 'a layer_scheme res" where
  "retryWaiting sendRetry l =
     bindE (guardE (waitingForLayer l \<noteq> []) (AssertFail ''!waitingForLayer.empty()'')) (\<lambda>_.
     bindE (guardE (ly_state l = IDLE) (AssertFail ''state == IDLE'')) (\<lambda>_.
     bindE (sendRetry (hd (waitingForLayer l)) (l\<lparr>ly_state := RETRY, waitingForLayer := tl (waitingForLayer l)\<rparr>)) (\<lambda>l.
     if ly_state l = RETRY then
       let l = l\<lparr>ly_state := BUSY\<rparr> in
       bindE (clockEdge (ly_now l) 0 (ly_clock l)) (\<lambda>(edge, c). occupyLayer edge (l\<lparr>ly_clock := c\<rparr>))
     else Inr l)))"

definition releaseLayer :: "(nat \<Rightarrow> 'a layer_scheme \<Rightarrow> 'a layer_scheme res) \<Rightarrow> 'a layer_scheme \<Rightarrow> 'a layer_scheme res" where
  "releaseLayer sendRetry l =
     bindE (guardE (ly_state l = BUSY) (AssertFail ''state == BUSY'')) (\<lambda>_.
     bindE (guardE (releaseEvent l = None) (AssertFail ''!releaseEvent.scheduled()'')) (\<lambda>_.
     let l = l\<lparr>ly_state := IDLE\<rparr> in
     if waitingForLayer l \<noteq> [] then
       if waitingForPeer l = None then retryWaiting sendRetry l else Inr l
     else if waitingForPeer l = None \<and> drainState l = Draining then Inr (l\<lparr>drainState := Drained\<rparr>)
     else Inr l))"

definition recvRetry :: "(nat \<Rightarrow> 'a layer_scheme \<Rightarrow> 'a layer_scheme res) \<Rightarrow> 'a layer_scheme \<Rightarrow> 'a layer_scheme res" where
  "recvRetry sendRetry l =
     (case waitingForPeer l of
        None \<Rightarrow> Inl (AssertFail ''waitingForPeer != NULL'')
      | Some p \<Rightarrow>
          let l = l\<lparr>waitingForLayer := p # waitingForLayer l, waitingForPeer := None\<rparr> in
          if ly_state l = IDLE then retryWaiting sendRetry l
          else bindE (guardE (ly_state l = BUSY) (AssertFail ''state == BUSY'')) (\<lambda>_. Inr l))"

definition layer_drain :: "'a layer_scheme \<Rightarrow> DrainState" where
  "layer_drain l = (if ly_state l \<noteq> IDLE then Draining else Drained)"

section \<open>Ports around the layer\<close>

text \<open>
  What a crossbar does for a packet of a port: if the layer takes it, it is sent on, and the layer is
  occupied until \<open>busy\<close>, whether the peer accepts the packet or not.
\<close>

definition present :: "nat \<Rightarrow> bool \<Rightarrow> u64 \<Rightarrow> 'a layer_scheme \<Rightarrow> 'a layer_scheme res" where
  "present p accepted busy l =
     bindE (tryTiming p l) (\<lambda>(taken, l).
     if \<not> taken then Inr l
     else if accepted then succeededTiming busy l
     else failedTiming p busy l)"

text \<open>
  The ports' side records which port each call of \<open>sendRetry\<close> names.  The port that is told to retry sends at once
  (whether the peer accepts, and until when the layer is busy then), or not.
\<close>

record observed_layer = layer +
  told :: "nat list"

definition observed :: "layer \<Rightarrow> observed_layer" where
  "observed l =
     \<lparr>ly_state = ly_state l, waitingForLayer = waitingForLayer l, waitingForPeer = waitingForPeer l,
      releaseEvent = releaseEvent l, occupancy = occupancy l, drainState = drainState l, ly_now = ly_now l,
      ly_clock = ly_clock l, told = []\<rparr>"

type_synonym reaction = "(bool \<times> u64) option"

definition react :: "reaction \<Rightarrow> nat \<Rightarrow> observed_layer \<Rightarrow> observed_layer res" where
  "react r p l =
     (let l = l\<lparr>told := told l @ [p]\<rparr>
      in case r of None \<Rightarrow> Inr l | Some (accepted, busy) \<Rightarrow> present p accepted busy l)"

datatype layer_action =
    Present nat bool u64
  | Release reaction
  | PeerRetry reaction
  | Pass u64               \<comment> \<open>time passes\<close>
  | Drain

definition layer_do :: "layer_action \<Rightarrow> observed_layer \<Rightarrow> observed_layer res" where
  "layer_do a l =
     (case a of
        Present p accepted busy \<Rightarrow> present p accepted busy l
      | Release r \<Rightarrow> (case releaseEvent l of None \<Rightarrow> Inr l
          | Some t \<Rightarrow> releaseLayer (react r) (l\<lparr>releaseEvent := None, ly_now := t\<rparr>))
      | PeerRetry r \<Rightarrow> recvRetry (react r) l
      | Pass t \<Rightarrow> Inr (l\<lparr>ly_now := t\<rparr>)
      | Drain \<Rightarrow> Inr (l\<lparr>drainState := layer_drain l\<rparr>))"

text \<open>
  The protocol of timing ports: a port that was refused does not send again before it is told to retry, and a peer
  sends a retry only after it refused a packet.  A layer is occupied for a time in the future, and the release event
  fires at its tick.
\<close>

definition in_time :: "u64 \<Rightarrow> u64 \<Rightarrow> 'a layer_scheme \<Rightarrow> bool" where
  "in_time t u l \<longleftrightarrow> t \<le> u \<and> u \<noteq> 0 \<and> unat u + 2 * unat (ck_period (ly_clock l)) < 2 ^ 64"

definition reaction_ok :: "u64 \<Rightarrow> reaction \<Rightarrow> 'a layer_scheme \<Rightarrow> bool" where
  "reaction_ok t r l \<longleftrightarrow> (case r of None \<Rightarrow> unat t + 3 * unat (ck_period (ly_clock l)) < 2 ^ 64 | Some (_, busy) \<Rightarrow> in_time t busy l)"

definition layer_enabled :: "layer_action \<Rightarrow> observed_layer \<Rightarrow> bool" where
  "layer_enabled a l =
     (case a of
        Present p _ busy \<Rightarrow> p \<notin> set (waitingForLayer l) \<and> waitingForPeer l \<noteq> Some p \<and> in_time (ly_now l) busy l
      | Release r \<Rightarrow> (case releaseEvent l of None \<Rightarrow> False | Some t \<Rightarrow> reaction_ok t r l)
      | PeerRetry r \<Rightarrow> waitingForPeer l \<noteq> None \<and> reaction_ok (ly_now l) r l
      | Pass t \<Rightarrow> in_time (ly_now l) t l \<and> (case releaseEvent l of None \<Rightarrow> True | Some u \<Rightarrow> t \<le> u)
      | Drain \<Rightarrow> True)"

inductive layer_run :: "observed_layer \<Rightarrow> layer_action list \<Rightarrow> observed_layer \<Rightarrow> bool" for l0 where
  run_Nil: "layer_run l0 [] l0"
| run_snoc: "layer_run l0 as l \<Longrightarrow> layer_enabled a l \<Longrightarrow> layer_do a l = Inr l' \<Longrightarrow> layer_run l0 (as @ [a]) l'"

inductive_cases run_NilE: "layer_run l0 [] l"
inductive_cases run_snocE: "layer_run l0 (as @ [a]) l"

section \<open>The invariant\<close>

text \<open>
  Between two actions the layer is busy exactly while its release event is scheduled; an idle layer with waiting ports
  waits for its peer; no port waits twice.
\<close>

definition waiters :: "'a layer_scheme \<Rightarrow> nat list" where
  "waiters l = (case waitingForPeer l of None \<Rightarrow> [] | Some p \<Rightarrow> [p]) @ waitingForLayer l"

definition layer_inv :: "'a layer_scheme \<Rightarrow> bool" where
  "layer_inv l \<longleftrightarrow> ly_state l \<noteq> RETRY \<and> (ly_state l = BUSY \<longleftrightarrow> releaseEvent l \<noteq> None) \<and>
     (case releaseEvent l of None \<Rightarrow> True | Some t \<Rightarrow> in_time (ly_now l) t l) \<and>
     (ly_state l = IDLE \<and> waitingForLayer l \<noteq> [] \<longrightarrow> waitingForPeer l \<noteq> None) \<and>
     (ly_state l = IDLE \<and> waitingForPeer l \<noteq> None \<longrightarrow> ly_now l \<noteq> 0) \<and>
     distinct (waiters l) \<and> clock_ok (ly_now l) (ly_clock l)"

named_theorems layer_ops
declare occupyLayer_def [layer_ops] schedule_release_def [layer_ops] succeededTiming_def [layer_ops] failedTiming_def [layer_ops]
  tryTiming_def [layer_ops] present_def [layer_ops] react_def [layer_ops] Let_def [layer_ops]

lemma in_time_fields [simp]:
  "in_time t u (l\<lparr>ly_state := a\<rparr>) = in_time t u l" "in_time t u (l\<lparr>waitingForLayer := b\<rparr>) = in_time t u l"
  "in_time t u (l\<lparr>waitingForPeer := c\<rparr>) = in_time t u l" "in_time t u (l\<lparr>releaseEvent := d\<rparr>) = in_time t u l"
  "in_time t u (l\<lparr>occupancy := e\<rparr>) = in_time t u l" "in_time t u (l\<lparr>ly_now := f\<rparr>) = in_time t u l"
  "in_time t u (l\<lparr>drainState := g\<rparr>) = in_time t u l"
  "in_time t u (k\<lparr>told := h\<rparr>) = in_time t u k"
  by (simp_all add: in_time_def)

lemma reaction_ok_fields [simp]:
  "reaction_ok t r (l\<lparr>ly_state := a\<rparr>) = reaction_ok t r l" "reaction_ok t r (l\<lparr>waitingForLayer := b\<rparr>) = reaction_ok t r l"
  "reaction_ok t r (l\<lparr>waitingForPeer := c\<rparr>) = reaction_ok t r l" "reaction_ok t r (l\<lparr>releaseEvent := d\<rparr>) = reaction_ok t r l"
  "reaction_ok t r (l\<lparr>ly_now := f\<rparr>) = reaction_ok t r l"
  by (auto simp: reaction_ok_def split: option.splits)

text \<open>A retry: the first waiting port leaves the queue, and the layer is busy afterwards.\<close>

lemma retryWaiting_ok:
  assumes "ly_state l = IDLE" "waitingForLayer l = p # ws" "waitingForPeer l = None" "releaseEvent l = None"
    and "distinct (p # ws)" "ly_now l \<noteq> 0" "clock_ok (ly_now l) (ly_clock l)" "reaction_ok (ly_now l) r l"
  shows "okE (retryWaiting (react r) l) (\<lambda>l'. layer_inv l' \<and> ly_state l' = BUSY \<and> waitingForLayer l' = ws \<and>
     waitingForPeer l' = (case r of Some (False, _) \<Rightarrow> Some p | _ \<Rightarrow> None) \<and> told l' = told l @ [p])"
proof (cases r)
  case None
  let ?c = "ly_clock l"
  obtain e c where e: "clockEdge (ly_now l) 0 ?c = Inr (e, c)" "ly_now l \<le> e" "clock_ok (ly_now l) c"
    "unat e < unat (ly_now l) + unat (ck_period ?c)" "ck_period c = ck_period ?c"
    using clockEdge_now [OF assms(7)] by (auto simp: okE_iff)
  have "e \<noteq> 0" using e(2) assms(6) by auto
  moreover have "unat e + 2 * unat (ck_period c) < 2 ^ 64" using assms(8) e(4,5) by (simp add: reaction_ok_def None)
  ultimately show ?thesis using assms(1-5) e
    by (simp add: retryWaiting_def None layer_ops layer_inv_def waiters_def in_time_def)
next
  case (Some ab)
  then show ?thesis using assms
    by (cases ab; cases "fst ab") (simp_all add: retryWaiting_def layer_ops layer_inv_def waiters_def reaction_ok_def in_time_def)
qed

text \<open>What an action does to the queue when the peer is not waited for and accepts everything.\<close>

definition accepting :: "layer_action \<Rightarrow> bool" where
  "accepting a = (case a of Present _ accepted _ \<Rightarrow> accepted | Release (Some (accepted, _)) \<Rightarrow> accepted | PeerRetry _ \<Rightarrow> False | _ \<Rightarrow> True)"

definition is_Release :: "layer_action \<Rightarrow> bool" where
  "is_Release a = (case a of Release _ \<Rightarrow> True | _ \<Rightarrow> False)"

definition in_order :: "layer_action \<Rightarrow> observed_layer \<Rightarrow> observed_layer \<Rightarrow> bool" where
  "in_order a l l' \<longleftrightarrow> (waitingForPeer l = None \<and> accepting a \<longrightarrow> waitingForPeer l' = None \<and>
     told l' = told l @ take (if is_Release a then 1 else 0) (waitingForLayer l) \<and>
     (\<exists>new. waitingForLayer l' = drop (if is_Release a then 1 else 0) (waitingForLayer l) @ new))"

lemma present_ok:
  assumes "layer_inv l" and "layer_enabled (Present p acc busy) l"
  shows "okE (present p acc busy l) (\<lambda>l'. layer_inv l' \<and> in_order (Present p acc busy) l l')"
proof (cases "ly_state l = BUSY \<or> waitingForPeer l \<noteq> None")
  case True
  then show ?thesis using assms
    by (auto simp: layer_ops layer_enabled_def layer_inv_def waiters_def in_order_def is_Release_def split: option.splits)
next
  case False
  then have "ly_state l = IDLE" "releaseEvent l = None" "waitingForLayer l = []" "waitingForPeer l = None"
    using assms(1) by (cases "ly_state l"; simp add: layer_inv_def)+
  then show ?thesis using assms
    by (cases acc) (simp_all add: layer_ops layer_enabled_def layer_inv_def waiters_def in_order_def is_Release_def in_time_def accepting_def)
qed

lemma release_ok:
  assumes "layer_inv l" and "layer_enabled (Release r) l"
  shows "okE (layer_do (Release r) l) (\<lambda>l'. layer_inv l' \<and> in_order (Release r) l l')"
proof -
  obtain t where t: "releaseEvent l = Some t" "reaction_ok t r l" using assms(2) by (auto simp: layer_enabled_def split: option.splits)
  note i = assms(1) [unfolded layer_inv_def t(1), simplified]
  let ?l = "l\<lparr>releaseEvent := None, ly_now := t, ly_state := IDLE\<rparr>"
  have c: "clock_ok t (ly_clock l)" "t \<noteq> 0" using i clock_ok_later by (auto simp: in_time_def)
  show ?thesis
  proof (cases "waitingForPeer l = None \<and> waitingForLayer l \<noteq> []")
    case True
    then obtain p ws where w: "waitingForLayer l = p # ws" by (cases "waitingForLayer l") auto
    have "okE (retryWaiting (react r) ?l) (\<lambda>l'. layer_inv l' \<and> ly_state l' = BUSY \<and> waitingForLayer l' = ws \<and>
       waitingForPeer l' = (case r of Some (False, _) \<Rightarrow> Some p | _ \<Rightarrow> None) \<and> told l' = told ?l @ [p])"
      using True w i c t by (intro retryWaiting_ok) (simp_all add: waiters_def)
    then have "okE (retryWaiting (react r) ?l) (\<lambda>l'. layer_inv l' \<and> in_order (Release r) l l')"
      by (rule okE_mono) (auto simp: in_order_def accepting_def is_Release_def w split: option.splits bool.splits)
    then show ?thesis using True i t(1) by (simp add: layer_do_def releaseLayer_def Let_def)
  next
    case False
    then show ?thesis using i c t(1)
      by (auto simp: layer_do_def releaseLayer_def Let_def layer_inv_def in_order_def is_Release_def waiters_def)
  qed
qed

lemma peer_retry_ok:
  assumes "layer_inv l" and "layer_enabled (PeerRetry r) l"
  shows "okE (layer_do (PeerRetry r) l) (\<lambda>l'. layer_inv l' \<and> in_order (PeerRetry r) l l')"
proof -
  obtain p where p: "waitingForPeer l = Some p" "reaction_ok (ly_now l) r l" using assms(2) by (auto simp: layer_enabled_def)
  note i = assms(1) [unfolded layer_inv_def]
  let ?l = "l\<lparr>waitingForLayer := p # waitingForLayer l, waitingForPeer := None\<rparr>"
  have o: "in_order (PeerRetry r) l l'" for l' by (simp add: in_order_def p(1))
  show ?thesis
  proof (cases "ly_state l = IDLE")
    case True
    have "okE (retryWaiting (react r) ?l) (\<lambda>l'. layer_inv l' \<and> ly_state l' = BUSY \<and> waitingForLayer l' = waitingForLayer l \<and>
       waitingForPeer l' = (case r of Some (False, _) \<Rightarrow> Some p | _ \<Rightarrow> None) \<and> told l' = told ?l @ [p])"
      using True i p by (intro retryWaiting_ok) (simp_all add: waiters_def)
    then have "okE (retryWaiting (react r) ?l) (\<lambda>l'. layer_inv l' \<and> in_order (PeerRetry r) l l')"
      by (rule okE_mono) (simp add: o)
    then show ?thesis using True p(1) by (simp add: layer_do_def recvRetry_def Let_def)
  next
    case False
    then have "ly_state l = BUSY" using i by (cases "ly_state l") auto
    then show ?thesis using i p(1) o
      by (auto simp: layer_do_def recvRetry_def Let_def layer_inv_def waiters_def)
  qed
qed

lemma layer_step_ok:
  assumes "layer_inv l" and "layer_enabled a l"
  shows "okE (layer_do a l) (\<lambda>l'. layer_inv l' \<and> in_order a l l')"
proof (cases a)
  case (Present p acc busy)
  then show ?thesis using present_ok [OF assms(1)] assms(2) by (simp add: layer_do_def)
next
  case (Release r)
  then show ?thesis using release_ok [OF assms(1)] assms(2) by simp
next
  case (PeerRetry r)
  then show ?thesis using peer_retry_ok [OF assms(1)] assms(2) by simp
next
  case (Pass t)
  have "clock_ok t (ly_clock l)" using assms clock_ok_later by (auto simp: Pass layer_enabled_def layer_inv_def in_time_def)
  then show ?thesis using assms
    by (auto simp: Pass layer_do_def layer_enabled_def layer_inv_def in_order_def is_Release_def waiters_def in_time_def split: option.splits)
next
  case Drain
  then show ?thesis using assms
    by (auto simp: layer_do_def layer_inv_def in_order_def is_Release_def waiters_def split: option.splits)
qed

lemma layer_run_inv: "layer_run l0 as l \<Longrightarrow> layer_inv l0 \<Longrightarrow> layer_inv l"
  by (induction rule: layer_run.induct) (auto dest: layer_step_ok simp: okE_iff)

lemma new_Layer_inv:
  assumes "0 < period" and "unat now + 2 * unat period < 2 ^ 64"
  shows "layer_inv (observed (new_Layer now period))"
  using assms by (auto simp: observed_def layer_inv_def new_Layer_def waiters_def clock_ok_def new_Clocked_def unat_gt_0)

section \<open>Properties\<close>

text \<open>
  C20. No assertion of a layer ever fails: in every state reached by ports that keep to the protocol,
  every further call, including the calls of ports that are told to retry, succeeds.  No port is forgotten and none
  waits twice: while a port waits, the release event is scheduled or the layer waits for its peer.
\<close>

theorem layer_safe:
  assumes "0 < period" and "unat now + 2 * unat period < 2 ^ 64"
    and "layer_run (observed (new_Layer now period)) as l"
  shows "(layer_enabled a l \<longrightarrow> (\<exists>l'. layer_do a l = Inr l')) \<and> distinct (waiters l) \<and>
     (waitingForLayer l \<noteq> [] \<longrightarrow> releaseEvent l \<noteq> None \<or> waitingForPeer l \<noteq> None) \<and>
     (ly_state l = BUSY \<longleftrightarrow> releaseEvent l \<noteq> None)"
proof -
  have inv: "layer_inv l" using layer_run_inv [OF assms(3) new_Layer_inv [OF assms(1,2)]] .
  have "layer_enabled a l \<longrightarrow> (\<exists>l'. layer_do a l = Inr l')" using layer_step_ok [OF inv] by (auto simp: okE_iff)
  moreover have "ly_state l = IDLE \<or> ly_state l = BUSY" using inv by (cases "ly_state l") (auto simp: layer_inv_def)
  ultimately show ?thesis using inv unfolding layer_inv_def by blast
qed

text \<open>
  C21. Ports are served in the order in which they were refused: while the peer accepts, every release of the
  layer calls \<open>sendRetry\<close> for exactly the next waiting port, and ports that come later queue up behind.  A port at
  position \<open>k\<close> of the queue is told to retry by the release number \<open>k + 1\<close>.
\<close>

theorem layer_serves_in_order:
  assumes "layer_inv l" and "layer_run l as l'" and "waitingForPeer l = None" and "list_all accepting as"
    and "length (filter is_Release as) \<le> length (waitingForLayer l)"
  shows "told l' = told l @ take (length (filter is_Release as)) (waitingForLayer l) \<and>
     (\<exists>new. waitingForLayer l' = drop (length (filter is_Release as)) (waitingForLayer l) @ new) \<and> waitingForPeer l' = None"
  using assms(2,4,5)
proof (induction rule: layer_run.induct)
  case run_Nil
  then show ?case using assms(3) by simp
next
  case (run_snoc as m a m')
  let ?r = "length (filter is_Release as)" and ?W = "waitingForLayer l"
  obtain new where IH: "told m = told l @ take ?r ?W" "waitingForLayer m = drop ?r ?W @ new" "waitingForPeer m = None"
    using run_snoc.IH run_snoc.prems by (auto split: if_splits)
  have "in_order a m m'" using layer_step_ok [OF layer_run_inv [OF run_snoc.hyps(1) assms(1)] run_snoc.hyps(2)] run_snoc.hyps(3)
    by (simp add: okE_iff)
  then obtain new' where o: "waitingForPeer m' = None" "waitingForLayer m' = drop (if is_Release a then 1 else 0) (waitingForLayer m) @ new'"
    "told m' = told m @ take (if is_Release a then 1 else 0) (waitingForLayer m)"
    using IH(3) run_snoc.prems(1) by (auto simp: in_order_def)
  show ?case
  proof (cases "is_Release a")
    case True
    then have "?r < length ?W" using run_snoc.prems(2) by simp
    then have "take 1 (waitingForLayer m) = [?W ! ?r]" "drop 1 (waitingForLayer m) = drop (?r + 1) ?W @ new"
      using IH(2) by (auto simp: Cons_nth_drop_Suc [symmetric])
    then show ?thesis using True IH o \<open>?r < length ?W\<close> by (simp add: take_Suc_conv_app_nth)
  next
    case False
    then show ?thesis using IH o by simp
  qed
qed

section \<open>Example\<close>

text \<open>Running a sequence of actions, \<open>None\<close> if one of them is not possible.\<close>

fun layer_exec :: "layer_action list \<Rightarrow> observed_layer \<Rightarrow> observed_layer option" where
  "layer_exec [] l = Some l"
| "layer_exec (a # as) l =
     (if layer_enabled a l then case layer_do a l of Inl _ \<Rightarrow> None | Inr l' \<Rightarrow> layer_exec as l' else None)"

lemma layer_exec_run:
  "layer_run l0 bs l \<Longrightarrow> layer_exec as l = Some l' \<Longrightarrow> layer_run l0 (bs @ as) l'"
proof (induction as arbitrary: bs l)
  case (Cons a as)
  then obtain m where m: "layer_enabled a l" "layer_do a l = Inr m" "layer_exec as m = Some l'"
    by (auto split: if_splits sum.splits)
  show ?case using Cons.IH [OF run_snoc [OF Cons.prems(1) m(1,2)] m(3)] by simp
qed simp

text \<open>Three ports send at once; the first gets the layer.\<close>

lemmas layer_eval = layer_ops layer_do_def layer_enabled_def in_time_def reaction_ok_def releaseLayer_def retryWaiting_def
  clockEdge_def ck_update_def divCeil_def new_Clocked_def new_Layer_def observed_def

definition busy_layer :: observed_layer where
  "busy_layer = (case layer_exec [Present 1 True 20, Present 2 True 30, Present 3 True 30] (observed (new_Layer 5 10)) of
     None \<Rightarrow> observed (new_Layer 5 10) | Some l \<Rightarrow> l)"

lemma busy_layer_eq:
  "busy_layer = \<lparr>ly_state = BUSY, waitingForLayer = [2, 3], waitingForPeer = None, releaseEvent = Some 20, occupancy = 15,
     drainState = Running, ly_now = 5, ly_clock = new_Clocked 10, told = []\<rparr>"
  by (simp add: busy_layer_def layer_eval)

lemma busy_layer_run: "layer_run (observed (new_Layer 5 10)) [Present 1 True 20, Present 2 True 30, Present 3 True 30] busy_layer"
proof -
  have "layer_exec [Present 1 True 20, Present 2 True 30, Present 3 True 30] (observed (new_Layer 5 10)) = Some busy_layer"
    by (simp add: busy_layer_eq layer_eval)
  then show ?thesis using layer_exec_run [OF run_Nil] by simp
qed

theorem layer_safe_witness:
  "(\<exists>l'. layer_do (Release (Some (True, 40))) busy_layer = Inr l') \<and> waitingForLayer busy_layer = [2, 3] \<and> releaseEvent busy_layer \<noteq> None"
proof -
  have "layer_enabled (Release (Some (True, 40))) busy_layer" by (simp add: busy_layer_eq layer_eval)
  then show ?thesis using layer_safe [OF _ _ busy_layer_run, of "Release (Some (True, 40))"] by (simp add: busy_layer_eq)
qed

theorem layer_serves_in_order_witness:
  "\<exists>l'. layer_run busy_layer [Release (Some (True, 40)), Present 4 True 50, Release None] l' \<and> told l' = [2, 3] \<and> waitingForPeer l' = None"
proof -
  let ?as = "[Release (Some (True, 40)), Present 4 True 50, Release None]"
  have i: "layer_inv busy_layer" by (rule layer_run_inv [OF busy_layer_run], rule new_Layer_inv) simp_all
  obtain l' where "layer_exec ?as busy_layer = Some l'" by (simp add: busy_layer_eq layer_eval)
  then have r: "layer_run busy_layer ?as l'" using layer_exec_run [OF run_Nil] by simp
  have w: "waitingForPeer busy_layer = None" "list_all accepting ?as" "length (filter is_Release ?as) = 2" "waitingForLayer busy_layer = [2, 3]"
    "told busy_layer = []"
    by (simp_all add: busy_layer_eq accepting_def is_Release_def)
  show ?thesis using r layer_serves_in_order [OF i r w(1,2)] w(3-5) by auto
qed

end
