(* ===== verification/Design_Space.thy ===== *)
theory Design_Space
  imports Prelude Complex_Main
begin

text \<open>
  The software design space of the exploration (\<open>DSE/design_space.py\<close>, \<open>DSE/GA.py\<close>,
  \<open>DSE/kernel_function.py\<close>, \<open>DSE/parser/ONNX_parser.py\<close>): for every dimension of the tensors of a
  layer the possible split factors, the gene space built from them, the split a solution stands
  for, the value a solution is given and the loop over the layers in \<open>DSE/main.py\<close>.  Python
  exceptions are the failure \<open>StdException\<close>; the runs of the traffic generator and of the simulator,
  the report read back and the genetic algorithm of \<open>pygad\<close> are arguments.
\<close>

section \<open>Factorisations\<close>

text \<open>
  The table of \<open>_get_all_combinations(n, V)\<close>: row \<open>i\<close> holds for every \<open>v \<le> V\<close> the factorisations
  of \<open>v\<close> into \<open>i\<close> factors.
\<close>

definition first_row :: "nat \<Rightarrow> nat list list list" where
  "first_row V = map (\<lambda>v. if 1 \<le> v then [[v]] else []) [0..<V + 1]"

definition next_row :: "nat \<Rightarrow> nat list list list \<Rightarrow> nat list list list" where
  "next_row V row =
     map (\<lambda>v. concat (map (\<lambda>pv. if v mod pv = 0 then map (\<lambda>prev. prev @ [pv]) (row ! (v div pv)) else []) [1..<v + 1])) [0..<V + 1]"

fun combination_row :: "nat \<Rightarrow> nat \<Rightarrow> nat list list list" where
  "combination_row V 0 = replicate (V + 1) []"
| "combination_row V (Suc 0) = first_row V"
| "combination_row V (Suc (Suc i)) = next_row V (combination_row V (Suc i))"

definition get_all_combinations :: "nat \<Rightarrow> int \<Rightarrow> (nat list list \<times> nat) res" where
  "get_all_combinations n V =
     (if V < 0 then Inl (StdException ''IndexError'')
      else if n = 0 \<and> 1 \<le> V then Inl (StdException ''IndexError'')
      else let r = combination_row (nat V) n ! nat V in Inr (r, length r))"

section \<open>Kernels and layers\<close>

text \<open>
  The table \<open>kernel\<close>, with the dimensions that are looked up (\<open>Stride\<close>, \<open>Padding\<close>, \<open>R\<close> and \<open>S\<close>
  are never read).
\<close>

definition kernel :: "string \<Rightarrow> (string \<rightharpoonup> int) option" where
  "kernel t =
     (if t \<in> set [''Conv'', ''Relu'', ''BatchNormalization''] then Some [''N'' \<mapsto> 1, ''C'' \<mapsto> 32, ''H'' \<mapsto> 32, ''W'' \<mapsto> 32]
      else if t \<in> set [''GlobalAveragePool'', ''MaxPool'', ''Reshape'', ''Flatten'', ''Gemm'', ''Add'']
        then Some [''N'' \<mapsto> 1, ''C'' \<mapsto> 64, ''H'' \<mapsto> 32, ''W'' \<mapsto> 32]
      else None)"

definition dim_name :: "nat \<rightharpoonup> string" where
  "dim_name = [0 \<mapsto> ''N'', 1 \<mapsto> ''C'', 2 \<mapsto> ''H'', 3 \<mapsto> ''W'']"

text \<open>The bound of the kernel is looked up but not used: the comparison is commented out.\<close>

definition kernel_matching :: "nat list list \<Rightarrow> string \<Rightarrow> nat \<Rightarrow> nat list res" where
  "kernel_matching arr layer_type idx =
     (case dim_name idx of
        None \<Rightarrow> Inl (StdException ''KeyError'')
      | Some d \<Rightarrow>
          (case kernel layer_type of
             None \<Rightarrow> Inl (StdException ''KeyError'')
           | Some k \<Rightarrow>
               if k d = None then Inl (StdException ''KeyError'')
               else mapM (\<lambda>i. if 1 < length i then Inr (i ! 1) else Inl (StdException ''IndexError'')) arr))"

text \<open>
  A layer as \<open>parse_design_space\<close> keeps it: its type, its name and the input tensors with name and
  shape, and the number of fused layers of the model file.
\<close>

record sw_layer =
  sl_type :: string
  sl_name :: string
  sl_input :: "(string \<times> int list) list"
  sl_fuse :: int

definition supported :: "string \<Rightarrow> bool" where
  "supported t \<longleftrightarrow> t \<in> set [''Conv'', ''BatchNormalization'', ''Relu'', ''GlobalAveragePool'', ''MaxPool'']"

text \<open>\<open>"bias" in name\<close>.\<close>

definition contains :: "string \<Rightarrow> string \<Rightarrow> bool" where
  "contains sub s = list_ex (\<lambda>i. take (length sub) (drop i s) = sub) [0..<length s + 1]"

definition shape_factors :: "string \<Rightarrow> int list \<Rightarrow> nat list list res" where
  "shape_factors layer_type dim_size =
     mapM (\<lambda>(i, num). bindE (get_all_combinations 2 num) (\<lambda>(factor, _). kernel_matching factor layer_type i))
       (enumerate 0 dim_size)"

definition getDesignPoint :: "sw_layer \<Rightarrow> (string \<times> string \<times> nat list list option) res" where
  "getDesignPoint l =
     (if \<not> supported (sl_type l) then Inr (sl_type l, '''', None)
      else bindE (foldE (\<lambda>(name, shape) acc.
                    if contains ''bias'' name then Inr acc
                    else mapE (\<lambda>fs. acc @ fs) (shape_factors (sl_type l) shape)) (sl_input l) []) (\<lambda>dims.
           Inr (sl_type l, sl_name l, Some dims)))"

section \<open>Genes\<close>

definition keep_genes :: "nat set \<Rightarrow> nat list list \<Rightarrow> nat list list" where
  "keep_genes keep gs = map (\<lambda>(i, g). if i \<in> keep then g else [1]) (enumerate 0 gs)"

text \<open>\<open>SW_GA.encode\<close>; \<open>xs[:5]\<close> and \<open>xs[6:]\<close> never fail.\<close>

definition sw_encode :: "string \<Rightarrow> string \<Rightarrow> nat list list \<Rightarrow> nat list list" where
  "sw_encode layer_type dataflow input =
     (if layer_type = ''Conv'' then
        let e = take 5 input @ drop 6 input
        in if dataflow = ''nvdla'' then keep_genes {1, 4} e else if dataflow = ''shi'' then keep_genes {2, 3} e else e
      else
        let e = take 5 input
        in if dataflow = ''nvdla'' then keep_genes {1} e else if dataflow = ''shi'' then keep_genes {2, 3} e else e)"

record split_tile =
  input_tile :: "nat list"
  weight_tile :: "nat list option"

definition py_at :: "'a list \<Rightarrow> nat \<Rightarrow> 'a res" where
  "py_at xs i = (if i < length xs then Inr (xs ! i) else Inl (StdException ''IndexError''))"

text \<open>The shapes of the input and, for a convolution, of the weight.\<close>

definition getLayerDim :: "sw_layer \<Rightarrow> (int list \<times> int list option) res" where
  "getLayerDim l =
     bindE (py_at (sl_input l) 0) (\<lambda>(_, x).
     if sl_type l = ''Conv'' then mapE (\<lambda>(_, w). (x, Some w)) (py_at (sl_input l) 1) else Inr (x, None))"

text \<open>\<open>genSplit\<close> reads the shapes, which may fail, and does not use them.\<close>

definition genSplit :: "sw_layer \<Rightarrow> nat list \<Rightarrow> split_tile res" where
  "genSplit l solution =
     bindE (getLayerDim l) (\<lambda>_.
     if sl_type l = ''Conv'' then
       mapE (\<lambda>w. \<lparr>input_tile = take 4 solution, weight_tile = Some w\<rparr>) (mapM (py_at solution) [4, 1, 5, 6])
     else Inr \<lparr>input_tile = take 4 solution, weight_tile = None\<rparr>)"

text \<open>\<open>np.prod\<close> on 64-bit integers, which wrap.\<close>

definition np_prod :: "int list \<Rightarrow> int" where
  "np_prod xs = sint (prod_list (map word_of_int xs) :: 64 word)"

definition trafficGeneratorCstr :: "split_tile \<Rightarrow> bool" where
  "trafficGeneratorCstr t =
     (np_prod (map (\<lambda>x. np_prod (map int x)) (input_tile t # (case weight_tile t of None \<Rightarrow> [] | Some w \<Rightarrow> [w]))) < 100000)"

text \<open>\<open>gen_kcp\<close> and \<open>gen_xyp\<close>: dimensions of a tile set to one.\<close>

definition py_set1 :: "nat \<Rightarrow> nat list \<Rightarrow> nat list res" where
  "py_set1 i xs = (if i < length xs then Inr (xs[i := 1]) else Inl (StdException ''IndexError''))"

definition set_ones :: "nat list \<Rightarrow> nat list \<Rightarrow> split_tile \<Rightarrow> split_tile res" where
  "set_ones is ws t =
     bindE (foldE py_set1 is (input_tile t)) (\<lambda>x.
     case weight_tile t of
       None \<Rightarrow> Inr \<lparr>input_tile = x, weight_tile = None\<rparr>
     | Some w \<Rightarrow> mapE (\<lambda>w. \<lparr>input_tile = x, weight_tile = Some w\<rparr>) (foldE py_set1 ws w))"

definition gen_kcp :: "split_tile \<Rightarrow> split_tile res" where
  "gen_kcp t = set_ones [0, 2, 3] [1, 2, 3] t"

definition gen_xyp :: "split_tile \<Rightarrow> split_tile res" where
  "gen_xyp t = set_ones [0, 1] [0, 1, 2, 3] t"

section \<open>The exported design point\<close>

text \<open>What is written for the traffic generator; a layer of the model is given by its position.\<close>

record design_point =
  dp_layout :: string
  dp_name :: string
  dp_model :: "nat list"
  dp_mapping :: string
  dp_split :: split_tile
  dp_PE_Num :: int
  dp_LocalMem :: int

definition exportSWDesignPoint ::
    "string \<Rightarrow> int list \<Rightarrow> nat \<Rightarrow> string \<Rightarrow> int \<Rightarrow> int \<Rightarrow> split_tile \<Rightarrow> design_point res" where
  "exportSWDesignPoint model_name fuse layer dataflow pe local_mem t =
     bindE (py_at fuse layer) (\<lambda>fuse_num.
     bindE (mapM (\<lambda>i. mapE (\<lambda>_. layer + i) (py_at fuse (layer + i))) [0..<nat fuse_num]) (\<lambda>ls.
     Inr \<lparr>dp_layout = ''NCHW'', dp_name = model_name, dp_model = (if fuse_num = 0 then ls @ [layer] else ls),
          dp_mapping = (if dataflow = ''nvdla'' then ''weight'' else if dataflow = ''shi'' then ''output'' else ''weight''),
          dp_split = t, dp_PE_Num = pe, dp_LocalMem = local_mem\<rparr>))"

section \<open>Fitness\<close>

definition penalty :: int where
  "penalty = 10 ^ 16"

text \<open>
  \<open>GetReportAPI\<close>: the latency and the energy of the report with an empty message, or, when anything
  fails, a pair where every caller unpacks three values, so that the caller fails with a \<open>ValueError\<close>.
\<close>

definition GetReportAPI :: "(rat \<times> rat) option \<Rightarrow> (rat \<times> rat) res" where
  "GetReportAPI report = (case report of None \<Rightarrow> Inl (StdException ''ValueError'') | Some r \<Rightarrow> Inr r)"

text \<open>
  The runs outside of the program: whether the traffic generator and the simulator fail on a design
  point, and the report they leave, as the final tick and the total energy.  The report holds
  floating-point numbers, which are rational.
\<close>

record tools =
  tg_ret_code :: "design_point \<Rightarrow> bool"
  g5_ret_code :: "design_point \<Rightarrow> bool"
  the_report :: "design_point \<Rightarrow> (rat \<times> rat) option"

text \<open>\<open>int(x)\<close> of a floating-point number: truncation towards zero.\<close>

definition py_int :: "rat \<Rightarrow> int" where
  "py_int r = (if 0 \<le> r then \<lfloor>r\<rfloor> else \<lceil>r\<rceil>)"

lemma py_int_nonneg: "0 \<le> r \<Longrightarrow> 0 \<le> py_int r"
  by (simp add: py_int_def)

text \<open>\<open>SW_GA.fitness\<close> with the simulator as cost model; when it fails the program ends (\<open>exit(0)\<close>).\<close>

definition sw_fitness :: "tools \<Rightarrow> (split_tile \<Rightarrow> design_point res) \<Rightarrow> sw_layer \<Rightarrow> nat list \<Rightarrow> int res" where
  "sw_fitness to export l solution =
     bindE (genSplit l solution) (\<lambda>t.
     if \<not> trafficGeneratorCstr t then Inr penalty
     else bindE (export t) (\<lambda>d.
       if tg_ret_code to d then Inr penalty
       else if g5_ret_code to d then Inl (StdException ''SystemExit'')
       else bindE (GetReportAPI (the_report to d)) (\<lambda>(latency, _).
         if latency = 1 then Inr penalty else Inr (- py_int latency))))"

text \<open>\<open>SW_MOGA.fitness\<close>: both objectives, to be minimised.\<close>

definition moga_fitness :: "tools \<Rightarrow> (split_tile \<Rightarrow> design_point res) \<Rightarrow> sw_layer \<Rightarrow> nat list \<Rightarrow> (int \<times> int) res" where
  "moga_fitness to export l individual =
     bindE (genSplit l individual) (\<lambda>t.
     if \<not> trafficGeneratorCstr t then Inr (penalty, penalty)
     else bindE (export t) (\<lambda>d.
       if tg_ret_code to d then Inr (penalty, penalty)
       else if g5_ret_code to d then Inr (penalty, penalty)
       else bindE (GetReportAPI (the_report to d)) (\<lambda>(latency, energy).
         if latency = 1 then Inr (penalty, penalty) else Inr (py_int latency, py_int energy))))"

section \<open>The search over the layers\<close>

text \<open>
  The arguments of \<open>SW_GA\<close>, and its state: the layer of the design space and the solutions found with
  their latency.  The search \<open>pygad.GA(...).run()\<close>, which is given the fitness function and the gene space and
  whose best solution is returned with its fitness, is an argument.
\<close>

record sw_config =
  cf_tools :: tools
  cf_model_name :: string
  cf_dataflow :: string
  cf_pe :: int
  cf_local_mem :: int

record sw_ga =
  ds_layer :: nat
  solution_set :: "(nat list \<times> int) list"

type_synonym pygad = "(nat list \<Rightarrow> int res) \<Rightarrow> nat list list \<Rightarrow> (nat list \<times> int) res"

definition layer_fitness :: "sw_config \<Rightarrow> sw_layer list \<Rightarrow> nat \<Rightarrow> sw_layer \<Rightarrow> nat list \<Rightarrow> int res" where
  "layer_fitness cf src_space layer l =
     sw_fitness (cf_tools cf)
       (exportSWDesignPoint (cf_model_name cf) (map sl_fuse src_space) layer (cf_dataflow cf) (cf_pe cf) (cf_local_mem cf)) l"

definition sw_run :: "pygad \<Rightarrow> sw_config \<Rightarrow> sw_layer list \<Rightarrow> sw_ga \<Rightarrow> (bool \<times> sw_ga) res" where
  "sw_run pygad cf src_space x =
     bindE (py_at src_space (ds_layer x)) (\<lambda>l.
     bindE (getDesignPoint l) (\<lambda>(layer_type, _, dims).
     if \<not> supported layer_type then Inr (False, x\<lparr>ds_layer := ds_layer x + 1\<rparr>)
     else bindE (pygad (layer_fitness cf src_space (ds_layer x) l) (sw_encode layer_type (cf_dataflow cf) (the dims))) (\<lambda>(solution, fitness).
       Inr (True, x\<lparr>solution_set := solution_set x @ [(solution, - fitness)]\<rparr>))))"

text \<open>
  The loop of \<open>sw_dse\<close>: \<open>i\<close> and the layer of the design space advance together; after the first layer
  that is searched the loop is left.
\<close>

function sw_dse_loop :: "pygad \<Rightarrow> sw_config \<Rightarrow> sw_layer list \<Rightarrow> nat \<Rightarrow> sw_ga \<Rightarrow> (int \<times> int \<times> (nat list \<times> int) list) res" where
  "sw_dse_loop pygad cf src_space i x =
     (if i < length src_space then
        case sw_run pygad cf src_space x of
          Inl e \<Rightarrow> Inl e
        | Inr (flag, x) \<Rightarrow>
            if \<not> flag then sw_dse_loop pygad cf src_space (i + 1) x
            else
              let fuse_num = sl_fuse (src_space ! i); j = int i + fuse_num
              in if fuse_num = 0 then Inr (j + 1, j + 1, solution_set x) else Inr (j, j, solution_set x)
      else Inr (int i, int (ds_layer x), solution_set x))"
  by pat_completeness auto
termination by (relation "measure (\<lambda>(_, _, src_space, i, _). length src_space - i)") auto

declare sw_dse_loop.simps [simp del]

text \<open>\<open>HW_GA.calculateSWSol\<close>.\<close>

definition calculateSWSol :: "int list \<Rightarrow> int" where
  "calculateSWSol latencies = foldl (+) 0 latencies"

text \<open>\<open>HW_GA.encode\<close>: a range, a list of choices, or anything else, which gives no gene.\<close>

datatype hw_value = HWRange int int int | HWList "string list" | HWOther

fun range_up :: "nat \<Rightarrow> int \<Rightarrow> int \<Rightarrow> int list" where
  "range_up 0 a s = []"
| "range_up (Suc n) a s = a # range_up n (a + s) s"

text \<open>\<open>range(low, high + 1, step)\<close>.\<close>

definition py_range :: "int \<Rightarrow> int \<Rightarrow> int \<Rightarrow> int list res" where
  "py_range a b s =
     (if s = 0 then Inl (StdException ''ValueError'')
      else if 0 < s then Inr (range_up (nat ((b - a + s - 1) div s)) a s)
      else Inr (range_up (nat ((a - b - s - 1) div (- s))) a s))"

definition hw_gene :: "hw_value \<Rightarrow> int list res" where
  "hw_gene v =
     (case v of
        HWRange low high step \<Rightarrow> py_range low (high + 1) step
      | HWList xs \<Rightarrow> Inr (map int [0..<length xs])
      | HWOther \<Rightarrow> Inr [])"

definition hw_encode :: "(string \<times> (string \<times> hw_value) list) list \<Rightarrow> int list list res" where
  "hw_encode design_point =
     foldE (\<lambda>(_, inner) acc. foldE (\<lambda>(_, v) acc.
        bindE (hw_gene v) (\<lambda>tmp. Inr (if tmp \<noteq> [] then acc @ [tmp] else acc))) inner acc) design_point []"

section \<open>Factorisations are complete\<close>

definition factorisations :: "nat \<Rightarrow> nat \<Rightarrow> nat list set" where
  "factorisations n v = {fs. length fs = n \<and> 0 \<notin> set fs \<and> prod_list fs = v}"

lemma prod_list_nonzero: "0 \<notin> set fs \<Longrightarrow> 0 < prod_list (fs :: nat list)"
  by (induction fs) auto

lemma factorisations_Suc:
  "factorisations (Suc n) v = {fs @ [p] | fs p. p \<in> {1..v} \<and> v mod p = 0 \<and> fs \<in> factorisations n (v div p)}" (is "?L = ?R")
proof
  show "?L \<subseteq> ?R"
  proof
    fix gs assume g: "gs \<in> ?L"
    then obtain fs p where gs: "gs = fs @ [p]" by (cases gs rule: rev_cases) (auto simp: factorisations_def)
    have p: "0 < p" "0 \<notin> set fs" "length fs = n" "v = prod_list fs * p" using g by (auto simp: factorisations_def gs)
    then have "p \<le> v" using prod_list_nonzero [of fs] by simp
    then show "gs \<in> ?R" using p by (auto simp: factorisations_def gs)
  qed
  show "?R \<subseteq> ?L" by (auto simp: factorisations_def)
qed

lemma next_row_at:
  assumes "v \<le> V"
  shows "next_row V row ! v = concat (map (\<lambda>pv. map (\<lambda>prev. prev @ [pv]) (row ! (v div pv))) (filter (\<lambda>pv. v mod pv = 0) [1..<v + 1]))"
proof -
  have "concat (map (\<lambda>pv. if v mod pv = 0 then f pv else []) ps) = concat (map f (filter (\<lambda>pv. v mod pv = 0) ps))" for f :: "nat \<Rightarrow> nat list list" and ps
    by (induction ps) auto
  moreover have "[0..<V + 1] ! v = v" using assms by (simp add: nth_append)
  ultimately show ?thesis using assms unfolding next_row_def by (simp del: upt_Suc)
qed

lemma distinct_concat_map:
  assumes "distinct xs" and "\<And>x. x \<in> set xs \<Longrightarrow> distinct (f x)"
    and "\<And>x y. x \<in> set xs \<Longrightarrow> y \<in> set xs \<Longrightarrow> x \<noteq> y \<Longrightarrow> set (f x) \<inter> set (f y) = {}"
  shows "distinct (concat (map f xs))"
  using assms
proof (induction xs)
  case (Cons x xs)
  have "distinct (concat (map f xs))" using Cons.prems by (intro Cons.IH) auto
  moreover have "set (f x) \<inter> set (f y) = {}" if "y \<in> set xs" for y
    using Cons.prems(1,3) that by auto
  ultimately show ?case using Cons.prems(2) [of x] by auto
qed simp

lemma combination_row_spec:
  assumes "v \<le> V"
  shows "distinct (combination_row V (Suc n) ! v) \<and> set (combination_row V (Suc n) ! v) = factorisations (Suc n) v"
  using assms
proof (induction n arbitrary: v)
  case 0
  have "factorisations 1 v = (if 1 \<le> v then {[v]} else {})"
    by (auto simp: factorisations_def length_Suc_conv)
  then show ?case using 0 by (simp add: first_row_def nth_append del: upt_Suc)
next
  case (Suc n)
  let ?ps = "filter (\<lambda>pv. v mod pv = 0) [1..<v + 1]"
  let ?f = "\<lambda>pv. map (\<lambda>prev. prev @ [pv]) (combination_row V (Suc n) ! (v div pv))"
  have le: "v div p \<le> V" for p using Suc.prems by (meson div_le_dividend le_trans)
  have at: "combination_row V (Suc (Suc n)) ! v = concat (map ?f ?ps)" using next_row_at [OF Suc.prems] by simp
  have "distinct (concat (map ?f ?ps))"
  proof (rule distinct_concat_map)
    show "distinct (?f p)" for p using Suc.IH [OF le, of p] by (simp add: distinct_map inj_on_def)
  qed auto
  moreover have "set (concat (map ?f ?ps)) = factorisations (Suc (Suc n)) v"
    unfolding factorisations_Suc [of "Suc n"] using Suc.IH [OF le] by (auto simp: less_Suc_eq_le)
  ultimately show ?case unfolding at by blast
qed

text \<open>
  C37. The table of \<open>_get_all_combinations(n, V)\<close> computes exactly the factorisations of \<open>V\<close>: every
  list of \<open>n\<close> positive factors with product \<open>V\<close>, once, and their number.
\<close>

theorem get_all_combinations_exact:
  assumes "1 \<le> n" and "1 \<le> V"
  shows "\<exists>xs. get_all_combinations n V = Inr (xs, length xs) \<and> distinct xs \<and>
     set xs = {fs. length fs = n \<and> (\<forall>f\<in>set fs. 0 < f) \<and> prod_list fs = nat V}"
proof -
  obtain m where n: "n = Suc m" using assms(1) by (cases n) auto
  have "{fs. length fs = n \<and> (\<forall>f\<in>set fs. 0 < f) \<and> prod_list fs = nat V} = factorisations n (nat V)"
    by (auto simp: factorisations_def intro: gr0I)
  then show ?thesis
    using combination_row_spec [of "nat V" "nat V" m] assms(2) by (simp add: get_all_combinations_def n Let_def)
qed

section \<open>Splits divide\<close>

definition divisors :: "nat \<Rightarrow> nat list" where
  "divisors v = filter (\<lambda>p. v mod p = 0) [1..<v + 1]"

lemma pairs_at: "combination_row V 2 ! V = map (\<lambda>p. [V div p, p]) (divisors V)"
proof -
  have "first_row V ! (V div p) = [[V div p]]" if "p \<in> set (divisors V)" for p
  proof -
    have "1 \<le> V div p" using that by (auto simp: divisors_def div_greater_zero_iff less_Suc_eq_le Suc_le_eq simp del: upt_Suc)
    moreover have "V div p < V + 1" by (simp add: less_Suc_eq_le)
    ultimately show ?thesis by (simp add: first_row_def nth_append del: upt_Suc)
  qed
  then have "concat (map (\<lambda>pv. map (\<lambda>prev. prev @ [pv]) (first_row V ! (V div pv))) (divisors V)) = map (\<lambda>p. [V div p, p]) (divisors V)"
    by (induction "divisors V") (auto simp: concat_map_singleton cong: map_cong)
  then show ?thesis using next_row_at [of V V "first_row V"] by (simp add: numeral_2_eq_2 divisors_def)
qed

lemma divisors_dvd: "set (divisors v) = {p. 0 < p \<and> p dvd v \<and> 0 < v}"
  by (auto simp: divisors_def less_Suc_eq_le dvd_imp_le simp del: upt_Suc)

lemma kernel_dims:
  assumes "kernel t = Some k" and "n \<in> {''N'', ''C'', ''H'', ''W''}"
  shows "k n \<noteq> None"
proof -
  have "k = [''N'' \<mapsto> 1, ''C'' \<mapsto> 32, ''H'' \<mapsto> 32, ''W'' \<mapsto> 32] \<or> k = [''N'' \<mapsto> 1, ''C'' \<mapsto> 64, ''H'' \<mapsto> 32, ''W'' \<mapsto> 32]"
    using assms(1) unfolding kernel_def by (simp only: option.inject option.distinct split: if_split_asm) simp_all
  then show ?thesis using assms(2) by (elim disjE) (simp_all only: fun_upd_def insert_iff empty_iff, auto)
qed

lemma shape_factors_divisors:
  assumes "kernel t \<noteq> None" and "length shape = 4" and "\<forall>v\<in>set shape. 0 \<le> v"
  shows "shape_factors t shape = Inr (map (\<lambda>v. divisors (nat v)) shape)"
proof -
  obtain a b c d where s: "shape = [a, b, c, d]" using assms(2) by (auto simp: length_Suc_conv numeral_eq_Suc)
  have k: "mapM (\<lambda>i. if 1 < length i then Inr (i ! 1) else Inl (StdException ''IndexError'')) (map (\<lambda>p. [v div p, p]) ps) = Inr ps" for v ps
    by (induction ps) auto
  have f: "bindE (get_all_combinations 2 v) (\<lambda>(factor, _). kernel_matching factor t i) = Inr (divisors (nat v))"
    if v: "0 \<le> v" "i \<in> {0, 1, 2, 3}" for v i
  proof -
    obtain n where n: "dim_name i = Some n" "n \<in> {''N'', ''C'', ''H'', ''W''}"
      using v(2) unfolding dim_name_def by fastforce
    obtain km where "kernel t = Some km" "km n \<noteq> None"
      using assms(1) n(2) kernel_dims by blast
    then show ?thesis using v(1) n(1) by (simp add: get_all_combinations_def pairs_at kernel_matching_def k del: One_nat_def)
  qed
  show ?thesis using assms(3) by (simp add: shape_factors_def s f)
qed

lemma getDesignPoint_Conv:
  assumes "sl_type l = ''Conv''" and "sl_input l = (nx, xs) # (nw, ws) # rest"
    and "\<not> contains ''bias'' nx" "\<not> contains ''bias'' nw" "\<forall>(n, _)\<in>set rest. contains ''bias'' n"
    and "length xs = 4" "length ws = 4" "\<forall>v\<in>set (xs @ ws). 0 \<le> v"
  shows "getDesignPoint l = Inr (''Conv'', sl_name l, Some (map (\<lambda>v. divisors (nat v)) (xs @ ws)))"
proof -
  have "foldE (\<lambda>(name, shape) acc. if contains ''bias'' name then Inr acc else mapE (\<lambda>fs. acc @ fs) (shape_factors (sl_type l) shape)) rest acc = Inr acc" for acc
    using assms(5) by (induction rest) auto
  moreover have "kernel ''Conv'' \<noteq> None" by (simp add: kernel_def)
  ultimately show ?thesis using assms
    by (simp add: getDesignPoint_def supported_def shape_factors_divisors)
qed

text \<open>A solution of a gene space picks one value of every gene.\<close>

definition from_space :: "nat list list \<Rightarrow> nat list \<Rightarrow> bool" where
  "from_space space solution = list_all2 (\<lambda>g s. s \<in> set g) space solution"

lemma from_space_keep: "from_space (keep_genes keep gs) s \<Longrightarrow> list_all2 (\<lambda>g x. x \<in> set g \<or> x = 1) gs s"
  by (auto simp: from_space_def keep_genes_def list_all2_conv_all_nth nth_enumerate_eq split: if_splits)

lemma from_space_Conv:
  assumes "from_space (sw_encode ''Conv'' dataflow dims) s"
  shows "list_all2 (\<lambda>g x. x \<in> set g \<or> x = 1) (take 5 dims @ drop 6 dims) s"
  using assms from_space_keep by (auto simp: sw_encode_def Let_def from_space_def intro: list_all2_mono split: if_splits)

text \<open>
  C39. For a convolution that is not grouped (input and weight have four positive dimensions and the weight's
  second one is the number of input channels) and whose other inputs are biases, the design point exists, and
  the split of every solution of the gene space, under every dataflow, has an input tile and a weight tile
  whose sizes divide the dimensions of the tensors.
\<close>

theorem split_divides:
  assumes "sl_type l = ''Conv''" and "sl_input l = (nx, xs) # (nw, ws) # rest"
    and "\<not> contains ''bias'' nx" "\<not> contains ''bias'' nw" "\<forall>(n, _)\<in>set rest. contains ''bias'' n"
    and "length xs = 4" "length ws = 4" "\<forall>v\<in>set (xs @ ws). 0 < v" "ws ! 1 = xs ! 1"
  shows "\<exists>dims. getDesignPoint l = Inr (''Conv'', sl_name l, Some dims) \<and>
     (\<forall>s. from_space (sw_encode ''Conv'' dataflow dims) s \<longrightarrow>
        (\<exists>x w. genSplit l s = Inr \<lparr>input_tile = x, weight_tile = Some w\<rparr> \<and>
           list_all2 (\<lambda>t v. 0 < t \<and> int t dvd v) x xs \<and> list_all2 (\<lambda>t v. 0 < t \<and> int t dvd v) w ws))"
proof -
  let ?dims = "map (\<lambda>v. divisors (nat v)) (xs @ ws)"
  obtain a b c d where xs: "xs = [a, b, c, d]" using assms(6) by (auto simp: length_Suc_conv numeral_eq_Suc)
  obtain k r u where ws: "ws = [k, b, r, u]" using assms(7,9) xs by (auto simp: length_Suc_conv numeral_eq_Suc)
  have dv: "0 < p \<and> int p dvd v" if "p \<in> set (divisors (nat v)) \<or> p = 1" "0 < v" for p v
    using that by (auto simp: divisors_dvd int_dvd_int_iff [symmetric])
  have "\<exists>x w. genSplit l s = Inr \<lparr>input_tile = x, weight_tile = Some w\<rparr> \<and>
           list_all2 (\<lambda>t v. 0 < t \<and> int t dvd v) x xs \<and> list_all2 (\<lambda>t v. 0 < t \<and> int t dvd v) w ws"
    if "from_space (sw_encode ''Conv'' dataflow ?dims) s" for s
  proof -
    have "take 5 ?dims @ drop 6 ?dims = map (\<lambda>v. divisors (nat v)) [a, b, c, d, k, r, u]" by (simp add: xs ws)
    then have "list_all2 (\<lambda>v p. p \<in> set (divisors (nat v)) \<or> p = 1) [a, b, c, d, k, r, u] s"
      using from_space_Conv [OF that] by (simp only: list_all2_map1)
    then have "list_all2 (\<lambda>v p. 0 < p \<and> int p dvd v) [a, b, c, d, k, r, u] s"
      by (rule list.rel_mono_strong) (rule dv, assumption, use assms(8) in \<open>auto simp: xs ws\<close>)
    then obtain s0 s1 s2 s3 s4 s5 s6 where s: "s = [s0, s1, s2, s3, s4, s5, s6]"
      "list_all2 (\<lambda>v p. 0 < p \<and> int p dvd v) [a, b, c, d, k, r, u] [s0, s1, s2, s3, s4, s5, s6]"
      by (auto simp: list_all2_Cons1)
    show ?thesis using assms(1,2) s(2) by (simp add: genSplit_def getLayerDim_def py_at_def s(1) xs ws)
  qed
  moreover have "getDesignPoint l = Inr (''Conv'', sl_name l, Some ?dims)"
    using assms(8) by (intro getDesignPoint_Conv [OF assms(1-7)]) (auto intro: less_imp_le)
  ultimately show ?thesis by blast
qed

section \<open>The value of a solution\<close>

text \<open>
  C40. The two values a solution is given agree on what is a success.  Either the solution is
  penalised by both, or the first is the negated latency, which is at most zero, and the second the latency
  and the energy.  The first is maximised: a penalised solution is preferred to every one that was simulated.
\<close>

theorem fitness_agree:
  assumes "\<forall>d latency energy. the_report to d = Some (latency, energy) \<longrightarrow> 0 \<le> latency"
    and "sw_fitness to export l s = Inr f"
  shows "f = penalty \<and> moga_fitness to export l s = Inr (penalty, penalty) \<or>
     f \<le> 0 \<and> f < penalty \<and> (\<exists>energy. moga_fitness to export l s = Inr (- f, energy))"
proof -
  note fit = sw_fitness_def moga_fitness_def
  obtain t where t: "genSplit l s = Inr t" using assms(2) by (auto simp: fit)
  show ?thesis
  proof (cases "trafficGeneratorCstr t")
    case True
    obtain d where d: "export t = Inr d" using assms(2) True by (auto simp: fit t)
    show ?thesis
    proof (cases "tg_ret_code to d")
      case False
      have "\<not> g5_ret_code to d" using assms(2) True False by (auto simp: fit t d)
      moreover obtain latency energy where "the_report to d = Some (latency, energy)"
        using assms(2) True False calculation by (auto simp: fit t d GetReportAPI_def split: option.splits)
      moreover have "0 \<le> py_int latency" using assms(1) calculation(2) by (blast intro: py_int_nonneg)
      ultimately show ?thesis using assms(2) True False
        by (cases "latency = 1") (simp_all add: fit t d GetReportAPI_def, auto simp: penalty_def)
    qed (use assms(2) True in \<open>simp add: fit t d\<close>)
  qed (use assms(2) in \<open>simp add: fit t\<close>)
qed

section \<open>The layer that is searched\<close>

lemma sw_run_skip:
  assumes "ds_layer x < length src_space" and "\<not> supported (sl_type (src_space ! ds_layer x))"
  shows "sw_run pygad cf src_space x = Inr (False, x\<lparr>ds_layer := ds_layer x + 1\<rparr>)"
  using assms by (simp add: sw_run_def py_at_def getDesignPoint_def)

lemma sw_dse_loop_skips:
  assumes "k \<le> length src_space" and "i \<le> k" and "\<forall>j. i \<le> j \<and> j < k \<longrightarrow> \<not> supported (sl_type (src_space ! j))" and "ds_layer x = i"
  shows "sw_dse_loop pygad cf src_space i x = sw_dse_loop pygad cf src_space k (x\<lparr>ds_layer := k\<rparr>)"
  using assms(2-4)
proof (induction "k - i" arbitrary: i x)
  case 0
  then have k: "k = i" and x: "x\<lparr>ds_layer := i\<rparr> = x" by (cases x; simp)+
  show ?case unfolding k x ..
next
  case (Suc n)
  have "i < k" using Suc.hyps(2) by simp
  then have "sw_dse_loop pygad cf src_space i x = sw_dse_loop pygad cf src_space (i + 1) (x\<lparr>ds_layer := i + 1\<rparr>)"
    using Suc.prems assms(1) by (subst sw_dse_loop.simps) (simp add: sw_run_skip)
  also have "\<dots> = sw_dse_loop pygad cf src_space k (x\<lparr>ds_layer := k\<rparr>)"
    using Suc.hyps(1) [of "i + 1" "x\<lparr>ds_layer := i + 1\<rparr>"] Suc.hyps(2) Suc.prems \<open>i < k\<close> by simp
  finally show ?case .
qed

text \<open>
  The exploration of a model ends and searches exactly one layer, the first whose operator is
  supported.  It is searched over the genes of its design point with the fitness of its own position; the
  solution that the search returns is recorded with its negated fitness, and the layers fused with it
  are skipped.
\<close>

theorem sw_dse_searches_first:
  assumes "k < length src_space" and "\<forall>j<k. \<not> supported (sl_type (src_space ! j))"
    and "supported (sl_type (src_space ! k))"
    and "getDesignPoint (src_space ! k) = Inr (ty, name, Some dims)"
    and "pygad (layer_fitness cf src_space k (src_space ! k)) (sw_encode ty (cf_dataflow cf) dims) = Inr (solution, f)"
  shows "sw_dse_loop pygad cf src_space 0 \<lparr>ds_layer = 0, solution_set = []\<rparr> =
     (let next = int k + (if sl_fuse (src_space ! k) = 0 then 1 else sl_fuse (src_space ! k))
      in Inr (next, next, [(solution, - f)]))"
proof -
  have "ty = sl_type (src_space ! k)" using assms(3,4) by (auto simp: getDesignPoint_def)
  then show ?thesis
    using sw_dse_loop_skips [of k src_space 0 "\<lparr>ds_layer = 0, solution_set = []\<rparr>" pygad cf] assms
    by (simp add: sw_dse_loop.simps [of _ _ _ k] sw_run_def py_at_def Let_def)
qed

text \<open>
  Concrete inputs: a reshape followed by a small convolution with a bias, the search that returns the first
  value of every gene, and a simulator that reports 700 ticks.
\<close>

definition conv_layer :: sw_layer where
  "conv_layer = \<lparr>sl_type = ''Conv'', sl_name = ''c0'',
     sl_input = [(''x'', [1, 2, 4, 4]), (''w'', [2, 2, 3, 3]), (''bias0'', [2])], sl_fuse = 0\<rparr>"

definition reshape_layer :: sw_layer where
  "reshape_layer = \<lparr>sl_type = ''Reshape'', sl_name = ''r0'', sl_input = [(''x'', [1, 32])], sl_fuse = 0\<rparr>"

definition run_tools :: tools where
  "run_tools = \<lparr>tg_ret_code = (\<lambda>_. False), g5_ret_code = (\<lambda>_. False), the_report = (\<lambda>_. Some (700, 5 / 2))\<rparr>"

definition first_gene :: pygad where
  "first_gene fit space = (let s = map hd space in mapE (\<lambda>f. (s, f)) (fit s))"

definition run_config :: sw_config where
  "run_config = \<lparr>cf_tools = run_tools, cf_model_name = ''net'', cf_dataflow = ''nvdla'', cf_pe = 16, cf_local_mem = 32\<rparr>"

theorem get_all_combinations_exact_witness:
  "\<exists>xs. get_all_combinations 2 6 = Inr (xs, length xs) \<and> distinct xs \<and>
     set xs = {fs. length fs = 2 \<and> (\<forall>f\<in>set fs. 0 < f) \<and> prod_list fs = nat 6}"
  by (rule get_all_combinations_exact) simp_all

theorem split_divides_witness:
  "\<exists>dims. getDesignPoint conv_layer = Inr (''Conv'', ''c0'', Some dims) \<and>
     (\<exists>s x w. from_space (sw_encode ''Conv'' ''shi'' dims) s \<and> genSplit conv_layer s = Inr \<lparr>input_tile = x, weight_tile = Some w\<rparr> \<and>
        list_all2 (\<lambda>t v. 0 < t \<and> int t dvd v) x [1, 2, 4, 4])"
proof -
  have dp: "getDesignPoint conv_layer = Inr (''Conv'', ''c0'', Some [[1], [1, 2], [1, 2, 4], [1, 2, 4], [1, 2], [1, 2], [1, 3], [1, 3]])"
    by code_simp
  have fs: "from_space (sw_encode ''Conv'' ''shi'' [[1], [1, 2], [1, 2, 4], [1, 2, 4], [1, 2], [1, 2], [1, 3], [1, 3]]) [1, 1, 2, 4, 1, 1, 1]"
    by code_simp
  have b: "\<not> contains ''bias'' ''x''" "\<not> contains ''bias'' ''w''" "contains ''bias'' ''bias0''" by code_simp+
  have "\<exists>dims. getDesignPoint conv_layer = Inr (''Conv'', sl_name conv_layer, Some dims) \<and>
     (\<forall>s. from_space (sw_encode ''Conv'' ''shi'' dims) s \<longrightarrow>
        (\<exists>x w. genSplit conv_layer s = Inr \<lparr>input_tile = x, weight_tile = Some w\<rparr> \<and>
           list_all2 (\<lambda>t v. 0 < t \<and> int t dvd v) x [1, 2, 4, 4] \<and> list_all2 (\<lambda>t v. 0 < t \<and> int t dvd v) w [2, 2, 3, 3]))"
    by (rule split_divides [where nx = "''x''" and nw = "''w''" and rest = "[(''bias0'', [2])]"]) (use b in \<open>simp_all add: conv_layer_def\<close>)
  then obtain dims where d: "getDesignPoint conv_layer = Inr (''Conv'', sl_name conv_layer, Some dims)"
    and all: "\<forall>s. from_space (sw_encode ''Conv'' ''shi'' dims) s \<longrightarrow>
        (\<exists>x w. genSplit conv_layer s = Inr \<lparr>input_tile = x, weight_tile = Some w\<rparr> \<and>
           list_all2 (\<lambda>t v. 0 < t \<and> int t dvd v) x [1, 2, 4, 4] \<and> list_all2 (\<lambda>t v. 0 < t \<and> int t dvd v) w [2, 2, 3, 3])"
    by (elim exE conjE)
  have dims: "dims = [[1], [1, 2], [1, 2, 4], [1, 2, 4], [1, 2], [1, 2], [1, 3], [1, 3]]" using d dp by simp
  obtain x w where "genSplit conv_layer [1, 1, 2, 4, 1, 1, 1] = Inr \<lparr>input_tile = x, weight_tile = Some w\<rparr>"
    and "list_all2 (\<lambda>t v. 0 < t \<and> int t dvd v) x [1, 2, 4, 4]"
    using all [rule_format, OF fs [folded dims]] by (elim exE conjE)
  with dp fs show ?thesis unfolding dims [symmetric] by (intro exI conjI)
qed

theorem fitness_agree_witness:
  "sw_fitness run_tools (exportSWDesignPoint ''net'' [0] 0 ''shi'' 16 32) conv_layer [1, 1, 2, 4, 1, 1, 1] = Inr (- 700) \<and>
   (\<exists>energy. moga_fitness run_tools (exportSWDesignPoint ''net'' [0] 0 ''shi'' 16 32) conv_layer [1, 1, 2, 4, 1, 1, 1] = Inr (700, energy))"
proof -
  have r: "\<forall>d latency energy. the_report run_tools d = Some (latency, energy) \<longrightarrow> 0 \<le> latency" by (simp add: run_tools_def)
  have f: "sw_fitness run_tools (exportSWDesignPoint ''net'' [0] 0 ''shi'' 16 32) conv_layer [1, 1, 2, 4, 1, 1, 1] = Inr (- 700)"
    by code_simp
  show ?thesis using fitness_agree [OF r f] f by (auto simp: penalty_def)
qed

theorem sw_dse_searches_first_witness:
  "sw_dse_loop first_gene run_config [reshape_layer, conv_layer] 0 \<lparr>ds_layer = 0, solution_set = []\<rparr> = Inr (2, 2, [([1, 1, 1, 1, 1, 1, 1], 700)])"
proof -
  let ?src = "[reshape_layer, conv_layer]"
  have u: "\<forall>j<1. \<not> supported (sl_type (?src ! j))" by (simp add: reshape_layer_def supported_def)
  have s: "supported (sl_type (?src ! 1))" by (simp add: conv_layer_def supported_def)
  have dp: "getDesignPoint (?src ! 1) = Inr (''Conv'', ''c0'', Some [[1], [1, 2], [1, 2, 4], [1, 2, 4], [1, 2], [1, 2], [1, 3], [1, 3]])"
    by code_simp
  have g: "first_gene (layer_fitness run_config ?src 1 (?src ! 1))
      (sw_encode ''Conv'' (cf_dataflow run_config) [[1], [1, 2], [1, 2, 4], [1, 2, 4], [1, 2], [1, 2], [1, 3], [1, 3]]) =
      Inr ([1, 1, 1, 1, 1, 1, 1], - 700)"
    by code_simp
  show ?thesis using sw_dse_searches_first [where pygad = first_gene and cf = run_config, OF _ u s dp g] by (simp add: Let_def conv_layer_def)
qed

end
