(* ===== verification/Spec2Isabelle.thy ===== *)
theory Spec2Isabelle
  imports Pipeline Event_Service Snoop_Filter_Refine XBar_Layer Design_Space
begin

text \<open>
  DSEGem5 explores the design space of neural-network accelerators.  This development verifies the parts of it
  that compute: the exploration itself, the generator that turns a layer into memory traffic, and the parts of
  the simulator that replay the traffic.

  \<^bold>\<open>The program.\<close>  For every layer of a model the exploration (\<open>src/DSE\<close>, Python) chooses how the
  tensors are split and writes a configuration file.  The traffic generator (\<open>src/traffic_generator\<close>, C++)
  reads it, computes the sizes of one subgraph, and writes a file of reads, writes, computations and
  synchronisations for every processing element.  The simulator (\<open>src/gem5\<close>) has a new component, the
  processing element (\<open>src/gem5/src/lab447\<close>), which replays this file through the memory system; the
  elements meet at barriers when data is broadcast.  The final tick is the value of the design point.

  \<^bold>\<open>How programs are modelled.\<close>  \<open>Prelude\<close> has the failures of the languages as a datatype, results as a
  sum of a failure and a value, sequencing and loops over them, checked machine arithmetic, and the calculus
  \<open>okE\<close> (returns, and the result satisfies) and \<open>safeE\<close> (if it returns).  Operations are functions from a
  state to a result with the new state; objects behind pointers live in explicit stores; undefined behaviour,
  assertions, panics and exceptions are failures.  Unsigned integers are words of their width, signed ones are
  checked integers.

  \<^bold>\<open>Theories and sources.\<close>

  \<^item> \<open>Design_Space\<close>: \<open>DSE/design_space.py\<close>, \<open>GA.py\<close>, \<open>kernel_function.py\<close>, \<open>SW_MOGA.fitness\<close> of
    \<open>MOGA.py\<close>, \<open>GetReportAPI\<close> and the loop of \<open>sw_dse\<close> in \<open>main.py\<close>.  The table of factorisations is complete and
    without repetition; the tiles of every solution divide the tensors; the two values of a solution agree, and a
    rejected solution wins the single-objective search; the exploration searches exactly the first supported layer.
  \<^item> \<open>Graph\<close>, \<open>Workload\<close>: \<open>workload_analysis/graph.hpp\<close>, \<open>strategy.hpp\<close>, \<open>pe.hpp\<close>, \<open>util.hpp\<close> and
    \<open>operator/*.hpp\<close>.  Tensors live in a store because nodes share them.  For every operator the shapes after
    \<open>split\<close>, the convolution's compared with the formula of its head comment, and the size that \<open>computeSize\<close> returns.
  \<^item> \<open>Traffic_Gen\<close>, \<open>Traffic_Inv\<close>, \<open>Traffic_Cost\<close>: \<open>traffic_generator/traffic.hpp\<close> and
    \<open>traffic_generator.hpp\<close>.  The locale \<open>traffic_invariant\<close> is the interface between the four general functions and
    the nine operator functions; it is interpreted for the balance of barriers and for what no generator changes.
    \<open>Traffic_Cost\<close> counts the records and the address advances of the operator functions exactly.
  \<^item> \<open>Json\<close>, \<open>Json_Parser\<close>, \<open>Json_Format\<close>: the values and accessors of \<open>parser/json.hpp\<close>, and
    \<open>parser/json_parser.hpp\<close>.  From the JSON value of a description, objects with their members in key order, the
    parser builds exactly the described graph.
  \<^item> \<open>Top\<close>: \<open>top.cpp\<close>, one definition per branch of \<open>main\<close>, fusion and the output file included.
  \<^item> \<open>PE\<close>: \<open>lab447/pe.cc\<close>, \<open>pe.hh\<close>, \<open>traffic_pattern.hh\<close>.  \<open>PE_System\<close> lets all elements run together with an
    arbitrary memory system, as actions with a reachability relation and an invariant; \<open>PE_Live\<close> and \<open>PE_Term\<close> show
    that the system fails only where a tick would wrap, never deadlocks, exits only when all work is done, and finishes if the port
    accepts packets, within a number of steps given by a measure.  \<open>PE_Packets\<close> says which bytes the packets of
    a transfer cover.
  \<^item> \<open>Pipeline\<close>: the script \<open>configs/lab447/util/buildSystem.py\<close> and \<open>pe_tile.py\<close>, which create the elements, let
    them read the file of the generator and start them.
  \<^item> \<open>Event_Queue\<close>, \<open>Event_Queue_Refine\<close>, \<open>Event_Service\<close>: \<open>sim/eventq.hh\<close>, \<open>eventq.cc\<close>.  The linked list of linked
    bins refines a list ordered by time and priority; the locale \<open>ordered_agenda\<close> is what users of the queue rely
    on.  Pointer loops are partial functions, and every operation is shown to end.
  \<^item> \<open>Packet\<close>: the commands, flags and constructors of \<open>mem/packet.hh\<close>, \<open>packet.cc\<close> and \<open>mem/request.hh\<close>.
  \<^item> \<open>Snoop_Filter\<close>, \<open>Snoop_Filter_Refine\<close>: \<open>mem/snoop_filter.hh\<close>, \<open>snoop_filter.cc\<close>.  Bit masks refine the sets of
    ports that wait for and hold a line; the locale \<open>line_tracker\<close> is the contract of the filter.
  \<^item> \<open>Clocked\<close>, \<open>XBar_Layer\<close>: \<open>sim/clocked_object.hh\<close> and class \<open>Layer\<close> of \<open>mem/xbar.hh\<close>, \<open>xbar.cc\<close>.  Clock
    edges are where they are documented; the flow control of a crossbar never fails an assertion, forgets no port
    and serves ports in order.

  The theorem below puts the parts together: from any operator function of the generator to the end of the
  simulation.

  \<^bold>\<open>Bounds.\<close>  The code wraps 32-bit sizes and counters of records and 64-bit addresses and ticks, and so does the
  model; theorems name the range in which nothing wraps.  No fuel is used: loops over data are structural, the
  others are \<open>partial_function\<close> with a proof that they return.  Handlers of the elements are safe up to a compute time
  (100) before the last 64-bit tick, where the next event would wrap; clocks stay two periods away from it.

  \<^bold>\<open>Parameters.\<close>  The memory system behind the port of an element (which packets it accepts, when it answers), the
  action of an event, the genetic algorithm of \<open>pygad\<close>, and the outcome of running the generator, the simulator and the
  report from the exploration are arguments.

  \<^bold>\<open>Not modelled.\<close>  Text: the lexer and the printer of the JSON library; \<open>as_read\<close> states the one difference that a
  value shows after being written and read, that numbers without a sign are unsigned.  Python around external
  packages: \<open>BO.py\<close>, \<open>MOBO.py\<close>, \<open>maestro_wrapper.py\<close>, the loops of \<open>MOGA.py\<close>, \<open>HW_GA.decode\<close>,
  \<open>parser/HW_parser.py\<close>, \<open>onnx_parser\<close>, and \<open>report_parser\<close>, which adds up floating-point statistics.  Operator
  classes that are not included by \<open>top.cpp\<close> (\<open>conv_relu.hpp\<close>, \<open>conv_batchnorm_relu.hpp\<close>, \<open>gemm.hpp\<close>).  Of the
  simulator: packet payloads, address decoding and forwarding of the crossbars, caches, coherence
  protocols, memory controllers and processors, which are the environment of the elements; locks, tracing,
  statistics formatting and console output.
\<close>

text \<open>
  C1. From the generator to the end of the simulation, for a machine of one tile (\<open>buildType1\<close> of \<open>buildSystem.py\<close>
  with \<open>n\<close> elements) and traffic whose transfers the elements can make (\<open>transfers_ok\<close>: at least one line and less than
  \<open>2 ^ 31\<close>, all of them memory).  Whatever operator function produced the traffic, its file is written and read without
  failure and every processing element gets exactly its own records, in order.  From then on, in every reachable
  configuration, whatever the memory system does: no handler fails as long as the tick is more than a compute time
  (100) away from the last one, the elements never deadlock at a barrier, and the simulation has exited only if every
  element has processed all its records.
\<close>

theorem simulation_runs:
  assumes "new_TrafficGenerator h (int n) S sn bn = Inr g" and "f \<in> set generators" and "f (init_strategy st g) = Inr g'"
    and "0 < n" "n < 2 ^ 32" "line \<noteq> 0" "length (tg_list g') < 2 ^ 32" "transfers_ok mem line (tg_list g')"
  shows "\<exists>data s. traffic_pattern (tg_list g') = Inr data \<and> buildType1 1 n line gmem (as_read data) = Inr s \<and> map snd (pe_list s) = [0..<n] \<and>
     (\<forall>i<n. traffic_list (pes s ! i) = map received (filter (\<lambda>t. tr_src t = (0, int i)) (tg_list g'))) \<and>
     (\<forall>c. reachable mem (s, {}) c \<longrightarrow>
        (\<forall>a. enabled a c \<and> unat (tick_of a c) + 100 < 2 ^ 64 \<longrightarrow> (\<exists>c'. perform mem a c = Inr c')) \<and>
        (pe_list (fst c) \<noteq> [] \<longrightarrow> (\<exists>a. enabled a c)) \<and>
        (sim_exit (fst c) \<longrightarrow> (\<forall>p \<in> set (pes (fst c)). no_more_traffic p)))"
proof -
  let ?l = "tg_list g'" and ?s = "started line gmem n (tg_list g')"
  have bal: "balanced (int n) ?l"
    using generators_balanced [OF assms(1) _ assms(2), of st] assms(3,4) by simp
  have build: "buildType1 1 n line gmem (as_read (JArray (map traffic_obj ?l))) = Inr ?s"
    by (rule buildType1_started [OF balancedD(1) [OF bal] assms(4,5)])
  have ready: "ready_system mem (barriers 0 ?l) ?s" by (rule started_ready [OF bal assms(4-8)])
  have run: "(\<forall>a. enabled a c \<and> unat (tick_of a c) + 100 < 2 ^ 64 \<longrightarrow> (\<exists>c'. perform mem a c = Inr c')) \<and> (pe_list (fst c) \<noteq> [] \<longrightarrow> (\<exists>a. enabled a c)) \<and>
      (sim_exit (fst c) \<longrightarrow> (\<forall>p \<in> set (pes (fst c)). no_more_traffic p))" if "reachable mem (?s, {}) c" for c
    using ready_run [OF ready that] .
  show ?thesis
    using build run traffic_pattern_objs [of ?l] by (intro exI [of _ "JArray (map traffic_obj ?l)"] exI [of _ ?s]) (simp add: started_def records_def comp_def del: as_read.simps)
qed

theorem simulation_runs_witness:
  "\<exists>g' data s. conv_run = Inr g' \<and> traffic_pattern (tg_list g') = Inr data \<and> buildType1 1 2 64 (2 ^ 30) (as_read data) = Inr s \<and>
     (\<exists>a. enabled a (s, {}))"
proof -
  obtain g' where g': "conv_run = Inr g'" "length (tg_list g') < 20" "transfers_ok (\<lambda>_. True) 64 (tg_list g')"
    using conv_run_small small_transfers_ok by (auto split: sum.splits)
  have f: "generate_traffic_conv_weight_stationary \<in> set generators" by (simp add: generators_def)
  have "length (tg_list g') < 2 ^ 32" using g'(2) by simp
  then obtain data s where d: "traffic_pattern (tg_list g') = Inr data" "buildType1 1 2 64 (2 ^ 30) (as_read data) = Inr s"
    and l: "map snd (pe_list s) = [0..<2]" and run: "\<forall>c. reachable (\<lambda>_. True) (s, {}) c \<longrightarrow> pe_list (fst c) \<noteq> [] \<longrightarrow> (\<exists>a. enabled a c)"
    using simulation_runs [OF run_gen_new f g'(1) [unfolded conv_run_def] _ _ _ _ g'(3), of "2 ^ 30"] by auto
  have "pe_list s \<noteq> []" using l by (auto simp: upt_rec)
  then show ?thesis using g'(1) d run reachable.init [of "\<lambda>_. True" "(s, {})"] by fastforce
qed

end
